(* ===== verification/Ctf_Prelude.thy ===== *)
theory Ctf_Prelude
  imports Main "HOL-Library.Word" "HOL-Library.State_Monad"
begin

text \<open>
  Shared vocabulary of the development: the machine-integer types of the C++ sources, the
  narrowing conversions and the truncating division they use, generic facts on lists that are
  updated by index, and the theorem collections the component theories fill and use.

  Unsigned integers (\<open>uint8_t\<close>, \<open>uint16_t\<close>, \<open>uint32_t\<close>) are words of that width. The signed
  \<open>int32_t\<close> coordinates are \<open>int\<close>: signed overflow is undefined in C++, so instead of a
  wrap-around the development proves that the values stay in range (\<open>in_i32\<close>). Where the code
  narrows explicitly (\<open>static_cast\<close>), the conversion is written out.
\<close>

unbundle bit_operations_syntax

named_theorems codec_intros \<open>composition rules for byte writers and byte readers\<close>
named_theorems wire_defs \<open>definitions of the wire images of messages\<close>
named_theorems config_defs \<open>numeric values of the tuning constants\<close>

type_synonym u8 = "8 word"
type_synonym u16 = "16 word"
type_synonym u32 = "32 word"

section \<open>Machine integers\<close>

text \<open>\<open>in_i32 x\<close>: the mathematical value \<open>x\<close> is representable as an \<open>int32_t\<close>.\<close>

definition in_i32 :: "int \<Rightarrow> bool" where
  "in_i32 x \<longleftrightarrow> - (2 ^ 31) \<le> x \<and> x < 2 ^ 31"

text \<open>\<open>static_cast<int32_t>\<close> of a wider integer: two's complement wrap-around.\<close>

definition to_i32 :: "int \<Rightarrow> int" where
  "to_i32 x = signed_take_bit 31 x"

lemma to_i32_id [simp]: "in_i32 x \<Longrightarrow> to_i32 x = x"
  by (simp add: to_i32_def in_i32_def signed_take_bit_int_eq_self)

text \<open>Integer division of C++: the quotient is truncated towards zero.\<close>

definition cdiv :: "int \<Rightarrow> int \<Rightarrow> int" where
  "cdiv a b = sgn a * sgn b * (\<bar>a\<bar> div \<bar>b\<bar>)"

lemma cdiv_nonneg: "0 \<le> a \<Longrightarrow> 0 < b \<Longrightarrow> cdiv a b = a div b"
  by (cases "a = 0") (auto simp: cdiv_def sgn_if)

lemma cdiv_neg: "a < 0 \<Longrightarrow> 0 < b \<Longrightarrow> cdiv a b = - ((- a) div b)"
  by (simp add: cdiv_def sgn_if)

lemma cdiv_small_neg: "- b < a \<Longrightarrow> a < 0 \<Longrightarrow> cdiv a b = 0"
  by (simp add: cdiv_def div_pos_pos_trivial)

lemma cdiv_mono: "a \<le> a' \<Longrightarrow> 0 < b \<Longrightarrow> cdiv a b \<le> cdiv a' b"
proof -
  assume le: "a \<le> a'" and b: "0 < b"
  consider "0 \<le> a" | "a < 0" "0 \<le> a'" | "a' < 0" using le by linarith
  then show "cdiv a b \<le> cdiv a' b"
  proof cases
    case 1
    then show ?thesis using le b by (simp add: cdiv_nonneg zdiv_mono1)
  next
    case 2
    then have "0 \<le> (- a) div b" "0 \<le> a' div b"
      using b by (simp_all add: pos_imp_zdiv_nonneg_iff)
    then show ?thesis using 2 b by (simp add: cdiv_nonneg cdiv_neg)
  next
    case 3
    then show ?thesis using le b by (simp add: cdiv_neg zdiv_mono1)
  qed
qed

section \<open>Arrays as lists\<close>

text \<open>
  \<open>update_range xs i ys\<close> is the array \<open>xs\<close> after the assignments \<open>xs[i] = ys[0]\<close>,
  \<open>xs[i+1] = ys[1]\<close>, and so on: what a decoding loop leaves in its output array.
\<close>

primrec update_range :: "'a list \<Rightarrow> nat \<Rightarrow> 'a list \<Rightarrow> 'a list" where
  "update_range xs i [] = xs"
| "update_range xs i (y # ys) = update_range (xs[i := y]) (Suc i) ys"

lemma length_update_range [simp]: "length (update_range xs i ys) = length xs"
  by (induction ys arbitrary: xs i) auto

lemma nth_update_range:
  "j < length xs \<Longrightarrow>
     update_range xs i ys ! j = (if i \<le> j \<and> j < i + length ys then ys ! (j - i) else xs ! j)"
proof (induction ys arbitrary: xs i)
  case Nil
  then show ?case by auto
next
  case (Cons y ys)
  then have "update_range (xs[i := y]) (Suc i) ys ! j
      = (if Suc i \<le> j \<and> j < Suc i + length ys then ys ! (j - Suc i) else xs[i := y] ! j)"
    by simp
  then show ?case using Cons.prems by (auto simp: nth_list_update nth_Cons')
qed

lemma update_range_0:
  assumes "length ys \<le> length xs"
  shows "update_range xs 0 ys = ys @ drop (length ys) xs"
  using assms by (intro nth_equalityI) (auto simp: nth_update_range nth_append)

lemma take_Suc_update:
  "i < length xs \<Longrightarrow> take (Suc i) (xs[i := v]) = take i xs @ [v]"
  by (simp add: take_Suc_conv_app_nth)

lemma list_all_update: "list_all P xs \<Longrightarrow> P v \<Longrightarrow> list_all P (xs[i := v])"
  by (metis list_all_length length_list_update nth_list_update_eq nth_list_update_neq)

end
