(* ===== verification/Game_Types.thy ===== *)
theory Game_Types
  imports Ctf_Prelude
begin

text \<open>
  \<open>shared/game_config.h\<close> and \<open>shared/game_types.h\<close>: the tuning constants and the value types
  every other component shares. Default member initialisers are the \<open>default_...\<close> constants;
  a \<open>std::array\<close> of \<open>kMaxPlayers\<close> elements is a list of that length (\<open>wf_snapshot\<close>).
\<close>

section \<open>Constants (\<open>game_config.h\<close>)\<close>

definition kTickRateHz :: int where [config_defs]: "kTickRateHz = 30"
definition kTileSizePx :: int where [config_defs]: "kTileSizePx = 32"
definition kPlayerSizePx :: int where [config_defs]: "kPlayerSizePx = 24"
definition kMoveSpeedFpPerTick :: int where [config_defs]: "kMoveSpeedFpPerTick = 1365"
definition kDiagonalFactorNum :: int where [config_defs]: "kDiagonalFactorNum = 181"
definition kMaxHealth :: int where [config_defs]: "kMaxHealth = 100"
definition kInputRedundancy :: nat where [config_defs]: "kInputRedundancy = 3"
definition kFixedShift :: nat where [config_defs]: "kFixedShift = 8"
definition kFixedScale :: int where [config_defs]: "kFixedScale = 256"
definition kMapWidthTiles :: int where [config_defs]: "kMapWidthTiles = 40"
definition kMapHeightTiles :: int where [config_defs]: "kMapHeightTiles = 25"
definition kMapWidthPx :: int where [config_defs]: "kMapWidthPx = kMapWidthTiles * kTileSizePx"
definition kMapHeightPx :: int where [config_defs]: "kMapHeightPx = kMapHeightTiles * kTileSizePx"
definition kMaxPlayers :: nat where [config_defs]: "kMaxPlayers = 10"
definition kWireFixedShift :: nat where [config_defs]: "kWireFixedShift = 4"
definition kTcpFrameHeaderBytes :: nat where [config_defs]: "kTcpFrameHeaderBytes = 3"
definition kTcpFrameCapBytes :: nat where [config_defs]: "kTcpFrameCapBytes = 4096"
definition kUdpHeaderBytes :: nat where [config_defs]: "kUdpHeaderBytes = 8"
definition kDamagePerShot :: int where [config_defs]: "kDamagePerShot = 34"
definition kFireCooldownTicks :: int where [config_defs]: "kFireCooldownTicks = 10"
definition kRespawnDelayTicks :: int where [config_defs]: "kRespawnDelayTicks = 90"
definition kFlagAutoReturnTicks :: nat where [config_defs]: "kFlagAutoReturnTicks = 450"
definition kScoreToWin :: nat where [config_defs]: "kScoreToWin = 3"
definition kMatchTimeLimitSec :: int where [config_defs]: "kMatchTimeLimitSec = 10 * 60"
definition kInputRingSize :: nat where [config_defs]: "kInputRingSize = 8"
definition kUdpSilenceTimeoutSec :: nat where [config_defs]: "kUdpSilenceTimeoutSec = 3"
definition kTcpPendingBufferCapBytes :: nat where [config_defs]: "kTcpPendingBufferCapBytes = 64 * 1024"
definition kSnapshotKeyframeInterval :: nat where [config_defs]: "kSnapshotKeyframeInterval = 10"
definition kInterpolationDelayTicks :: int where [config_defs]: "kInterpolationDelayTicks = 2"
definition kSnapshotRingSize :: nat where [config_defs]: "kSnapshotRingSize = 30"
definition kInputHistoryRingSize :: nat where [config_defs]: "kInputHistoryRingSize = 64"

section \<open>Value types (\<open>game_types.h\<close>)\<close>

text \<open>A fixed-point position or velocity in units of 1/256 pixel (two \<open>int32_t\<close>).\<close>

record vec2 =
  vx :: int
  vy :: int

definition Vec2Fixed :: "int \<Rightarrow> int \<Rightarrow> vec2" where
  "Vec2Fixed x y = \<lparr>vx = x, vy = y\<rparr>"

lemma Vec2Fixed_sel [simp]: "vx (Vec2Fixed x y) = x" "vy (Vec2Fixed x y) = y"
  by (simp_all add: Vec2Fixed_def)

lemma Vec2Fixed_eq [simp]: "Vec2Fixed x y = Vec2Fixed x' y' \<longleftrightarrow> x = x' \<and> y = y'"
  by (simp add: Vec2Fixed_def)

datatype team = Red | Blue

datatype flag_state = AtBase | Carried | Dropped

text \<open>The input buttons bit mask.\<close>

definition kInputUp :: u8 where "kInputUp = 1"
definition kInputDown :: u8 where "kInputDown = 2"
definition kInputLeft :: u8 where "kInputLeft = 4"
definition kInputRight :: u8 where "kInputRight = 8"
definition kInputFire :: u8 where "kInputFire = 16"

lemmas button_defs = kInputUp_def kInputDown_def kInputLeft_def kInputRight_def kInputFire_def

record input_cmd =
  buttons :: u8
  aim_angle :: u16

definition default_input :: input_cmd where
  "default_input = \<lparr>buttons = 0, aim_angle = 0\<rparr>"

record player_motion =
  position :: vec2
  velocity :: vec2

definition default_motion :: player_motion where
  "default_motion = \<lparr>position = Vec2Fixed 0 0, velocity = Vec2Fixed 0 0\<rparr>"

record player_state =
  ps_id :: u8
  ps_team :: team
  ps_motion :: player_motion
  ps_aim_angle :: u16
  ps_health :: u8
  ps_alive :: bool
  ps_carrying_flag :: bool
  ps_firing :: bool

definition default_player_state :: player_state where
  "default_player_state = \<lparr>ps_id = 0, ps_team = Red, ps_motion = default_motion, ps_aim_angle = 0,
     ps_health = 100, ps_alive = True, ps_carrying_flag = False, ps_firing = False\<rparr>"

record flag_info =
  fl_state :: flag_state
  fl_position :: vec2
  fl_carrier_id :: u8

definition default_flag_info :: flag_info where
  "default_flag_info = \<lparr>fl_state = AtBase, fl_position = Vec2Fixed 0 0, fl_carrier_id = 0xFF\<rparr>"

record world_snapshot =
  snap_tick :: u32
  last_input_seq :: u32
  player_count :: u8
  flag_carrier_red :: u8
  flag_carrier_blue :: u8
  flag_state_red :: flag_state
  flag_state_blue :: flag_state
  score_red :: u8
  score_blue :: u8
  seconds_remaining :: u16
  snap_players :: "player_state list"

definition default_snapshot :: world_snapshot where
  "default_snapshot = \<lparr>snap_tick = 0, last_input_seq = 0, player_count = 0, flag_carrier_red = 0xFF,
     flag_carrier_blue = 0xFF, flag_state_red = AtBase, flag_state_blue = AtBase, score_red = 0,
     score_blue = 0, seconds_remaining = 0, snap_players = replicate kMaxPlayers default_player_state\<rparr>"

text \<open>The array has \<open>kMaxPlayers\<close> slots and the count does not exceed them.\<close>

definition wf_snapshot :: "world_snapshot \<Rightarrow> bool" where
  "wf_snapshot s \<longleftrightarrow> length (snap_players s) = kMaxPlayers \<and> unat (player_count s) \<le> kMaxPlayers"

lemma wf_default_snapshot: "wf_snapshot default_snapshot"
  by (simp add: wf_snapshot_def default_snapshot_def kMaxPlayers_def)

text \<open>The linear scan for a player id that several components contain (first match wins).\<close>

definition find_snap_player :: "world_snapshot \<Rightarrow> u8 \<Rightarrow> player_state option" where
  "find_snap_player snap pid =
     List.find (\<lambda>p. ps_id p = pid) (take (unat (player_count snap)) (snap_players snap))"

text \<open>The opponent of a team.\<close>

definition enemy_of :: "team \<Rightarrow> team" where
  "enemy_of t = (if t = Red then Blue else Red)"

lemma enemy_of_simps [simp]: "enemy_of Red = Blue" "enemy_of Blue = Red" "enemy_of (enemy_of t) = t"
  by (cases t; simp add: enemy_of_def)+

end
