(* ===== verification/Game_Map.thy ===== *)
theory Game_Map
  imports Game_Types
begin

text \<open>
  \<open>shared/map.h\<close> and \<open>shared/map.cpp\<close>: the 40 x 25 tile grid, the wall query and the collision
  test of the 24 x 24 player box, with the base and spawn coordinates.

  \<open>aabb_collides\<close> is the code's double loop over the tile range computed with C++ division. It is
  proved equal to a geometric specification (\<open>box_hits_wall\<close>: some point of the half-open box lies
  in a wall tile, with tiles given by rounding down), for every position. The truncating division
  differs from rounding down left of and above the map; the wall border makes up for it.
\<close>

section \<open>The grid\<close>

datatype tile_type = EmptyTile | Wall

definition kMapRows :: "string list" where
  "kMapRows = [
     ''########################################'',
     ''#......................................#'',
     ''#......................................#'',
     ''#...####...........##...........####...#'',
     ''#...####...........##...........####...#'',
     ''#...####...........##...........####...#'',
     ''#...####...........##...........####...#'',
     ''#......................................#'',
     ''###########....##########....###########'',
     ''#......................................#'',
     ''#......................................#'',
     ''#.......####................####.......#'',
     ''#.......####................####.......#'',
     ''#.......####................####.......#'',
     ''#......................................#'',
     ''#......................................#'',
     ''###########....##########....###########'',
     ''#......................................#'',
     ''#...####...........##...........####...#'',
     ''#...####...........##...........####...#'',
     ''#...####...........##...........####...#'',
     ''#...####...........##...........####...#'',
     ''#......................................#'',
     ''#......................................#'',
     ''########################################'']"

definition tile_to_fp :: "int \<Rightarrow> int \<Rightarrow> vec2" where
  "tile_to_fp tile_x tile_y = Vec2Fixed (tile_x * kTileSizePx * kFixedScale) (tile_y * kTileSizePx * kFixedScale)"

definition tile_at :: "int \<Rightarrow> int \<Rightarrow> tile_type" where
  "tile_at tile_x tile_y =
     (if tile_x < 0 \<or> tile_x \<ge> kMapWidthTiles \<or> tile_y < 0 \<or> tile_y \<ge> kMapHeightTiles then Wall
      else if kMapRows ! nat tile_y ! nat tile_x = CHR ''#'' then Wall else EmptyTile)"

definition is_wall :: "int \<Rightarrow> int \<Rightarrow> bool" where
  "is_wall tile_x tile_y \<longleftrightarrow> tile_at tile_x tile_y = Wall"

definition aabb_collides :: "vec2 \<Rightarrow> bool" where
  "aabb_collides p =
     (let size_fp = kPlayerSizePx * kFixedScale;
          tile_fp = kTileSizePx * kFixedScale;
          min_tx = cdiv (vx p) tile_fp;
          max_tx = cdiv (vx p + size_fp - 1) tile_fp;
          min_ty = cdiv (vy p) tile_fp;
          max_ty = cdiv (vy p + size_fp - 1) tile_fp
      in list_ex (\<lambda>ty. list_ex (\<lambda>tx. is_wall tx ty) [min_tx..max_tx]) [min_ty..max_ty])"

definition kRedBasePosition :: vec2 where "kRedBasePosition = tile_to_fp 2 12"
definition kBlueBasePosition :: vec2 where "kBlueBasePosition = tile_to_fp 37 12"

definition kRedSpawnPoints :: "vec2 list" where
  "kRedSpawnPoints =
     [tile_to_fp 2 5, tile_to_fp 2 7, tile_to_fp 2 9, tile_to_fp 2 11, tile_to_fp 2 13, tile_to_fp 1 12,
      tile_to_fp 3 10, tile_to_fp 3 14, tile_to_fp 1 9, tile_to_fp 1 15]"

definition kBlueSpawnPoints :: "vec2 list" where
  "kBlueSpawnPoints =
     [tile_to_fp 37 5, tile_to_fp 37 7, tile_to_fp 37 9, tile_to_fp 37 11, tile_to_fp 37 13, tile_to_fp 38 12,
      tile_to_fp 36 10, tile_to_fp 36 14, tile_to_fp 38 9, tile_to_fp 38 15]"

section \<open>Facts of the layout\<close>

lemma map_dimensions: "length kMapRows = 25" "list_all (\<lambda>row. length row = 40) kMapRows"
  by (simp_all add: kMapRows_def)

lemma wall_outside:
  "x < 0 \<or> 40 \<le> x \<or> y < 0 \<or> 25 \<le> y \<Longrightarrow> is_wall x y"
  by (auto simp: is_wall_def tile_at_def config_defs)

lemma border_columns: "list_all (\<lambda>row. row ! 0 = CHR ''#'' \<and> row ! 39 = CHR ''#'') kMapRows"
  by (simp add: kMapRows_def)

lemma border_rows: "kMapRows ! 0 = replicate 40 (CHR ''#'')" "kMapRows ! 24 = replicate 40 (CHR ''#'')"
  by (code_simp, code_simp)

lemma rows_mirrored: "list_all (\<lambda>row. rev row = row) kMapRows"
  by (simp add: kMapRows_def)

lemma left_column_wall: "is_wall 0 y"
proof (cases "y < 0 \<or> 25 \<le> y")
  case True
  then show ?thesis by (intro wall_outside) auto
next
  case False
  then have "nat y < 25" by linarith
  then have "kMapRows ! nat y ! 0 = CHR ''#''"
    using border_columns map_dimensions(1) by (simp add: list_all_length)
  then show ?thesis by (simp add: is_wall_def tile_at_def)
qed

lemma top_row_wall: "is_wall x 0"
proof (cases "x < 0 \<or> 40 \<le> x")
  case True
  then show ?thesis by (intro wall_outside) auto
next
  case False
  then have "nat x < 40" by linarith
  then show ?thesis by (simp add: is_wall_def tile_at_def border_rows)
qed

lemma tile_mirrored: "tile_at (39 - x) y = tile_at x y"
proof (cases "x < 0 \<or> 40 \<le> x \<or> y < 0 \<or> 25 \<le> y")
  case True
  then show ?thesis by (auto simp: tile_at_def config_defs)
next
  case False
  let ?row = "kMapRows ! nat y"
  have y: "nat y < 25" and x: "nat x < 40" using False by linarith+
  have row: "rev ?row = ?row" "length ?row = 40"
    using rows_mirrored map_dimensions y by (simp_all add: list_all_length)
  have idx: "nat (39 - x) = 39 - nat x" using False by linarith
  have "?row ! (39 - nat x) = rev ?row ! (39 - nat x)" by (simp add: row)
  also have "\<dots> = ?row ! nat x" using x row(2) by (simp add: rev_nth)
  finally show ?thesis using False by (simp add: tile_at_def config_defs idx)
qed

section \<open>Geometric specification of the collision test\<close>

definition box_hits_wall :: "vec2 \<Rightarrow> bool" where
  "box_hits_wall p \<longleftrightarrow> (\<exists>x y. vx p \<le> x \<and> x < vx p + kPlayerSizePx * kFixedScale
     \<and> vy p \<le> y \<and> y < vy p + kPlayerSizePx * kFixedScale
     \<and> is_wall (x div (kTileSizePx * kFixedScale)) (y div (kTileSizePx * kFixedScale)))"

lemma aabb_collides_iff:
  "aabb_collides p \<longleftrightarrow> (\<exists>tx ty. cdiv (vx p) 8192 \<le> tx \<and> tx \<le> cdiv (vx p + 6143) 8192
     \<and> cdiv (vy p) 8192 \<le> ty \<and> ty \<le> cdiv (vy p + 6143) 8192 \<and> is_wall tx ty)"
proof -
  have size: "a + kPlayerSizePx * kFixedScale - 1 = a + 6143" "kTileSizePx * kFixedScale = 8192" for a
    by (simp_all add: config_defs)
  show ?thesis
    unfolding aabb_collides_def Let_def list_ex_iff set_upto size atLeastAtMost_iff Bex_def by blast
qed

lemma box_hits_wall_iff:
  "box_hits_wall p \<longleftrightarrow> (\<exists>tx ty. vx p div 8192 \<le> tx \<and> tx \<le> (vx p + 6143) div 8192
     \<and> vy p div 8192 \<le> ty \<and> ty \<le> (vy p + 6143) div 8192 \<and> is_wall tx ty)"
proof -
  have pick: "(\<exists>z. a \<le> z \<and> z < a + 6144 \<and> z div 8192 = t) \<longleftrightarrow> a div 8192 \<le> t \<and> t \<le> (a + 6143) div 8192"
    for a t :: int
  proof
    assume "\<exists>z. a \<le> z \<and> z < a + 6144 \<and> z div 8192 = t"
    then show "a div 8192 \<le> t \<and> t \<le> (a + 6143) div 8192" by auto
  next
    assume "a div 8192 \<le> t \<and> t \<le> (a + 6143) div 8192"
    then have "a \<le> max a (8192 * t) \<and> max a (8192 * t) < a + 6144 \<and> max a (8192 * t) div 8192 = t"
      by auto
    then show "\<exists>z. a \<le> z \<and> z < a + 6144 \<and> z div 8192 = t" by blast
  qed
  have "box_hits_wall p \<longleftrightarrow> (\<exists>tx ty. (\<exists>x. vx p \<le> x \<and> x < vx p + 6144 \<and> x div 8192 = tx)
      \<and> (\<exists>y. vy p \<le> y \<and> y < vy p + 6144 \<and> y div 8192 = ty) \<and> is_wall tx ty)"
    by (auto simp: box_hits_wall_def config_defs)
  then show ?thesis unfolding pick by auto
qed

text \<open>Left of or above the map both tests answer true, because column 0 and row 0 are walls.\<close>

lemma collides_outside:
  assumes "vx p < 0 \<or> vy p < 0"
  shows "aabb_collides p" "box_hits_wall p"
proof -
  let ?tx = "cdiv (vx p) 8192" and ?ty = "cdiv (vy p) 8192"
  have range: "?tx \<le> cdiv (vx p + 6143) 8192" "?ty \<le> cdiv (vy p + 6143) 8192"
    by (simp_all add: cdiv_mono)
  have neg: "cdiv a 8192 \<le> 0" if "a < 0" for a
    using that cdiv_mono [of a 0 8192] by (simp add: cdiv_def)
  have "is_wall ?tx ?ty"
    using assms neg [of "vx p"] neg [of "vy p"] wall_outside left_column_wall top_row_wall
    by (metis linorder_not_less order_le_less)
  then show "aabb_collides p" unfolding aabb_collides_iff using range by blast
  have "vx p div 8192 \<le> (vx p + 6143) div 8192" "vy p div 8192 \<le> (vy p + 6143) div 8192"
    by (simp_all add: zdiv_mono1)
  moreover have "is_wall (vx p div 8192) (vy p div 8192)"
    using assms by (intro wall_outside) auto
  ultimately show "box_hits_wall p" unfolding box_hits_wall_iff by blast
qed

lemma aabb_collides_geometric: "aabb_collides p = box_hits_wall p"
proof (cases "vx p < 0 \<or> vy p < 0")
  case True
  then show ?thesis using collides_outside by blast
next
  case False
  then show ?thesis unfolding aabb_collides_iff box_hits_wall_iff by (simp add: cdiv_nonneg)
qed

text \<open>A free box lies inside the map, so its coordinates are small non-negative numbers.\<close>

lemma free_in_map:
  assumes "\<not> aabb_collides p"
  shows "0 \<le> vx p" "0 \<le> vy p" "vx p + 6144 \<le> 40 * 8192" "vy p + 6144 \<le> 25 * 8192"
proof -
  have free: "\<not> is_wall (x div 8192) (y div 8192)"
    if "vx p \<le> x" "x < vx p + 6144" "vy p \<le> y" "y < vy p + 6144" for x y
    using assms that by (auto simp: aabb_collides_geometric box_hits_wall_def config_defs)
  show "0 \<le> vx p" "0 \<le> vy p" using collides_outside(1) assms by (meson not_le)+
  have "\<not> 40 \<le> (vx p + 6143) div 8192" "\<not> 25 \<le> (vy p + 6143) div 8192"
    using free [of "vx p + 6143" "vy p + 6143"] wall_outside by auto
  then show "vx p + 6144 \<le> 40 * 8192" "vy p + 6144 \<le> 25 * 8192" by linarith+
qed

text \<open>
  A box between two free boxes that are at most one box width apart is free: the two outer boxes
  cover it.
\<close>

lemma free_between_x:
  assumes "\<not> aabb_collides (Vec2Fixed x y)" "\<not> aabb_collides (Vec2Fixed x' y)" "x' - x \<le> 6144"
    and "x \<le> z" "z \<le> x'"
  shows "\<not> aabb_collides (Vec2Fixed z y)"
proof
  assume "aabb_collides (Vec2Fixed z y)"
  then obtain a b where a: "z \<le> a" "a < z + 6144" "y \<le> b" "b < y + 6144" "is_wall (a div 8192) (b div 8192)"
    by (auto simp: aabb_collides_geometric box_hits_wall_def config_defs)
  then consider "x \<le> a \<and> a < x + 6144" | "x' \<le> a \<and> a < x' + 6144" using assms(3-5) by fastforce
  then show False
    using a assms(1,2) by cases (auto simp: aabb_collides_geometric box_hits_wall_def config_defs)
qed

lemma free_between_y:
  assumes "\<not> aabb_collides (Vec2Fixed x y)" "\<not> aabb_collides (Vec2Fixed x y')" "y' - y \<le> 6144"
    and "y \<le> z" "z \<le> y'"
  shows "\<not> aabb_collides (Vec2Fixed x z)"
proof
  assume "aabb_collides (Vec2Fixed x z)"
  then obtain a b where a: "x \<le> a" "a < x + 6144" "z \<le> b" "b < z + 6144" "is_wall (a div 8192) (b div 8192)"
    by (auto simp: aabb_collides_geometric box_hits_wall_def config_defs)
  then consider "y \<le> b \<and> b < y + 6144" | "y' \<le> b \<and> b < y' + 6144" using assms(3-5) by fastforce
  then show False
    using a assms(1,2) by cases (auto simp: aabb_collides_geometric box_hits_wall_def config_defs)
qed

text \<open>Every spawn point and both bases leave room for the player box.\<close>

lemma spawn_points_free:
  "list_all (\<lambda>p. \<not> aabb_collides p) (kRedBasePosition # kBlueBasePosition # kRedSpawnPoints @ kBlueSpawnPoints)"
  by code_simp

lemma spawn_counts: "length kRedSpawnPoints = kMaxPlayers" "length kBlueSpawnPoints = kMaxPlayers"
  by (simp_all add: kRedSpawnPoints_def kBlueSpawnPoints_def kMaxPlayers_def)

end
