(* ===== verification/Movement.thy ===== *)
theory Movement
  imports Game_Map
begin

text \<open>
  \<open>shared/movement.cpp\<close>: the fixed-point helpers and \<open>movement_step\<close>, the one physics step that
  the server simulation and the client prediction both call.

  The lemmas show the step in closed form (\<open>step_velocity\<close>, axis by axis resolution), that a free
  player box stays free, that the path swept by the box is free as well (no tunnelling through a
  wall), how far one step moves, and that no \<open>int32_t\<close> operation of the step overflows when it
  starts from a free position.
\<close>

section \<open>Fixed-point helpers\<close>

text \<open>Both helpers compute in \<open>int64_t\<close> and narrow the result; the shift of a negative product rounds down.\<close>

definition fp_mul :: "int \<Rightarrow> int \<Rightarrow> int" where
  "fp_mul a b = to_i32 (drop_bit kFixedShift (a * b))"

definition fp_div :: "int \<Rightarrow> int \<Rightarrow> int" where
  "fp_div a b = to_i32 (cdiv (push_bit kFixedShift a) b)"

section \<open>The physics step\<close>

definition pressed :: "input_cmd \<Rightarrow> u8 \<Rightarrow> bool" where
  "pressed cmd m \<longleftrightarrow> buttons cmd AND m \<noteq> 0"

definition movement_step :: "player_motion \<Rightarrow> input_cmd \<Rightarrow> player_motion" where
  "movement_step m cmd =
     (let speed = kMoveSpeedFpPerTick;
          v_x = 0;
          v_y = 0;
          v_x = (if pressed cmd kInputLeft then v_x - speed else v_x);
          v_x = (if pressed cmd kInputRight then v_x + speed else v_x);
          v_y = (if pressed cmd kInputUp then v_y - speed else v_y);
          v_y = (if pressed cmd kInputDown then v_y + speed else v_y);
          diagonal = (v_x \<noteq> 0 \<and> v_y \<noteq> 0);
          v_x = (if diagonal then fp_mul v_x kDiagonalFactorNum else v_x);
          v_y = (if diagonal then fp_mul v_y kDiagonalFactorNum else v_y);
          pos = position m;
          nx = vx pos + v_x;
          pos = (if \<not> aabb_collides (Vec2Fixed nx (vy pos)) then pos\<lparr>vx := nx\<rparr> else pos);
          ny = vy pos + v_y;
          pos = (if \<not> aabb_collides (Vec2Fixed (vx pos) ny) then pos\<lparr>vy := ny\<rparr> else pos)
      in \<lparr>position = pos, velocity = Vec2Fixed v_x v_y\<rparr>)"

section \<open>Closed form\<close>

lemma fp_mul_floor: "in_i32 (a * b div 256) \<Longrightarrow> fp_mul a b = a * b div 256"
  by (simp add: fp_mul_def drop_bit_eq_div kFixedShift_def)

lemma fp_div_exact: "in_i32 a \<Longrightarrow> 0 < b \<Longrightarrow> in_i32 (a * 256) \<Longrightarrow> fp_div (a * b) (b * 256) = a"
proof -
  assume a: "in_i32 a" and b: "0 < b"
  have "cdiv (a * b * 256) (b * 256) = a"
  proof (cases "0 \<le> a")
    case True
    then show ?thesis using b by (simp add: cdiv_nonneg)
  next
    case False
    then have "cdiv (a * b * 256) (b * 256) = - ((- (a * b * 256)) div (b * 256))"
      using b by (intro cdiv_neg) (auto simp: mult_neg_pos)
    also have "- (a * b * 256) = (- a) * (b * 256)" by (simp add: algebra_simps)
    also have "(- a) * (b * 256) div (b * 256) = - a" using b by (intro nonzero_mult_div_cancel_right) auto
    finally show ?thesis by simp
  qed
  then show ?thesis using a by (simp add: fp_div_def push_bit_eq_mult kFixedShift_def algebra_simps)
qed

text \<open>The pressed direction on one axis: -1, 0 or 1 (opposite keys cancel).\<close>

definition axis :: "bool \<Rightarrow> bool \<Rightarrow> int" where
  "axis neg pos = (if pos then 1 else 0) - (if neg then 1 else 0)"

definition dir_x :: "input_cmd \<Rightarrow> int" where
  "dir_x cmd = axis (pressed cmd kInputLeft) (pressed cmd kInputRight)"

definition dir_y :: "input_cmd \<Rightarrow> int" where
  "dir_y cmd = axis (pressed cmd kInputUp) (pressed cmd kInputDown)"

text \<open>The speed on one axis: full speed alone, 965 or -966 when both axes are active.\<close>

definition axis_speed :: "bool \<Rightarrow> int \<Rightarrow> int" where
  "axis_speed diagonal d = (if d = 0 then 0 else if \<not> diagonal then d * 1365 else if 0 < d then 965 else - 966)"

definition step_velocity :: "input_cmd \<Rightarrow> vec2" where
  "step_velocity cmd =
     (let diagonal = (dir_x cmd \<noteq> 0 \<and> dir_y cmd \<noteq> 0)
      in Vec2Fixed (axis_speed diagonal (dir_x cmd)) (axis_speed diagonal (dir_y cmd)))"

definition try_x :: "vec2 \<Rightarrow> int \<Rightarrow> vec2" where
  "try_x p d = (if aabb_collides (Vec2Fixed (vx p + d) (vy p)) then p else Vec2Fixed (vx p + d) (vy p))"

definition try_y :: "vec2 \<Rightarrow> int \<Rightarrow> vec2" where
  "try_y p d = (if aabb_collides (Vec2Fixed (vx p) (vy p + d)) then p else Vec2Fixed (vx p) (vy p + d))"

lemma fp_mul_diagonal [simp]: "fp_mul 1365 181 = 965" "fp_mul (- 1365) 181 = - 966"
  by (simp_all add: fp_mul_floor in_i32_def)

lemma movement_step_closed:
  "movement_step m cmd =
     \<lparr>position = try_y (try_x (position m) (vx (step_velocity cmd))) (vy (step_velocity cmd)),
      velocity = step_velocity cmd\<rparr>"
  by (cases m, cases "position m")
    (simp add: movement_step_def step_velocity_def dir_x_def dir_y_def axis_def axis_speed_def Let_def
      try_x_def try_y_def config_defs Vec2Fixed_def)

lemma step_velocity_bound:
  "\<bar>vx (step_velocity cmd)\<bar> \<le> 1365" "\<bar>vy (step_velocity cmd)\<bar> \<le> 1365"
  by (simp_all add: step_velocity_def axis_speed_def Let_def dir_x_def dir_y_def axis_def)

lemma step_velocity_cases:
  "vx (step_velocity cmd) \<in> {-1365, -966, 0, 965, 1365}" "vy (step_velocity cmd) \<in> {-1365, -966, 0, 965, 1365}"
  by (simp_all add: step_velocity_def axis_speed_def Let_def dir_x_def dir_y_def axis_def)

lemma step_velocity_idle: "buttons cmd AND 15 = 0 \<Longrightarrow> step_velocity cmd = Vec2Fixed 0 0"
proof -
  assume idle: "buttons cmd AND 15 = 0"
  have "buttons cmd AND k = 0" if k: "15 AND k = k" for k
  proof -
    have "buttons cmd AND k = (buttons cmd AND 15) AND k" by (simp only: and.assoc k)
    then show ?thesis by (simp add: idle)
  qed
  then have "\<not> pressed cmd kInputLeft" "\<not> pressed cmd kInputRight" "\<not> pressed cmd kInputUp" "\<not> pressed cmd kInputDown"
    by (simp_all add: pressed_def button_defs)
  then show ?thesis by (simp add: step_velocity_def dir_x_def dir_y_def axis_def axis_speed_def)
qed

section \<open>Safety\<close>

lemma try_free:
  "\<not> aabb_collides p \<Longrightarrow> \<not> aabb_collides (try_x p d)" "\<not> aabb_collides p \<Longrightarrow> \<not> aabb_collides (try_y p d)"
  by (simp_all add: try_x_def try_y_def)

lemma try_id [simp]: "try_x p 0 = p" "try_y p 0 = p"
  by (cases p; simp add: try_x_def try_y_def Vec2Fixed_def)+

lemma movement_free:
  "\<not> aabb_collides (position m) \<Longrightarrow> \<not> aabb_collides (position (movement_step m cmd))"
  by (simp add: movement_step_closed try_free)

lemma movement_idle:
  "buttons cmd AND 15 = 0 \<Longrightarrow> position (movement_step m cmd) = position m"
  by (simp add: movement_step_closed step_velocity_idle)

text \<open>Only the buttons and the position matter: neither the incoming velocity nor the aim angle does.\<close>

lemma movement_depends:
  "position m = position m' \<Longrightarrow> buttons cmd = buttons cmd' \<Longrightarrow> movement_step m cmd = movement_step m' cmd'"
  by (simp add: movement_step_closed step_velocity_def dir_x_def dir_y_def pressed_def)

text \<open>\<open>between a b z\<close>: \<open>z\<close> lies on the segment from \<open>a\<close> to \<open>b\<close>.\<close>

definition between :: "int \<Rightarrow> int \<Rightarrow> int \<Rightarrow> bool" where
  "between a b z \<longleftrightarrow> min a b \<le> z \<and> z \<le> max a b"

lemma try_x_sweeps_free:
  assumes "\<not> aabb_collides p" "\<bar>d\<bar> \<le> 6144" "between (vx p) (vx (try_x p d)) z"
  shows "\<not> aabb_collides (Vec2Fixed z (vy p))"
proof -
  have p: "\<not> aabb_collides (Vec2Fixed (vx p) (vy p))" using assms(1) by (cases p) (simp add: Vec2Fixed_def)
  have q: "\<not> aabb_collides (Vec2Fixed (vx (try_x p d)) (vy p))"
    using try_free(1) [OF assms(1), of d] p by (auto simp: try_x_def)
  have near: "\<bar>vx (try_x p d) - vx p\<bar> \<le> 6144" using assms(2) by (simp add: try_x_def)
  show ?thesis
  proof (cases "vx p \<le> vx (try_x p d)")
    case True
    then show ?thesis
      using near assms(3) by (intro free_between_x [OF p q]) (auto simp: between_def)
  next
    case False
    then show ?thesis
      using near assms(3) by (intro free_between_x [OF q p]) (auto simp: between_def)
  qed
qed

lemma try_y_sweeps_free:
  assumes "\<not> aabb_collides p" "\<bar>d\<bar> \<le> 6144" "between (vy p) (vy (try_y p d)) z"
  shows "\<not> aabb_collides (Vec2Fixed (vx p) z)"
proof -
  have p: "\<not> aabb_collides (Vec2Fixed (vx p) (vy p))" using assms(1) by (cases p) (simp add: Vec2Fixed_def)
  have q: "\<not> aabb_collides (Vec2Fixed (vx p) (vy (try_y p d)))"
    using try_free(2) [OF assms(1), of d] p by (auto simp: try_y_def)
  have near: "\<bar>vy (try_y p d) - vy p\<bar> \<le> 6144" using assms(2) by (simp add: try_y_def)
  show ?thesis
  proof (cases "vy p \<le> vy (try_y p d)")
    case True
    then show ?thesis
      using near assms(3) by (intro free_between_y [OF p q]) (auto simp: between_def)
  next
    case False
    then show ?thesis
      using near assms(3) by (intro free_between_y [OF q p]) (auto simp: between_def)
  qed
qed

lemma try_other_axis [simp]: "vy (try_x p d) = vy p" "vx (try_y p d) = vx p"
  by (simp_all add: try_x_def try_y_def)

lemma try_distance: "\<bar>vx (try_x p d) - vx p\<bar> \<le> \<bar>d\<bar>" "\<bar>vy (try_y p d) - vy p\<bar> \<le> \<bar>d\<bar>"
  by (simp_all add: try_x_def try_y_def)

lemma movement_distance:
  "\<bar>vx (position (movement_step m cmd)) - vx (position m)\<bar> \<le> \<bar>vx (velocity (movement_step m cmd))\<bar>"
  "\<bar>vy (position (movement_step m cmd)) - vy (position m)\<bar> \<le> \<bar>vy (velocity (movement_step m cmd))\<bar>"
proof -
  show "\<bar>vx (position (movement_step m cmd)) - vx (position m)\<bar> \<le> \<bar>vx (velocity (movement_step m cmd))\<bar>"
    by (simp add: movement_step_closed try_distance)
  have "\<bar>vy (try_y (try_x p a) b) - vy p\<bar> \<le> \<bar>b\<bar>" for p a b
    using try_distance(2) [of "try_x p a" b] by simp
  then show "\<bar>vy (position (movement_step m cmd)) - vy (position m)\<bar> \<le> \<bar>vy (velocity (movement_step m cmd))\<bar>"
    by (simp add: movement_step_closed)
qed

section \<open>Properties\<close>

text \<open>
  C20 (safety): a step taken from a position that does not overlap a wall never enters or crosses
  one. The position stays free, and so does every box swept on the way: first along x at the old
  y, then along y at the new x.
\<close>

theorem movement_never_crosses_wall:
  assumes "\<not> aabb_collides (position m)" "q = position (movement_step m cmd)"
  shows "\<not> aabb_collides q
    \<and> (\<forall>z. between (vx (position m)) (vx q) z \<longrightarrow> \<not> aabb_collides (Vec2Fixed z (vy (position m))))
    \<and> (\<forall>z. between (vy (position m)) (vy q) z \<longrightarrow> \<not> aabb_collides (Vec2Fixed (vx q) z))"
proof (intro conjI allI impI)
  let ?v = "step_velocity cmd" and ?p = "position m"
  let ?r = "try_x ?p (vx ?v)"
  have q: "q = try_y ?r (vy ?v)" by (simp add: assms(2) movement_step_closed)
  have v: "\<bar>vx ?v\<bar> \<le> 6144" "\<bar>vy ?v\<bar> \<le> 6144" using step_velocity_bound [of cmd] by linarith+
  show "\<not> aabb_collides q" using assms(1) by (simp add: assms(2) movement_free)
  show "\<not> aabb_collides (Vec2Fixed z (vy ?p))" if "between (vx ?p) (vx q) z" for z
    using try_x_sweeps_free [OF assms(1) v(1)] that by (simp add: q)
  show "\<not> aabb_collides (Vec2Fixed (vx q) z)" if "between (vy ?p) (vy q) z" for z
    using try_y_sweeps_free [OF try_free(1) [OF assms(1)] v(2)] that by (simp add: q)
qed

theorem movement_never_crosses_wall_witness:
  "\<not> aabb_collides (position (movement_step \<lparr>position = kRedBasePosition, velocity = Vec2Fixed 0 0\<rparr>
     \<lparr>buttons = kInputLeft, aim_angle = 0\<rparr>))"
proof -
  have "\<not> aabb_collides (position \<lparr>position = kRedBasePosition, velocity = Vec2Fixed 0 0\<rparr>)"
    using spawn_points_free by simp
  from movement_never_crosses_wall [OF this refl] show ?thesis by blast
qed

text \<open>
  One step moves the player by at most 1365 units (5.33 px) per axis, and by at most
  966 units per axis when it moves on both; the reported velocity is one of the five speeds.
\<close>

lemma movement_speed_bounded:
  "\<bar>vx (position (movement_step m cmd)) - vx (position m)\<bar> \<le> kMoveSpeedFpPerTick
   \<and> \<bar>vy (position (movement_step m cmd)) - vy (position m)\<bar> \<le> kMoveSpeedFpPerTick
   \<and> vx (velocity (movement_step m cmd)) \<in> {-1365, -966, 0, 965, 1365}
   \<and> vy (velocity (movement_step m cmd)) \<in> {-1365, -966, 0, 965, 1365}
   \<and> (vx (velocity (movement_step m cmd)) = 0 \<or> vy (velocity (movement_step m cmd)) = 0
      \<or> \<bar>vx (position (movement_step m cmd)) - vx (position m)\<bar> \<le> 966
        \<and> \<bar>vy (position (movement_step m cmd)) - vy (position m)\<bar> \<le> 966)"
proof -
  let ?v = "velocity (movement_step m cmd)"
  have v: "?v = step_velocity cmd" by (simp add: movement_step_closed)
  have diag: "vx ?v = 0 \<or> vy ?v = 0 \<or> \<bar>vx ?v\<bar> \<le> 966 \<and> \<bar>vy ?v\<bar> \<le> 966"
    by (simp add: v step_velocity_def Let_def axis_speed_def)
  show ?thesis
    using movement_distance [of m cmd] step_velocity_bound [of cmd] step_velocity_cases [of cmd] diag
    unfolding v kMoveSpeedFpPerTick_def by linarith
qed

text \<open>
  C39 (bounds): starting from a free position, every intermediate of the step is far from the
  limits of \<open>int32_t\<close>: the attempted coordinates and the far corner of the collision test stay
  in range, so the signed arithmetic of \<open>movement_step\<close> and \<open>aabb_collides\<close> is defined.
\<close>

theorem movement_no_overflow:
  assumes "\<not> aabb_collides (position m)"
  shows "in_i32 (vx (position m) + vx (velocity (movement_step m cmd)) + kPlayerSizePx * kFixedScale)
    \<and> in_i32 (vy (position m) + vy (velocity (movement_step m cmd)) + kPlayerSizePx * kFixedScale)
    \<and> in_i32 (vx (position m) + vx (velocity (movement_step m cmd)))
    \<and> in_i32 (vy (position m) + vy (velocity (movement_step m cmd)))
    \<and> in_i32 (vx (position (movement_step m cmd))) \<and> in_i32 (vy (position (movement_step m cmd)))"
proof -
  note before = free_in_map [OF assms] and after = free_in_map [OF movement_free [OF assms], of cmd]
  have v: "\<bar>vx (velocity (movement_step m cmd))\<bar> \<le> 1365" "\<bar>vy (velocity (movement_step m cmd))\<bar> \<le> 1365"
    using step_velocity_bound [of cmd] by (simp_all add: movement_step_closed)
  show ?thesis using before after v by (auto simp: in_i32_def config_defs)
qed

theorem movement_no_overflow_witness:
  "in_i32 (vx (position (movement_step \<lparr>position = kBlueBasePosition, velocity = Vec2Fixed 0 0\<rparr>
     \<lparr>buttons = kInputRight, aim_angle = 0\<rparr>)))"
proof -
  have "\<not> aabb_collides (position \<lparr>position = kBlueBasePosition, velocity = Vec2Fixed 0 0\<rparr>)"
    using spawn_points_free by simp
  from movement_no_overflow [OF this] show ?thesis by blast
qed

end
