(* ===== verification/Queues.thy ===== *)
theory Queues
  imports Game_Types
begin

text \<open>
  \<open>server/queues.h\<close> and \<open>server/queues.cpp\<close>: the two queues between the network thread and the
  simulation thread, the only data the threads share.

  Every \<open>push\<close> and \<open>pop\<close> runs under the queue's own mutex from its first to its last statement, so a
  run of the two threads is a sequence of whole operations (\<open>queue_op\<close>). The locale \<open>fifo_queue\<close> is
  the contract; both classes are instances, and for every interleaving the commands popped are the
  commands pushed, in order, without loss or duplication.
\<close>

section \<open>Messages\<close>

datatype inbound_command_type = CmdPlayerJoined | CmdPlayerLeft | CmdPlayerInput

record inbound_command =
  ic_type :: inbound_command_type
  ic_player_id :: u8
  ic_team :: team
  ic_spawn_index :: u8
  ic_seq :: u32
  ic_input :: input_cmd

definition default_inbound_command :: inbound_command where
  "default_inbound_command = \<lparr>ic_type = CmdPlayerJoined, ic_player_id = 0, ic_team = Red, ic_spawn_index = 0,
     ic_seq = 0, ic_input = default_input\<rparr>"

datatype outbound_event_type = TcpBroadcast | UdpSnapshot | UdpDeltaSnapshot | UdpEvent

record outbound_event =
  oe_type :: outbound_event_type
  payload_data :: "u8 list"
  payload_size :: u16
  oe_acks :: "u32 list"
  oe_tick :: u32

definition kPayloadBytes :: nat where [config_defs]: "kPayloadBytes = 512"

definition default_outbound_event :: outbound_event where
  "default_outbound_event = \<lparr>oe_type = TcpBroadcast, payload_data = replicate kPayloadBytes 0, payload_size = 0,
     oe_acks = replicate kMaxPlayers 0, oe_tick = 0\<rparr>"

text \<open>The bytes \<open>payload_ptr()[0 .. payload_len())\<close> of an event.\<close>

definition event_bytes :: "outbound_event \<Rightarrow> u8 list" where
  "event_bytes ev = take (unat (payload_size ev)) (payload_data ev)"

section \<open>Contract\<close>

locale fifo_queue =
  fixes new :: 'q
    and push :: "'a \<Rightarrow> 'q \<Rightarrow> 'q"
    and pop :: "'q \<Rightarrow> ('a \<times> 'q) option"
    and items :: "'q \<Rightarrow> 'a list"
  assumes items_new: "items new = []"
    and items_push: "items (push x q) = items q @ [x]"
    and pop_empty: "pop q = None \<longleftrightarrow> items q = []"
    and pop_items: "pop q = Some (x, q') \<Longrightarrow> items q = x # items q'"

datatype 'a queue_op = Push 'a | Pop

context fifo_queue
begin

primrec run :: "'a queue_op list \<Rightarrow> 'q \<Rightarrow> 'a list \<times> 'q" where
  "run [] q = ([], q)"
| "run (op # ops) q = (case op of
     Push x \<Rightarrow> run ops (push x q)
   | Pop \<Rightarrow> (case pop q of None \<Rightarrow> run ops q
            | Some (x, q') \<Rightarrow> (case run ops q' of (xs, q'') \<Rightarrow> (x # xs, q''))))"

lemma run_fifo:
  "run ops q = (popped, q') \<Longrightarrow>
   popped @ items q' = items q @ concat (map (\<lambda>op. case op of Push x \<Rightarrow> [x] | Pop \<Rightarrow> []) ops)"
proof (induction ops arbitrary: q popped)
  case Nil
  then show ?case by simp
next
  case (Cons op ops)
  show ?case
  proof (cases op)
    case (Push x)
    then show ?thesis using Cons.IH [of "push x q"] Cons.prems by (simp add: items_push)
  next
    case Pop
    then show ?thesis using Cons
      by (cases "pop q") (auto dest: pop_items split: prod.splits)
  qed
qed

end

section \<open>The two queues\<close>

record inbound_queue =
  in_items :: "inbound_command list"

record outbound_queue =
  out_items :: "outbound_event list"

definition InboundQueue :: inbound_queue where
  "InboundQueue = \<lparr>in_items = []\<rparr>"

definition inbound_push :: "inbound_command \<Rightarrow> inbound_queue \<Rightarrow> inbound_queue" where
  "inbound_push cmd q = q\<lparr>in_items := in_items q @ [cmd]\<rparr>"

definition inbound_pop :: "inbound_queue \<Rightarrow> (inbound_command \<times> inbound_queue) option" where
  "inbound_pop q =
     (if in_items q = [] then None
      else Some (hd (in_items q), q\<lparr>in_items := tl (in_items q)\<rparr>))"

definition OutboundQueue :: outbound_queue where
  "OutboundQueue = \<lparr>out_items = []\<rparr>"

definition outbound_push :: "outbound_event \<Rightarrow> outbound_queue \<Rightarrow> outbound_queue" where
  "outbound_push ev q = q\<lparr>out_items := out_items q @ [ev]\<rparr>"

definition outbound_pop :: "outbound_queue \<Rightarrow> (outbound_event \<times> outbound_queue) option" where
  "outbound_pop q =
     (if out_items q = [] then None
      else Some (hd (out_items q), q\<lparr>out_items := tl (out_items q)\<rparr>))"

interpretation inq: fifo_queue InboundQueue inbound_push inbound_pop in_items
  by unfold_locales (auto simp: InboundQueue_def inbound_push_def inbound_pop_def split: if_splits)

interpretation outq: fifo_queue OutboundQueue outbound_push outbound_pop out_items
  by unfold_locales (auto simp: OutboundQueue_def outbound_push_def outbound_pop_def split: if_splits)

end
