(* ===== verification/Byte_Buffer.thy ===== *)
theory Byte_Buffer
  imports Ctf_Prelude
begin

text \<open>
  \<open>shared/bytebuffer.h\<close> and \<open>shared/bytebuffer.cpp\<close>: the cursor-based writer and reader every
  message codec is built on. The underlying memory is a list of bytes; \<open>buf_[pos_++] = v\<close> is a
  list update. Both classes are state transformers, so an encoder or decoder is a
  \<open>State_Monad\<close> program in the order of the C++ statements.

  The second half of the theory is the library the codecs share: \<open>emits m bs\<close> (running \<open>m\<close>
  appends exactly \<open>bs\<close>, or reports overflow without touching memory outside the buffer),
  \<open>reads d bs x\<close> (on a reader positioned at \<open>bs\<close>, \<open>d\<close> returns \<open>x\<close> and consumes \<open>bs\<close>) and
  \<open>disciplined d\<close> (an underflow is sticky, and what was read does not depend on the bytes behind
  the cursor), each with its composition rules in \<open>codec_intros\<close>.
\<close>

section \<open>The two classes\<close>

record byte_writer =
  bw_buf :: "u8 list"
  bw_cap :: nat
  bw_pos :: nat
  bw_overflow :: bool

definition ByteWriter :: "u8 list \<Rightarrow> nat \<Rightarrow> byte_writer" where
  "ByteWriter buf cap = \<lparr>bw_buf = buf, bw_cap = cap, bw_pos = 0, bw_overflow = False\<rparr>"

text \<open>The statement \<open>buf_[pos_++] = b\<close>.\<close>

definition put_byte :: "u8 \<Rightarrow> byte_writer \<Rightarrow> byte_writer" where
  "put_byte b w = w\<lparr>bw_buf := (bw_buf w)[bw_pos w := b], bw_pos := bw_pos w + 1\<rparr>"

definition writer_u8 :: "u8 \<Rightarrow> (byte_writer, unit) state" where
  "writer_u8 v = State (\<lambda>w.
     if bw_overflow w \<or> bw_pos w + 1 > bw_cap w then ((), w\<lparr>bw_overflow := True\<rparr>)
     else ((), put_byte v w))"

definition writer_u16 :: "u16 \<Rightarrow> (byte_writer, unit) state" where
  "writer_u16 v = State (\<lambda>w.
     if bw_overflow w \<or> bw_pos w + 2 > bw_cap w then ((), w\<lparr>bw_overflow := True\<rparr>)
     else ((), put_byte (ucast (v AND 0xFF)) (put_byte (ucast (drop_bit 8 v)) w)))"

definition writer_u32 :: "u32 \<Rightarrow> (byte_writer, unit) state" where
  "writer_u32 v = State (\<lambda>w.
     if bw_overflow w \<or> bw_pos w + 4 > bw_cap w then ((), w\<lparr>bw_overflow := True\<rparr>)
     else ((), put_byte (ucast (v AND 0xFF))
                (put_byte (ucast (drop_bit 8 v AND 0xFF))
                  (put_byte (ucast (drop_bit 16 v AND 0xFF))
                    (put_byte (ucast (drop_bit 24 v)) w)))))"

text \<open>\<open>int16_t\<close> values are their 16-bit patterns; the cast to \<open>uint16_t\<close> keeps the pattern.\<close>

definition writer_i16 :: "u16 \<Rightarrow> (byte_writer, unit) state" where
  "writer_i16 v = writer_u16 v"

record byte_reader =
  br_buf :: "u8 list"
  br_len :: nat
  br_pos :: nat
  br_underflow :: bool

definition ByteReader :: "u8 list \<Rightarrow> nat \<Rightarrow> byte_reader" where
  "ByteReader buf len = \<lparr>br_buf = buf, br_len = len, br_pos = 0, br_underflow = False\<rparr>"

definition reader_u8 :: "(byte_reader, u8) state" where
  "reader_u8 = State (\<lambda>r.
     if br_underflow r \<or> br_pos r + 1 > br_len r then (0, r\<lparr>br_underflow := True\<rparr>)
     else (br_buf r ! br_pos r, r\<lparr>br_pos := br_pos r + 1\<rparr>))"

definition reader_u16 :: "(byte_reader, u16) state" where
  "reader_u16 = State (\<lambda>r.
     if br_underflow r \<or> br_pos r + 2 > br_len r then (0, r\<lparr>br_underflow := True\<rparr>)
     else (push_bit 8 (ucast (br_buf r ! br_pos r)) OR ucast (br_buf r ! (br_pos r + 1)),
           r\<lparr>br_pos := br_pos r + 2\<rparr>))"

definition reader_u32 :: "(byte_reader, u32) state" where
  "reader_u32 = State (\<lambda>r.
     if br_underflow r \<or> br_pos r + 4 > br_len r then (0, r\<lparr>br_underflow := True\<rparr>)
     else (push_bit 24 (ucast (br_buf r ! br_pos r))
             OR push_bit 16 (ucast (br_buf r ! (br_pos r + 1)))
             OR push_bit 8 (ucast (br_buf r ! (br_pos r + 2)))
             OR ucast (br_buf r ! (br_pos r + 3)),
           r\<lparr>br_pos := br_pos r + 4\<rparr>))"

definition reader_i16 :: "(byte_reader, u16) state" where
  "reader_i16 = reader_u16"

text \<open>\<open>r.ok()\<close> inside a decoder.\<close>

definition reader_ok :: "(byte_reader, bool) state" where
  "reader_ok = State (\<lambda>r. (\<not> br_underflow r, r))"

section \<open>Writers: what an encoder appends\<close>

definition writer_wf :: "byte_writer \<Rightarrow> bool" where
  "writer_wf w \<longleftrightarrow> bw_cap w \<le> length (bw_buf w) \<and> bw_pos w \<le> bw_cap w"

definition written :: "byte_writer \<Rightarrow> u8 list" where
  "written w = take (bw_pos w) (bw_buf w)"

definition after :: "('s, 'a) state \<Rightarrow> 's \<Rightarrow> 's" where
  "after m s = snd (run_state m s)"

lemma after_bind: "after (m \<bind> f) s = after (f (fst (run_state m s))) (after m s)"
  by (simp add: after_def split: prod.splits)

lemma after_return [simp]: "after (State_Monad.return x) s = s"
  by (simp add: after_def)

text \<open>Memory outside \<open>[0, cap)\<close> is never touched and the capacity never changes.\<close>

definition same_frame :: "byte_writer \<Rightarrow> byte_writer \<Rightarrow> bool" where
  "same_frame w w' \<longleftrightarrow> bw_cap w' = bw_cap w \<and> length (bw_buf w') = length (bw_buf w)
     \<and> drop (bw_cap w) (bw_buf w') = drop (bw_cap w) (bw_buf w)"

definition emits :: "(byte_writer, 'a) state \<Rightarrow> u8 list \<Rightarrow> bool" where
  "emits m bs \<longleftrightarrow> (\<forall>w. writer_wf w \<longrightarrow>
     writer_wf (after m w) \<and> same_frame w (after m w) \<and>
     (if \<not> bw_overflow w \<and> bw_pos w + length bs \<le> bw_cap w
      then \<not> bw_overflow (after m w) \<and> written (after m w) = written w @ bs
      else bw_overflow (after m w)))"

lemma length_written: "writer_wf w \<Longrightarrow> length (written w) = bw_pos w"
  by (simp add: written_def writer_wf_def)

lemma put_byte_wf: "writer_wf w \<Longrightarrow> bw_pos w < bw_cap w \<Longrightarrow> writer_wf (put_byte b w)"
  by (simp add: writer_wf_def put_byte_def)

lemma put_byte_written:
  "writer_wf w \<Longrightarrow> bw_pos w < bw_cap w \<Longrightarrow> written (put_byte b w) = written w @ [b]"
  by (simp add: written_def put_byte_def writer_wf_def take_Suc_update)

lemma put_byte_frame:
  "same_frame w v \<Longrightarrow> bw_pos v < bw_cap v \<Longrightarrow> same_frame w (put_byte b v)"
  by (simp add: same_frame_def put_byte_def)

lemma put_byte_sel [simp]:
  "bw_pos (put_byte b w) = Suc (bw_pos w)" "bw_cap (put_byte b w) = bw_cap w"
  "bw_overflow (put_byte b w) = bw_overflow w"
  by (simp_all add: put_byte_def)

lemma same_frame_refl [simp]: "same_frame w w" "same_frame w (w\<lparr>bw_overflow := b\<rparr>)"
  by (simp_all add: same_frame_def)

lemma same_frame_trans: "same_frame u v \<Longrightarrow> same_frame v w \<Longrightarrow> same_frame u w"
  by (simp add: same_frame_def)

lemma overflow_flag_wf [simp]: "writer_wf (w\<lparr>bw_overflow := b\<rparr>) = writer_wf w"
  by (simp add: writer_wf_def)

lemmas put_byte_rules = put_byte_wf put_byte_written put_byte_frame

lemma emitsI:
  assumes "\<And>w. writer_wf w \<Longrightarrow> \<not> bw_overflow w \<Longrightarrow> bw_pos w + length bs \<le> bw_cap w \<Longrightarrow>
      writer_wf (after m w) \<and> same_frame w (after m w) \<and> \<not> bw_overflow (after m w)
        \<and> written (after m w) = written w @ bs"
    and "\<And>w. writer_wf w \<Longrightarrow> bw_overflow w \<or> bw_cap w < bw_pos w + length bs \<Longrightarrow>
      writer_wf (after m w) \<and> same_frame w (after m w) \<and> bw_overflow (after m w)"
  shows "emits m bs"
  unfolding emits_def using assms by (metis not_le)

lemma emits_fits:
  assumes "emits m bs" "writer_wf w" "\<not> bw_overflow w" "bw_pos w + length bs \<le> bw_cap w"
  shows "writer_wf (after m w)" "\<not> bw_overflow (after m w)"
    "written (after m w) = written w @ bs" "bw_cap (after m w) = bw_cap w"
    "bw_pos (after m w) = bw_pos w + length bs"
proof -
  show wf: "writer_wf (after m w)" and "\<not> bw_overflow (after m w)"
    and wr: "written (after m w) = written w @ bs" and "bw_cap (after m w) = bw_cap w"
    using assms by (simp_all add: emits_def same_frame_def)
  show "bw_pos (after m w) = bw_pos w + length bs"
    using arg_cong [OF wr, of length] wf assms(2) by (simp add: length_written)
qed

lemma emits_overflows:
  assumes "emits m bs" "writer_wf w" "bw_overflow w \<or> bw_cap w < bw_pos w + length bs"
  shows "writer_wf (after m w)" "bw_overflow (after m w)" "bw_cap (after m w) = bw_cap w"
  using assms(1) [unfolded emits_def, rule_format, OF assms(2)] assms(3)
  by (simp_all add: same_frame_def split: if_splits)

lemma emits_frame: "emits m bs \<Longrightarrow> writer_wf w \<Longrightarrow> same_frame w (after m w)"
  by (simp add: emits_def)

lemma emits_bind [codec_intros]:
  assumes m: "emits m bs" and f: "\<And>x. emits (f x) cs"
  shows "emits (m \<bind> f) (bs @ cs)"
proof (rule emitsI)
  fix w assume wf: "writer_wf w" and ok: "\<not> bw_overflow w"
    and fits: "bw_pos w + length (bs @ cs) \<le> bw_cap w"
  let ?w = "after m w"
  have "bw_pos w + length bs \<le> bw_cap w" using fits by simp
  note w1 = emits_fits [OF m wf ok this]
  have "bw_pos ?w + length cs \<le> bw_cap ?w" using w1(4,5) fits by simp
  note w2 = emits_fits [OF f w1(1,2) this]
  show "writer_wf (after (m \<bind> f) w) \<and> same_frame w (after (m \<bind> f) w)
      \<and> \<not> bw_overflow (after (m \<bind> f) w) \<and> written (after (m \<bind> f) w) = written w @ bs @ cs"
    using w1 w2 emits_frame [OF m wf] emits_frame [OF f w1(1)]
    by (auto simp: after_bind intro: same_frame_trans)
next
  fix w assume wf: "writer_wf w"
    and full: "bw_overflow w \<or> bw_cap w < bw_pos w + length (bs @ cs)"
  let ?w = "after m w"
  have wf1: "writer_wf ?w" using m wf by (simp add: emits_def)
  have "bw_overflow ?w \<or> bw_cap ?w < bw_pos ?w + length cs"
  proof (cases "bw_overflow w \<or> bw_cap w < bw_pos w + length bs")
    case True
    then show ?thesis using emits_overflows [OF m wf] by blast
  next
    case False
    then show ?thesis using emits_fits [OF m wf] full by auto
  qed
  then show "writer_wf (after (m \<bind> f) w) \<and> same_frame w (after (m \<bind> f) w)
      \<and> bw_overflow (after (m \<bind> f) w)"
    using emits_overflows [OF f wf1] emits_frame [OF m wf] emits_frame [OF f wf1]
    by (auto simp: after_bind intro: same_frame_trans)
qed

lemma emits_return [codec_intros]: "emits (State_Monad.return x) []"
  by (rule emitsI) (auto simp: writer_wf_def)

text \<open>The big-endian byte images of the primitive writes.\<close>

definition be16 :: "u16 \<Rightarrow> u8 list" where
  "be16 v = [ucast (drop_bit 8 v), ucast v]"

definition be32 :: "u32 \<Rightarrow> u8 list" where
  "be32 v = [ucast (drop_bit 24 v), ucast (drop_bit 16 v), ucast (drop_bit 8 v), ucast v]"

lemma length_be [simp]: "length (be16 v) = 2" "length (be32 v') = 4"
  by (simp_all add: be16_def be32_def)

lemma mask_8_eq: "(0xFF :: u16) = mask 8" "(0xFF :: u32) = mask 8"
  by (simp_all add: mask_eq_exp_minus_1)

lemma ucast_mask_u8 [simp]:
  "ucast ((v :: u16) AND 0xFF) = (ucast v :: u8)" "ucast ((v' :: u32) AND 0xFF) = (ucast v' :: u8)"
  unfolding mask_8_eq by (rule bit_word_eqI, simp add: bit_simps)+

lemma emits_u8 [codec_intros]: "emits (writer_u8 v) [v]"
  by (rule emitsI) (auto simp: after_def writer_u8_def put_byte_rules)

lemma emits_u16 [codec_intros]: "emits (writer_u16 v) (be16 v)"
proof (rule emitsI)
  fix w assume "writer_wf w" "\<not> bw_overflow w" "bw_pos w + length (be16 v) \<le> bw_cap w"
  then show "writer_wf (after (writer_u16 v) w) \<and> same_frame w (after (writer_u16 v) w)
      \<and> \<not> bw_overflow (after (writer_u16 v) w) \<and> written (after (writer_u16 v) w) = written w @ be16 v"
    by (simp add: after_def writer_u16_def put_byte_rules be16_def)
qed (auto simp: after_def writer_u16_def)

lemma emits_u32 [codec_intros]: "emits (writer_u32 v) (be32 v)"
proof (rule emitsI)
  fix w assume "writer_wf w" "\<not> bw_overflow w" "bw_pos w + length (be32 v) \<le> bw_cap w"
  then show "writer_wf (after (writer_u32 v) w) \<and> same_frame w (after (writer_u32 v) w)
      \<and> \<not> bw_overflow (after (writer_u32 v) w) \<and> written (after (writer_u32 v) w) = written w @ be32 v"
    by (simp add: after_def writer_u32_def put_byte_rules be32_def)
qed (auto simp: after_def writer_u32_def)

lemma emits_i16 [codec_intros]: "emits (writer_i16 v) (be16 v)"
  by (simp add: writer_i16_def emits_u16)

section \<open>Readers: what a decoder consumes\<close>

definition reader_wf :: "byte_reader \<Rightarrow> bool" where
  "reader_wf r \<longleftrightarrow> br_len r \<le> length (br_buf r) \<and> br_pos r \<le> br_len r"

definition remaining :: "byte_reader \<Rightarrow> u8 list" where
  "remaining r = drop (br_pos r) (take (br_len r) (br_buf r))"

definition advance :: "nat \<Rightarrow> byte_reader \<Rightarrow> byte_reader" where
  "advance n r = r\<lparr>br_pos := br_pos r + n\<rparr>"

definition reads :: "(byte_reader, 'a) state \<Rightarrow> u8 list \<Rightarrow> 'a \<Rightarrow> bool" where
  "reads d bs x \<longleftrightarrow> (\<forall>r rest. reader_wf r \<and> \<not> br_underflow r \<and> remaining r = bs @ rest \<longrightarrow>
     run_state d r = (x, advance (length bs) r))"

lemma remaining_ByteReader [simp]:
  "remaining (ByteReader bs (length bs)) = bs" "reader_wf (ByteReader bs (length bs))"
  "\<not> br_underflow (ByteReader bs n)" "br_pos (ByteReader bs n) = 0"
  by (simp_all add: remaining_def ByteReader_def reader_wf_def)

lemma advance_simps [simp]:
  "br_underflow (advance n r) = br_underflow r" "br_len (advance n r) = br_len r"
  "br_pos (advance n r) = br_pos r + n" "br_buf (advance n r) = br_buf r" "advance 0 r = r"
  "advance m (advance n r) = advance (n + m) r"
  by (simp_all add: advance_def add.assoc)

lemma length_remaining: "reader_wf r \<Longrightarrow> length (remaining r) = br_len r - br_pos r"
  by (simp add: remaining_def reader_wf_def)

lemma remaining_nth:
  "reader_wf r \<Longrightarrow> i < length (remaining r) \<Longrightarrow> br_buf r ! (br_pos r + i) = remaining r ! i"
  by (simp add: remaining_def reader_wf_def)

lemma remaining_advance:
  assumes "reader_wf r" "remaining r = bs @ rest"
  shows "remaining (advance (length bs) r) = rest" "reader_wf (advance (length bs) r)"
proof -
  have "remaining (advance (length bs) r) = drop (length bs) (remaining r)"
    by (simp add: remaining_def add.commute)
  then show "remaining (advance (length bs) r) = rest" using assms by simp
  have "length bs \<le> br_len r - br_pos r"
    using arg_cong [OF assms(2), of length] assms(1) by (simp add: length_remaining)
  then show "reader_wf (advance (length bs) r)" using assms(1) unfolding reader_wf_def by simp arith
qed

lemma reads_bind [codec_intros]:
  assumes d: "reads d bs x" and f: "reads (f x) cs y"
  shows "reads (d \<bind> f) (bs @ cs) y"
  unfolding reads_def
proof (intro allI impI)
  fix r rest assume r: "reader_wf r \<and> \<not> br_underflow r \<and> remaining r = (bs @ cs) @ rest"
  then have 1: "run_state d r = (x, advance (length bs) r)"
    using d by (simp add: reads_def)
  have "run_state (f x) (advance (length bs) r) = (y, advance (length cs) (advance (length bs) r))"
    using f r remaining_advance [of r bs "cs @ rest"] by (simp add: reads_def)
  with 1 show "run_state (d \<bind> f) r = (y, advance (length (bs @ cs)) r)" by simp
qed

lemma reads_return [codec_intros]: "reads (State_Monad.return x) [] x"
  by (simp add: reads_def)

lemma reads_ok [codec_intros]: "reads reader_ok [] True"
  by (simp add: reads_def reader_ok_def)

text \<open>Enough bytes behind the cursor: what a primitive read finds there.\<close>

lemma remaining_le:
  assumes "reader_wf r" "remaining r = bs @ rest"
  shows "br_pos r + length bs \<le> br_len r"
  using arg_cong [OF assms(2), of length] assms(1) by (simp add: length_remaining reader_wf_def) arith

lemma remaining_byte:
  assumes "reader_wf r" "remaining r = bs @ rest" "i < length bs"
  shows "br_buf r ! (br_pos r + i) = bs ! i"
  using remaining_nth [of r i] assms by (simp add: nth_append)

lemma be16_join: "push_bit 8 (ucast (ucast (drop_bit 8 v) :: u8)) OR ucast (ucast v :: u8) = (v :: u16)"
  by (rule bit_word_eqI) (auto simp: bit_simps)

lemma be32_join:
  "push_bit 24 (ucast (ucast (drop_bit 24 v) :: u8)) OR push_bit 16 (ucast (ucast (drop_bit 16 v) :: u8))
     OR push_bit 8 (ucast (ucast (drop_bit 8 v) :: u8)) OR ucast (ucast v :: u8) = (v :: u32)"
proof (rule bit_word_eqI)
  fix n assume "n < LENGTH(32)"
  then consider "n < 8" | "8 \<le> n" "n < 16" | "16 \<le> n" "n < 24" | "24 \<le> n" "n < 32" by fastforce
  then show "bit (push_bit 24 (ucast (ucast (drop_bit 24 v) :: u8))
      OR push_bit 16 (ucast (ucast (drop_bit 16 v) :: u8))
      OR push_bit 8 (ucast (ucast (drop_bit 8 v) :: u8)) OR ucast (ucast v :: u8) :: u32) n = bit v n"
    by cases (auto simp: bit_simps)
qed

lemma reads_u8 [codec_intros]: "reads reader_u8 [v] v"
  unfolding reads_def
  using remaining_le [of _ "[v]"] remaining_byte [of _ "[v]" _ 0]
  by (fastforce simp: reader_u8_def advance_def)

lemma reads_u16 [codec_intros]: "reads reader_u16 (be16 v) v"
  unfolding reads_def
proof (intro allI impI, elim conjE)
  fix r rest assume r: "reader_wf r" "\<not> br_underflow r" "remaining r = be16 v @ rest"
  note byte = remaining_byte [OF r(1,3)]
  have "br_buf r ! br_pos r = ucast (drop_bit 8 v)" "br_buf r ! (br_pos r + 1) = ucast v"
    using byte [of 0] byte [of 1] by (simp_all add: be16_def)
  then show "run_state reader_u16 r = (v, advance (length (be16 v)) r)"
    using r(2) remaining_le [OF r(1,3)] be16_join [of v] by (simp add: reader_u16_def advance_def)
qed

lemma reads_u32 [codec_intros]: "reads reader_u32 (be32 v) v"
  unfolding reads_def
proof (intro allI impI, elim conjE)
  fix r rest assume r: "reader_wf r" "\<not> br_underflow r" "remaining r = be32 v @ rest"
  note byte = remaining_byte [OF r(1,3)]
  have "br_buf r ! br_pos r = ucast (drop_bit 24 v)" "br_buf r ! (br_pos r + 1) = ucast (drop_bit 16 v)"
    "br_buf r ! (br_pos r + 2) = ucast (drop_bit 8 v)" "br_buf r ! (br_pos r + 3) = ucast v"
    using byte [of 0] byte [of 1] byte [of 2] byte [of 3] by (simp_all add: be32_def)
  then show "run_state reader_u32 r = (v, advance (length (be32 v)) r)"
    using r(2) remaining_le [OF r(1,3)] be32_join [of v] by (simp add: reader_u32_def advance_def)
qed

lemma reads_i16 [codec_intros]: "reads reader_i16 (be16 v) v"
  by (simp add: reader_i16_def reads_u16)

section \<open>Readers on arbitrary input\<close>

text \<open>The reader over the same bytes with more bytes behind them.\<close>

definition extend :: "u8 list \<Rightarrow> byte_reader \<Rightarrow> byte_reader" where
  "extend ext r = r\<lparr>br_buf := take (br_len r) (br_buf r) @ ext, br_len := br_len r + length ext\<rparr>"

definition disciplined :: "(byte_reader, 'a) state \<Rightarrow> bool" where
  "disciplined d \<longleftrightarrow> (\<forall>r. reader_wf r \<longrightarrow>
     (let r' = after d r in
       reader_wf r' \<and> br_pos r \<le> br_pos r' \<and> br_len r' = br_len r \<and> br_buf r' = br_buf r
       \<and> (br_underflow r \<longrightarrow> br_underflow r')
       \<and> (\<not> br_underflow r' \<longrightarrow>
            (\<forall>ext. run_state d (extend ext r) = (fst (run_state d r), extend ext r')))))"

lemma disciplinedD:
  assumes "disciplined d" "reader_wf r"
  shows "reader_wf (after d r)" "br_pos r \<le> br_pos (after d r)" "br_len (after d r) = br_len r"
    "br_buf (after d r) = br_buf r" "br_underflow r \<Longrightarrow> br_underflow (after d r)"
    "\<not> br_underflow (after d r) \<Longrightarrow>
       run_state d (extend ext r) = (fst (run_state d r), extend ext (after d r))"
  using assms by (simp_all add: disciplined_def Let_def)

lemma disciplined_bind [codec_intros]:
  assumes d: "disciplined d" and f: "\<And>x. disciplined (f x)"
  shows "disciplined (d \<bind> f)"
  unfolding disciplined_def Let_def
proof (intro allI impI)
  fix r assume r: "reader_wf r"
  let ?x = "fst (run_state d r)" and ?r = "after d r"
  note D = disciplinedD [OF d r] and F = disciplinedD [OF f D(1), of ?x]
  have ok: "\<not> br_underflow (after (f ?x) ?r) \<Longrightarrow> \<not> br_underflow ?r" using F(5) by blast
  have fst: "fst (run_state (d \<bind> f) r) = fst (run_state (f ?x) ?r)"
    by (simp add: after_def split: prod.splits)
  show "reader_wf (after (d \<bind> f) r) \<and> br_pos r \<le> br_pos (after (d \<bind> f) r)
      \<and> br_len (after (d \<bind> f) r) = br_len r \<and> br_buf (after (d \<bind> f) r) = br_buf r
      \<and> (br_underflow r \<longrightarrow> br_underflow (after (d \<bind> f) r))
      \<and> (\<not> br_underflow (after (d \<bind> f) r) \<longrightarrow> (\<forall>ext. run_state (d \<bind> f) (extend ext r)
            = (fst (run_state (d \<bind> f) r), extend ext (after (d \<bind> f) r))))"
    unfolding after_bind fst
    using D F ok by (auto dest: le_trans)
qed

lemma disciplined_return [codec_intros]: "disciplined (State_Monad.return x)"
  by (simp add: disciplined_def)

lemma extend_simps [simp]:
  "br_underflow (extend ext r) = br_underflow r" "br_pos (extend ext r) = br_pos r"
  "br_len (extend ext r) = br_len r + length ext"
  "(extend ext r)\<lparr>br_pos := n\<rparr> = extend ext (r\<lparr>br_pos := n\<rparr>)"
  "(extend ext r)\<lparr>br_underflow := b\<rparr> = extend ext (r\<lparr>br_underflow := b\<rparr>)"
  by (simp_all add: extend_def)

lemma extend_nth: "reader_wf r \<Longrightarrow> i < br_len r \<Longrightarrow> br_buf (extend ext r) ! i = br_buf r ! i"
  by (simp add: extend_def reader_wf_def nth_append)

lemma extend_ByteReader: "extend ext (ByteReader bs (length bs)) = ByteReader (bs @ ext) (length (bs @ ext))"
  by (simp add: extend_def ByteReader_def)

lemma disciplined_u8 [codec_intros]: "disciplined reader_u8"
  by (auto simp: disciplined_def after_def reader_u8_def reader_wf_def extend_nth)

lemma disciplined_u16 [codec_intros]: "disciplined reader_u16"
  by (auto simp: disciplined_def after_def reader_u16_def reader_wf_def extend_nth)

lemma disciplined_u32 [codec_intros]: "disciplined reader_u32"
  by (auto simp: disciplined_def after_def reader_u32_def reader_wf_def extend_nth)

lemma disciplined_i16 [codec_intros]: "disciplined reader_i16"
  by (simp add: reader_i16_def disciplined_u16)

lemma disciplined_ok [codec_intros]: "disciplined reader_ok"
  by (simp add: disciplined_def after_def reader_ok_def)

lemma disciplined_if [codec_intros]:
  "(b \<Longrightarrow> disciplined d) \<Longrightarrow> (\<not> b \<Longrightarrow> disciplined e) \<Longrightarrow> disciplined (if b then d else e)"
  by simp

end
