(* ===== verification/Codec.thy ===== *)
theory Codec
  imports Byte_Buffer
begin

text \<open>
  The contract every message codec of \<open>shared/protocol.cpp\<close> fulfils, stated once as the locale
  \<open>message_codec\<close> and proved useful there: an encoder that fits its buffer is inverted by its
  decoder, an encoder that does not fit reports it, a truncated image is dropped, and no image is
  a proper prefix of another one. The theory \<open>Protocol\<close> interprets the locale for its messages.

  Before the locale come the loop combinators for the \<open>for\<close> loops of encoders and decoders and
  the two predicates on decoders with a failure result: \<open>guarded d\<close> (a decoder that returns a
  message has not underflowed) and \<open>keeps_ok d\<close> (the same, for readers that were fine before).
\<close>

section \<open>Loops\<close>

text \<open>\<open>for (x : xs) f(x);\<close> over a writer.\<close>

primrec write_all :: "('x \<Rightarrow> (byte_writer, unit) state) \<Rightarrow> 'x list \<Rightarrow> (byte_writer, unit) state" where
  "write_all f [] = State_Monad.return ()"
| "write_all f (x # xs) = do { f x; write_all f xs }"

text \<open>
  \<open>for (int i = first; i < first + k; ++i) body\<close> over a reader and an output object; a body that
  returns \<open>None\<close> is an early \<open>return false\<close>.
\<close>

primrec read_slots :: "nat \<Rightarrow> nat \<Rightarrow> (nat \<Rightarrow> 'o \<Rightarrow> (byte_reader, 'o option) state) \<Rightarrow> 'o
    \<Rightarrow> (byte_reader, 'o option) state" where
  "read_slots i 0 body out = State_Monad.return (Some out)"
| "read_slots i (Suc k) body out = do {
     res \<leftarrow> body i out;
     case res of None \<Rightarrow> State_Monad.return None | Some out' \<Rightarrow> read_slots (Suc i) k body out'
   }"

text \<open>A plain counted read, for byte arrays.\<close>

primrec read_n :: "nat \<Rightarrow> (byte_reader, u8 list) state" where
  "read_n 0 = State_Monad.return []"
| "read_n (Suc k) = do { b \<leftarrow> reader_u8; bs \<leftarrow> read_n k; State_Monad.return (b # bs) }"

lemma emits_write_all [codec_intros]:
  "(\<And>x. x \<in> set xs \<Longrightarrow> emits (f x) (g x)) \<Longrightarrow> emits (write_all f xs) (concat (map g xs))"
proof (induction xs)
  case Nil
  then show ?case by (simp add: emits_return)
next
  case (Cons x xs)
  then show ?case by (auto intro: emits_bind)
qed

lemma reads_n: "reads (read_n (length bs)) bs bs"
proof (induction bs)
  case Nil
  then show ?case by (simp add: reads_return)
next
  case (Cons b bs)
  have "reads (read_n (length bs) \<bind> (\<lambda>bs'. State_Monad.return (b # bs'))) (bs @ []) (b # bs)"
    by (rule reads_bind [OF Cons reads_return])
  then have "reads (reader_u8 \<bind> (\<lambda>b. read_n (length bs) \<bind> (\<lambda>bs'. State_Monad.return (b # bs'))))
      ([b] @ (bs @ [])) (b # bs)"
    by (rule reads_bind [OF reads_u8])
  then show ?case by simp
qed

lemma disciplined_n [codec_intros]: "disciplined (read_n k)"
  by (induction k) (auto intro!: codec_intros)

lemma reads_slots:
  assumes "\<And>j out. i \<le> j \<Longrightarrow> j < i + k \<Longrightarrow> reads (body j out) (enc j) (Some (upd j out))"
  shows "reads (read_slots i k body out) (concat (map enc [i..<i + k])) (Some (fold upd [i..<i + k] out))"
  using assms
proof (induction k arbitrary: i out)
  case 0
  then show ?case by (simp add: reads_return)
next
  case (Suc k)
  have up: "[i..<i + Suc k] = i # [Suc i..<Suc i + k]"
    by (simp add: upt_conv_Cons)
  have head: "reads (body i out) (enc i) (Some (upd i out))" using Suc.prems by simp
  have tail: "reads (read_slots (Suc i) k body (upd i out)) (concat (map enc [Suc i..<Suc i + k]))
      (Some (fold upd [Suc i..<Suc i + k] (upd i out)))"
    by (rule Suc.IH) (use Suc.prems in simp)
  have "reads (read_slots i (Suc k) body out) (enc i @ concat (map enc [Suc i..<Suc i + k]))
      (Some (fold upd [Suc i..<Suc i + k] (upd i out)))"
    unfolding read_slots.simps by (rule reads_bind [OF head]) (use tail in simp)
  then show ?case unfolding up by simp
qed

lemma disciplined_case [codec_intros]:
  "disciplined d \<Longrightarrow> (\<And>x. disciplined (f x)) \<Longrightarrow> disciplined (case res of None \<Rightarrow> d | Some x \<Rightarrow> f x)"
  by (cases res) auto

lemma disciplined_slots [codec_intros]:
  "(\<And>j out. disciplined (body j out)) \<Longrightarrow> disciplined (read_slots i k body out)"
  by (induction k arbitrary: i out) (auto intro!: codec_intros)

section \<open>Decoders that report failure\<close>

definition guarded :: "(byte_reader, 'm option) state \<Rightarrow> bool" where
  "guarded d \<longleftrightarrow> (\<forall>r. reader_wf r \<longrightarrow> fst (run_state d r) \<noteq> None \<longrightarrow> \<not> br_underflow (after d r))"

definition keeps_ok :: "(byte_reader, 'm option) state \<Rightarrow> bool" where
  "keeps_ok d \<longleftrightarrow> (\<forall>r. reader_wf r \<longrightarrow> \<not> br_underflow r \<longrightarrow> fst (run_state d r) \<noteq> None \<longrightarrow>
     \<not> br_underflow (after d r))"

lemma guarded_keeps_ok: "guarded d \<Longrightarrow> keeps_ok d"
  by (simp add: guarded_def keeps_ok_def)

lemma guarded_None [codec_intros]: "guarded (State_Monad.return None)"
  by (simp add: guarded_def)

lemma keeps_ok_return [codec_intros]: "keeps_ok (State_Monad.return x)"
  by (simp add: keeps_ok_def)

lemma fst_bind: "fst (run_state (m \<bind> f) r) = fst (run_state (f (fst (run_state m r))) (after m r))"
  by (simp add: after_def split: prod.splits)

lemma guarded_bind:
  assumes "disciplined m" "\<And>x. guarded (f x)"
  shows "guarded (m \<bind> f)"
  using assms unfolding guarded_def fst_bind after_bind by (blast dest: disciplinedD(1))

lemma keeps_ok_bind:
  assumes "disciplined m" "\<And>x. guarded (f x)"
  shows "keeps_ok (m \<bind> f)"
  using guarded_bind [OF assms] by (rule guarded_keeps_ok)

lemma guarded_ok:
  assumes "keeps_ok (f True)" "guarded (f False)"
  shows "guarded (reader_ok \<bind> f)"
  using assms unfolding guarded_def keeps_ok_def fst_bind after_bind
  by (auto simp: reader_ok_def after_def) (metis (full_types))

lemma keeps_ok_ok:
  assumes "keeps_ok (f True)"
  shows "keeps_ok (reader_ok \<bind> f)"
  using assms unfolding keeps_ok_def fst_bind after_bind by (simp add: reader_ok_def after_def)

lemma guarded_if [codec_intros]:
  "(b \<Longrightarrow> guarded d) \<Longrightarrow> (\<not> b \<Longrightarrow> guarded e) \<Longrightarrow> guarded (if b then d else e)"
  by simp

lemma keeps_ok_if [codec_intros]:
  "(b \<Longrightarrow> keeps_ok d) \<Longrightarrow> (\<not> b \<Longrightarrow> keeps_ok e) \<Longrightarrow> keeps_ok (if b then d else e)"
  by simp

lemma guarded_case [codec_intros]:
  "guarded d \<Longrightarrow> (\<And>x. guarded (f x)) \<Longrightarrow> guarded (case res of None \<Rightarrow> d | Some x \<Rightarrow> f x)"
  by (cases res) auto

lemma keeps_ok_case [codec_intros]:
  "keeps_ok d \<Longrightarrow> (\<And>x. keeps_ok (f x)) \<Longrightarrow> keeps_ok (case res of None \<Rightarrow> d | Some x \<Rightarrow> f x)"
  by (cases res) auto

lemma keeps_ok_bind_option:
  assumes "disciplined m" "keeps_ok m" "\<And>x. keeps_ok (f x)"
  shows "keeps_ok (m \<bind> (\<lambda>res. case res of None \<Rightarrow> State_Monad.return None | Some x \<Rightarrow> f x))"
  unfolding keeps_ok_def fst_bind after_bind
proof (intro allI impI)
  fix r assume r: "reader_wf r" "\<not> br_underflow r"
    and some: "fst (run_state (case fst (run_state m r) of None \<Rightarrow> State_Monad.return None | Some x \<Rightarrow> f x)
        (after m r)) \<noteq> None"
  obtain x where x: "fst (run_state m r) = Some x" using some by (cases "fst (run_state m r)") auto
  then have "\<not> br_underflow (after m r)" using assms(2) r by (simp add: keeps_ok_def)
  then show "\<not> br_underflow (after (case fst (run_state m r) of None \<Rightarrow> State_Monad.return None
      | Some x \<Rightarrow> f x) (after m r))"
    using some x assms(3) disciplinedD(1) [OF assms(1) r(1)] by (simp add: keeps_ok_def)
qed

lemma keeps_ok_slots:
  assumes "\<And>j out. disciplined (body j out)" "\<And>j out. keeps_ok (body j out)"
  shows "keeps_ok (read_slots i k body out)"
  using assms
  by (induction k arbitrary: i out) (auto intro!: keeps_ok_return keeps_ok_bind_option)

lemmas guarded_rules = guarded_ok guarded_bind guarded_if guarded_case guarded_None
  keeps_ok_ok keeps_ok_bind_option keeps_ok_bind keeps_ok_if keeps_ok_case keeps_ok_return
  keeps_ok_slots

section \<open>The codec contract\<close>

text \<open>
  \<open>enc\<close> and \<open>dec\<close> are the two functions of the code, \<open>wire m\<close> the bytes of \<open>m\<close>, \<open>valid\<close> the
  messages the sender may encode, and \<open>norm m\<close> the message the receiver gets: \<open>m\<close> itself up to
  the precision of the wire format.
\<close>

text \<open>What a sender puts on the wire with a buffer of \<open>cap\<close> bytes, and what a receiver makes of it.\<close>

definition sent_bytes :: "nat \<Rightarrow> (byte_writer, unit) state \<Rightarrow> u8 list" where
  "sent_bytes cap enc = written (after enc (ByteWriter (replicate cap 0) cap))"

definition received :: "(byte_reader, 'm option) state \<Rightarrow> u8 list \<Rightarrow> 'm option" where
  "received dec bs = fst (run_state dec (ByteReader bs (length bs)))"

locale message_codec =
  fixes enc :: "'m \<Rightarrow> (byte_writer, unit) state"
    and dec :: "(byte_reader, 'm option) state"
    and wire :: "'m \<Rightarrow> u8 list"
    and valid :: "'m \<Rightarrow> bool"
    and norm :: "'m \<Rightarrow> 'm"
  assumes enc_emits: "valid m \<Longrightarrow> emits (enc m) (wire m)"
    and dec_reads: "valid m \<Longrightarrow> reads dec (wire m) (Some (norm m))"
    and dec_disciplined: "disciplined dec"
    and dec_guarded: "guarded dec"
begin

lemma encode_fits:
  assumes "valid m" "cap \<le> length buf" "length (wire m) \<le> cap"
  shows "\<not> bw_overflow (after (enc m) (ByteWriter buf cap))"
    "written (after (enc m) (ByteWriter buf cap)) = wire m"
  using emits_fits [OF enc_emits [OF assms(1)], of "ByteWriter buf cap"] assms
  by (simp_all add: ByteWriter_def writer_wf_def written_def)

lemma encode_too_big:
  assumes "valid m" "cap \<le> length buf" "cap < length (wire m)"
  shows "bw_overflow (after (enc m) (ByteWriter buf cap))"
  using emits_overflows [OF enc_emits [OF assms(1)], of "ByteWriter buf cap"] assms
  by (simp add: ByteWriter_def writer_wf_def)

lemma decode_wire:
  assumes "valid m"
  shows "run_state dec (ByteReader (wire m @ rest) (length (wire m @ rest)))
    = (Some (norm m), advance (length (wire m)) (ByteReader (wire m @ rest) (length (wire m @ rest))))"
  using dec_reads [OF assms] remaining_ByteReader unfolding reads_def by blast

lemma roundtrip:
  assumes "valid m" "cap \<le> length buf" "length (wire m) \<le> cap"
  defines "bytes \<equiv> written (after (enc m) (ByteWriter buf cap))"
  shows "fst (run_state dec (ByteReader (bytes @ rest) (length (bytes @ rest)))) = Some (norm m)"
  using decode_wire [OF assms(1), of rest] encode_fits(2) [OF assms(1,2,3)]
  by (simp add: bytes_def)

lemma received_sent:
  assumes "valid m" "length (wire m) \<le> cap"
  shows "received dec (sent_bytes cap (enc m)) = Some (norm m)"
  using roundtrip [OF assms(1) _ assms(2), of "replicate cap 0" "[]"]
  by (simp add: received_def sent_bytes_def)

lemma decode_prefix:
  assumes "fst (run_state dec (ByteReader bs (length bs))) = Some x"
  shows "run_state dec (ByteReader (bs @ ext) (length (bs @ ext)))
    = (Some x, extend ext (after dec (ByteReader bs (length bs))))"
proof -
  let ?r = "ByteReader bs (length bs)"
  have "\<not> br_underflow (after dec ?r)" using dec_guarded assms by (simp add: guarded_def)
  then show ?thesis
    using disciplinedD(6) [OF dec_disciplined, of ?r ext] assms by (simp add: extend_ByteReader)
qed

lemma truncated_rejected:
  assumes "valid m" "bs @ ext = wire m" "ext \<noteq> []"
  shows "fst (run_state dec (ByteReader bs (length bs))) = None"
proof (rule ccontr)
  assume "fst (run_state dec (ByteReader bs (length bs))) \<noteq> None"
  then obtain x where x: "fst (run_state dec (ByteReader bs (length bs))) = Some x" by blast
  let ?r = "after dec (ByteReader bs (length bs))"
  have "br_pos ?r \<le> length bs"
    using disciplinedD(1,3) [OF dec_disciplined, of "ByteReader bs (length bs)"]
    by (simp add: reader_wf_def ByteReader_def)
  moreover have "br_pos ?r = length (wire m)"
    using decode_prefix [OF x, of ext] decode_wire [OF assms(1), of "[]"] assms(2)
    by (auto dest: arg_cong [of _ _ br_pos])
  ultimately show False using assms(2,3) by (metis append_eq_conv_conj le_antisym length_append
        le_add1 add_le_cancel_left append_Nil2 length_0_conv le_zero_eq add.right_neutral)
qed

lemma wire_prefix_free:
  assumes "valid m" "valid m'" "wire m' = wire m @ ext"
  shows "norm m = norm m'" "ext = []"
proof -
  have "run_state dec (ByteReader (wire m') (length (wire m'))) = (Some (norm m), advance (length (wire m)) (ByteReader (wire m') (length (wire m'))))"
    using decode_wire [OF assms(1), of ext] assms(3) by simp
  moreover have "run_state dec (ByteReader (wire m') (length (wire m'))) = (Some (norm m'), advance (length (wire m')) (ByteReader (wire m') (length (wire m'))))"
    using decode_wire [OF assms(2), of "[]"] by simp
  ultimately have "norm m = norm m'" "length (wire m) = length (wire m')"
    by (auto dest: arg_cong [of _ _ br_pos])
  then show "norm m = norm m'" "ext = []" using assms(3) by simp_all
qed

text \<open>The same for the bytes that the encoder leaves in a large enough buffer.\<close>

lemma sent_wire: "valid m \<Longrightarrow> length (wire m) \<le> cap \<Longrightarrow> sent_bytes cap (enc m) = wire m"
  using encode_fits(2) [of m cap "replicate cap 0"] by (simp add: sent_bytes_def)

lemma sent_truncated:
  assumes "valid m" "length (wire m) \<le> cap" "bs @ ext = sent_bytes cap (enc m)" "ext \<noteq> []"
  shows "received dec bs = None"
  using truncated_rejected [OF assms(1) _ assms(4)] assms(3) sent_wire [OF assms(1,2)] by (simp add: received_def)

lemma sent_prefix_free:
  assumes "valid m" "valid m'" "length (wire m) \<le> cap" "length (wire m') \<le> cap" "sent_bytes cap (enc m') = sent_bytes cap (enc m) @ ext"
  shows "ext = [] \<and> norm m = norm m'"
  using wire_prefix_free [OF assms(1,2), of ext] assms(3-5) sent_wire assms(1,2) by simp

end

end
