(* ===== verification/Protocol.thy ===== *)
theory Protocol
  imports Codec Game_Types
begin

text \<open>
  \<open>shared/protocol.h\<close> and \<open>shared/protocol.cpp\<close>: the message structs and one encoder/decoder pair
  per message (the delta snapshot is in \<open>Delta_Snapshot\<close>). A decoder returns \<open>None\<close> where the
  code returns \<open>false\<close>; every caller passes a fresh default-constructed object and drops it on
  failure, so the decoders build their result from the default object.

  \<open>wire_...\<close> is the byte image of a message, \<open>valid_...\<close> the C++ array-size constraints, and
  \<open>norm_...\<close> what the receiver sees (positions rounded to 1/16 pixel, slots beyond the count
  reset to their defaults). The interpretations of \<open>message_codec\<close> give every message the round
  trip, overflow, truncation and prefix laws.
\<close>

section \<open>Message structs\<close>

datatype message_type = JoinLobby | JoinAccept | JoinReject | LobbyState | StartRequest | GameStart
  | UdpHello | PlayerInput | WorldSnapshot | ShotFired | PlayerKilled | PlayerRespawned
  | FlagPickedUp | FlagDropped | FlagReturned | FlagCaptured | MatchEnd | Heartbeat | DeltaSnapshot

fun message_type_byte :: "message_type \<Rightarrow> u8" where
  "message_type_byte JoinLobby = 1"
| "message_type_byte JoinAccept = 2"
| "message_type_byte JoinReject = 3"
| "message_type_byte LobbyState = 4"
| "message_type_byte StartRequest = 5"
| "message_type_byte GameStart = 6"
| "message_type_byte UdpHello = 7"
| "message_type_byte PlayerInput = 8"
| "message_type_byte WorldSnapshot = 9"
| "message_type_byte ShotFired = 10"
| "message_type_byte PlayerKilled = 11"
| "message_type_byte PlayerRespawned = 12"
| "message_type_byte FlagPickedUp = 13"
| "message_type_byte FlagDropped = 14"
| "message_type_byte FlagReturned = 15"
| "message_type_byte FlagCaptured = 16"
| "message_type_byte MatchEnd = 17"
| "message_type_byte Heartbeat = 18"
| "message_type_byte DeltaSnapshot = 19"

definition kMagic :: u16 where "kMagic = 0x4346"
definition kProtocolVersion :: u8 where "kProtocolVersion = 2"

record udp_header =
  uh_magic :: u16
  uh_version :: u8
  uh_type :: u8
  uh_tick :: u32

record msg_join_lobby =
  jl_name :: "u8 list"

record msg_join_accept =
  ja_player_id :: u8
  ja_session_token :: u32
  ja_udp_port :: u16

datatype join_reject_reason = RejectFull | RejectInProgress | RejectBadVersion

record msg_join_reject =
  jr_reason :: join_reject_reason

record msg_lobby_state =
  ls_player_count :: u8
  ls_ids :: "u8 list"
  ls_names :: "u8 list list"
  ls_host_id :: u8

record msg_game_start =
  gs_player_count :: u8
  gs_ids :: "u8 list"
  gs_teams :: "team list"
  gs_spawn_points :: "vec2 list"
  gs_start_tick :: u32

record msg_udp_hello =
  hello_player_id :: u8
  hello_session_token :: u32

record msg_player_input =
  pi_player_id :: u8
  pi_session_token :: u32
  pi_base_seq :: u32
  pi_count :: u8
  pi_inputs :: "input_cmd list"

record msg_shot_fired =
  sf_shooter_id :: u8
  sf_origin :: vec2
  sf_aim_angle :: u16
  sf_hit_point :: vec2

record msg_player_killed =
  pk_victim_id :: u8
  pk_killer_id :: u8
  pk_tick :: u32

record msg_player_respawned =
  pr_player_id :: u8
  pr_position :: vec2
  pr_tick :: u32

text \<open>\<open>MsgFlagPickedUp\<close>, \<open>MsgFlagReturned\<close> and \<open>MsgFlagCaptured\<close> have the same fields.\<close>

record msg_flag_event =
  fe_flag_team :: team
  fe_player_id :: u8
  fe_tick :: u32

record msg_flag_dropped =
  fd_flag_team :: team
  fd_position :: vec2
  fd_tick :: u32

record msg_match_end =
  me_winning_team :: team
  me_score_red :: u8
  me_score_blue :: u8

section \<open>Field codecs\<close>

text \<open>\<open>static_cast<int16_t>(v >> kWireFixedShift)\<close>: a coordinate in 1/16 pixel, 16 bits wide.\<close>

definition wire_coord :: "int \<Rightarrow> u16" where
  "wire_coord x = word_of_int (drop_bit kWireFixedShift x)"

definition unwire_coord :: "u16 \<Rightarrow> int" where
  "unwire_coord w = push_bit kWireFixedShift (sint w)"

definition write_vec2 :: "vec2 \<Rightarrow> (byte_writer, unit) state" where
  "write_vec2 v = do { writer_i16 (wire_coord (vx v)); writer_i16 (wire_coord (vy v)) }"

definition read_vec2 :: "(byte_reader, vec2) state" where
  "read_vec2 = do {
     wx \<leftarrow> reader_i16;
     wy \<leftarrow> reader_i16;
     State_Monad.return (Vec2Fixed (unwire_coord wx) (unwire_coord wy))
   }"

definition kNameBytes :: nat where "kNameBytes = 16"

text \<open>
  \<open>std::snprintf(field, 16, "%s", text)\<close> into a zeroed name field: the text up to its terminator,
  cut to 15 bytes. Both the client's join and the server's lobby message fill names this way.
\<close>

definition snprintf_name :: "u8 list \<Rightarrow> u8 list" where
  "snprintf_name name =
     (let cut = take (kNameBytes - 1) (takeWhile (\<lambda>b. b \<noteq> 0) name)
      in cut @ replicate (kNameBytes - length cut) 0)"

definition write_name :: "u8 list \<Rightarrow> (byte_writer, unit) state" where
  "write_name name = write_all (\<lambda>i. writer_u8 (name ! i)) [0..<kNameBytes]"

definition read_name :: "(byte_reader, u8 list) state" where
  "read_name = read_n kNameBytes"

definition pack_player_flags :: "player_state \<Rightarrow> u8" where
  "pack_player_flags p =
     (if ps_alive p then 1 else 0) OR (if ps_carrying_flag p then 2 else 0)
       OR (if ps_team p = Blue then 4 else 0) OR (if ps_firing p then 8 else 0)"

definition unpack_player_flags :: "u8 \<Rightarrow> player_state \<Rightarrow> player_state" where
  "unpack_player_flags f p = p\<lparr>
     ps_alive := (f AND 1 \<noteq> 0),
     ps_carrying_flag := (f AND 2 \<noteq> 0),
     ps_team := (if f AND 4 \<noteq> 0 then Blue else Red),
     ps_firing := (f AND 8 \<noteq> 0)\<rparr>"

fun team_byte :: "team \<Rightarrow> u8" where
  "team_byte Red = 0"
| "team_byte Blue = 1"

definition decode_team :: "u8 \<Rightarrow> team option" where
  "decode_team raw = (if raw > 1 then None else Some (if raw = 1 then Blue else Red))"

fun flag_state_byte :: "flag_state \<Rightarrow> u8" where
  "flag_state_byte AtBase = 0"
| "flag_state_byte Carried = 1"
| "flag_state_byte Dropped = 2"

definition decode_flag_state :: "u8 \<Rightarrow> flag_state option" where
  "decode_flag_state raw =
     (if raw > 2 then None else Some (if raw = 0 then AtBase else if raw = 1 then Carried else Dropped))"

fun reject_reason_byte :: "join_reject_reason \<Rightarrow> u8" where
  "reject_reason_byte RejectFull = 0"
| "reject_reason_byte RejectInProgress = 1"
| "reject_reason_byte RejectBadVersion = 2"

section \<open>Encoders and decoders\<close>

definition encode_udp_header :: "udp_header \<Rightarrow> (byte_writer, unit) state" where
  "encode_udp_header hdr = do {
     writer_u16 (uh_magic hdr);
     writer_u8 (uh_version hdr);
     writer_u8 (uh_type hdr);
     writer_u32 (uh_tick hdr)
   }"

definition decode_udp_header :: "(byte_reader, udp_header option) state" where
  "decode_udp_header = do {
     magic \<leftarrow> reader_u16;
     version \<leftarrow> reader_u8;
     typ \<leftarrow> reader_u8;
     tick \<leftarrow> reader_u32;
     ok \<leftarrow> reader_ok;
     if \<not> ok then State_Monad.return None
     else if magic \<noteq> kMagic \<or> version \<noteq> kProtocolVersion then State_Monad.return None
     else State_Monad.return (Some \<lparr>uh_magic = magic, uh_version = version, uh_type = typ, uh_tick = tick\<rparr>)
   }"

definition encode_join_lobby :: "msg_join_lobby \<Rightarrow> (byte_writer, unit) state" where
  "encode_join_lobby msg = write_name (jl_name msg)"

definition decode_join_lobby :: "(byte_reader, msg_join_lobby option) state" where
  "decode_join_lobby = do {
     name \<leftarrow> read_name;
     ok \<leftarrow> reader_ok;
     State_Monad.return (if ok then Some \<lparr>jl_name = name\<rparr> else None)
   }"

definition encode_join_accept :: "msg_join_accept \<Rightarrow> (byte_writer, unit) state" where
  "encode_join_accept msg = do {
     writer_u8 (ja_player_id msg);
     writer_u32 (ja_session_token msg);
     writer_u16 (ja_udp_port msg)
   }"

definition decode_join_accept :: "(byte_reader, msg_join_accept option) state" where
  "decode_join_accept = do {
     player_id \<leftarrow> reader_u8;
     token \<leftarrow> reader_u32;
     port \<leftarrow> reader_u16;
     ok \<leftarrow> reader_ok;
     State_Monad.return (if ok then Some \<lparr>ja_player_id = player_id, ja_session_token = token,
                                           ja_udp_port = port\<rparr> else None)
   }"

definition encode_join_reject :: "msg_join_reject \<Rightarrow> (byte_writer, unit) state" where
  "encode_join_reject msg = writer_u8 (reject_reason_byte (jr_reason msg))"

definition decode_join_reject :: "(byte_reader, msg_join_reject option) state" where
  "decode_join_reject = do {
     raw \<leftarrow> reader_u8;
     ok \<leftarrow> reader_ok;
     if \<not> ok then State_Monad.return None
     else if raw > 2 then State_Monad.return None
     else State_Monad.return (Some \<lparr>jr_reason =
       (if raw = 0 then RejectFull else if raw = 1 then RejectInProgress else RejectBadVersion)\<rparr>)
   }"

definition default_lobby_state :: msg_lobby_state where
  "default_lobby_state = \<lparr>ls_player_count = 0, ls_ids = replicate kMaxPlayers 0,
     ls_names = replicate kMaxPlayers (replicate kNameBytes 0), ls_host_id = 0\<rparr>"

definition encode_lobby_state :: "msg_lobby_state \<Rightarrow> (byte_writer, unit) state" where
  "encode_lobby_state msg = do {
     writer_u8 (ls_player_count msg);
     write_all (\<lambda>i. do { writer_u8 (ls_ids msg ! i); write_name (ls_names msg ! i) })
       [0..<min (unat (ls_player_count msg)) kMaxPlayers];
     writer_u8 (ls_host_id msg)
   }"

definition decode_lobby_slot :: "nat \<Rightarrow> msg_lobby_state \<Rightarrow> (byte_reader, msg_lobby_state option) state" where
  "decode_lobby_slot i out = do {
     pid \<leftarrow> reader_u8;
     name \<leftarrow> read_name;
     State_Monad.return (Some (out\<lparr>ls_ids := (ls_ids out)[i := pid], ls_names := (ls_names out)[i := name]\<rparr>))
   }"

definition decode_lobby_state :: "(byte_reader, msg_lobby_state option) state" where
  "decode_lobby_state = do {
     count \<leftarrow> reader_u8;
     if unat count > kMaxPlayers then State_Monad.return None
     else do {
       res \<leftarrow> read_slots 0 (unat count) decode_lobby_slot (default_lobby_state\<lparr>ls_player_count := count\<rparr>);
       case res of None \<Rightarrow> State_Monad.return None
       | Some out \<Rightarrow> do {
           host \<leftarrow> reader_u8;
           ok \<leftarrow> reader_ok;
           State_Monad.return (if ok then Some (out\<lparr>ls_host_id := host\<rparr>) else None)
         }
     }
   }"

definition encode_start_request :: "unit \<Rightarrow> (byte_writer, unit) state" where
  "encode_start_request msg = State_Monad.return ()"

definition decode_start_request :: "(byte_reader, unit option) state" where
  "decode_start_request = do { ok \<leftarrow> reader_ok; State_Monad.return (if ok then Some () else None) }"

definition default_game_start :: msg_game_start where
  "default_game_start = \<lparr>gs_player_count = 0, gs_ids = replicate kMaxPlayers 0,
     gs_teams = replicate kMaxPlayers Red, gs_spawn_points = replicate kMaxPlayers (Vec2Fixed 0 0),
     gs_start_tick = 0\<rparr>"

definition encode_game_start :: "msg_game_start \<Rightarrow> (byte_writer, unit) state" where
  "encode_game_start msg = do {
     writer_u8 (gs_player_count msg);
     writer_u32 (gs_start_tick msg);
     write_all (\<lambda>i. do {
         writer_u8 (gs_ids msg ! i);
         writer_u8 (team_byte (gs_teams msg ! i));
         write_vec2 (gs_spawn_points msg ! i)
       }) [0..<min (unat (gs_player_count msg)) kMaxPlayers]
   }"

definition decode_game_start_slot :: "nat \<Rightarrow> msg_game_start \<Rightarrow> (byte_reader, msg_game_start option) state" where
  "decode_game_start_slot i out = do {
     pid \<leftarrow> reader_u8;
     team_raw \<leftarrow> reader_u8;
     case decode_team team_raw of None \<Rightarrow> State_Monad.return None
     | Some t \<Rightarrow> do {
         v \<leftarrow> read_vec2;
         State_Monad.return (Some (out\<lparr>gs_ids := (gs_ids out)[i := pid], gs_teams := (gs_teams out)[i := t],
                                  gs_spawn_points := (gs_spawn_points out)[i := v]\<rparr>))
       }
   }"

definition decode_game_start :: "(byte_reader, msg_game_start option) state" where
  "decode_game_start = do {
     count \<leftarrow> reader_u8;
     tick \<leftarrow> reader_u32;
     ok \<leftarrow> reader_ok;
     if \<not> ok \<or> unat count > kMaxPlayers then State_Monad.return None
     else do {
       res \<leftarrow> read_slots 0 (unat count) decode_game_start_slot
                (default_game_start\<lparr>gs_player_count := count, gs_start_tick := tick\<rparr>);
       case res of None \<Rightarrow> State_Monad.return None
       | Some out \<Rightarrow> do { ok \<leftarrow> reader_ok; State_Monad.return (if ok then Some out else None) }
     }
   }"

definition encode_udp_hello :: "msg_udp_hello \<Rightarrow> (byte_writer, unit) state" where
  "encode_udp_hello msg = do { writer_u8 (hello_player_id msg); writer_u32 (hello_session_token msg) }"

definition decode_udp_hello :: "(byte_reader, msg_udp_hello option) state" where
  "decode_udp_hello = do {
     player_id \<leftarrow> reader_u8;
     token \<leftarrow> reader_u32;
     ok \<leftarrow> reader_ok;
     State_Monad.return (if ok then Some \<lparr>hello_player_id = player_id, hello_session_token = token\<rparr> else None)
   }"

definition default_player_input :: msg_player_input where
  "default_player_input = \<lparr>pi_player_id = 0, pi_session_token = 0, pi_base_seq = 0, pi_count = 0,
     pi_inputs = replicate kInputRedundancy default_input\<rparr>"

definition encode_player_input :: "msg_player_input \<Rightarrow> (byte_writer, unit) state" where
  "encode_player_input msg = do {
     writer_u8 (pi_player_id msg);
     writer_u32 (pi_session_token msg);
     writer_u32 (pi_base_seq msg);
     writer_u8 (pi_count msg);
     write_all (\<lambda>i. do { writer_u8 (buttons (pi_inputs msg ! i)); writer_u16 (aim_angle (pi_inputs msg ! i)) })
       [0..<if unat (pi_count msg) < kInputRedundancy then unat (pi_count msg) else kInputRedundancy]
   }"

definition decode_input_slot :: "nat \<Rightarrow> msg_player_input \<Rightarrow> (byte_reader, msg_player_input option) state" where
  "decode_input_slot i out = do {
     b \<leftarrow> reader_u8;
     a \<leftarrow> reader_u16;
     State_Monad.return (Some (out\<lparr>pi_inputs := (pi_inputs out)[i := \<lparr>buttons = b, aim_angle = a\<rparr>]\<rparr>))
   }"

definition decode_player_input :: "(byte_reader, msg_player_input option) state" where
  "decode_player_input = do {
     player_id \<leftarrow> reader_u8;
     token \<leftarrow> reader_u32;
     base_seq \<leftarrow> reader_u32;
     count \<leftarrow> reader_u8;
     if unat count > kInputRedundancy then State_Monad.return None
     else do {
       res \<leftarrow> read_slots 0 (unat count) decode_input_slot
                (default_player_input\<lparr>pi_player_id := player_id, pi_session_token := token,
                   pi_base_seq := base_seq, pi_count := count\<rparr>);
       case res of None \<Rightarrow> State_Monad.return None
       | Some out \<Rightarrow> do { ok \<leftarrow> reader_ok; State_Monad.return (if ok then Some out else None) }
     }
   }"

definition encode_snapshot_player :: "player_state \<Rightarrow> (byte_writer, unit) state" where
  "encode_snapshot_player p = do {
     writer_u8 (ps_id p);
     write_vec2 (position (ps_motion p));
     writer_u16 (ps_aim_angle p);
     writer_u8 (ps_health p);
     writer_u8 (pack_player_flags p)
   }"

definition encode_world_snapshot :: "world_snapshot \<Rightarrow> (byte_writer, unit) state" where
  "encode_world_snapshot snap = do {
     writer_u32 (last_input_seq snap);
     writer_u32 (snap_tick snap);
     writer_u8 (player_count snap);
     writer_u8 (flag_carrier_red snap);
     writer_u8 (flag_carrier_blue snap);
     writer_u8 (flag_state_byte (flag_state_red snap));
     writer_u8 (flag_state_byte (flag_state_blue snap));
     writer_u8 (score_red snap);
     writer_u8 (score_blue snap);
     writer_u16 (seconds_remaining snap);
     write_all (\<lambda>i. encode_snapshot_player (snap_players snap ! i))
       [0..<if unat (player_count snap) < kMaxPlayers then unat (player_count snap) else kMaxPlayers]
   }"

definition decode_snapshot_slot :: "nat \<Rightarrow> world_snapshot \<Rightarrow> (byte_reader, world_snapshot option) state" where
  "decode_snapshot_slot i out = do {
     pid \<leftarrow> reader_u8;
     pos \<leftarrow> read_vec2;
     aim \<leftarrow> reader_u16;
     health \<leftarrow> reader_u8;
     flags \<leftarrow> reader_u8;
     let p = unpack_player_flags flags
       ((snap_players out ! i)\<lparr>ps_id := pid, ps_motion := \<lparr>position = pos, velocity = Vec2Fixed 0 0\<rparr>,
          ps_aim_angle := aim, ps_health := health\<rparr>);
     State_Monad.return (Some (out\<lparr>snap_players := (snap_players out)[i := p]\<rparr>))
   }"

definition decode_world_snapshot :: "(byte_reader, world_snapshot option) state" where
  "decode_world_snapshot = do {
     seq \<leftarrow> reader_u32;
     tick \<leftarrow> reader_u32;
     count \<leftarrow> reader_u8;
     carrier_red \<leftarrow> reader_u8;
     carrier_blue \<leftarrow> reader_u8;
     state_red_raw \<leftarrow> reader_u8;
     state_blue_raw \<leftarrow> reader_u8;
     sc_red \<leftarrow> reader_u8;
     sc_blue \<leftarrow> reader_u8;
     secs \<leftarrow> reader_u16;
     ok \<leftarrow> reader_ok;
     if \<not> ok \<or> unat count > kMaxPlayers then State_Monad.return None
     else case decode_flag_state state_red_raw of None \<Rightarrow> State_Monad.return None
     | Some state_red \<Rightarrow> (case decode_flag_state state_blue_raw of None \<Rightarrow> State_Monad.return None
     | Some state_blue \<Rightarrow> do {
         res \<leftarrow> read_slots 0 (unat count) decode_snapshot_slot
           (default_snapshot\<lparr>last_input_seq := seq, snap_tick := tick, player_count := count,
              flag_carrier_red := carrier_red, flag_carrier_blue := carrier_blue,
              flag_state_red := state_red, flag_state_blue := state_blue,
              score_red := sc_red, score_blue := sc_blue, seconds_remaining := secs\<rparr>);
         case res of None \<Rightarrow> State_Monad.return None
         | Some out \<Rightarrow> do { ok \<leftarrow> reader_ok; State_Monad.return (if ok then Some out else None) }
       })
   }"

definition encode_shot_fired :: "msg_shot_fired \<Rightarrow> (byte_writer, unit) state" where
  "encode_shot_fired msg = do {
     writer_u8 (sf_shooter_id msg);
     write_vec2 (sf_origin msg);
     writer_u16 (sf_aim_angle msg);
     write_vec2 (sf_hit_point msg)
   }"

definition decode_shot_fired :: "(byte_reader, msg_shot_fired option) state" where
  "decode_shot_fired = do {
     shooter \<leftarrow> reader_u8;
     origin \<leftarrow> read_vec2;
     aim \<leftarrow> reader_u16;
     hit \<leftarrow> read_vec2;
     ok \<leftarrow> reader_ok;
     State_Monad.return (if ok then Some \<lparr>sf_shooter_id = shooter, sf_origin = origin, sf_aim_angle = aim,
                                           sf_hit_point = hit\<rparr> else None)
   }"

definition encode_player_killed :: "msg_player_killed \<Rightarrow> (byte_writer, unit) state" where
  "encode_player_killed msg = do {
     writer_u8 (pk_victim_id msg);
     writer_u8 (pk_killer_id msg);
     writer_u32 (pk_tick msg)
   }"

definition decode_player_killed :: "(byte_reader, msg_player_killed option) state" where
  "decode_player_killed = do {
     victim \<leftarrow> reader_u8;
     killer \<leftarrow> reader_u8;
     tick \<leftarrow> reader_u32;
     ok \<leftarrow> reader_ok;
     State_Monad.return (if ok then Some \<lparr>pk_victim_id = victim, pk_killer_id = killer, pk_tick = tick\<rparr>
                         else None)
   }"

definition encode_player_respawned :: "msg_player_respawned \<Rightarrow> (byte_writer, unit) state" where
  "encode_player_respawned msg = do {
     writer_u8 (pr_player_id msg);
     write_vec2 (pr_position msg);
     writer_u32 (pr_tick msg)
   }"

definition decode_player_respawned :: "(byte_reader, msg_player_respawned option) state" where
  "decode_player_respawned = do {
     player_id \<leftarrow> reader_u8;
     pos \<leftarrow> read_vec2;
     tick \<leftarrow> reader_u32;
     ok \<leftarrow> reader_ok;
     State_Monad.return (if ok then Some \<lparr>pr_player_id = player_id, pr_position = pos, pr_tick = tick\<rparr>
                         else None)
   }"

definition encode_flag_picked_up :: "msg_flag_event \<Rightarrow> (byte_writer, unit) state" where
  "encode_flag_picked_up msg = do {
     writer_u8 (team_byte (fe_flag_team msg));
     writer_u8 (fe_player_id msg);
     writer_u32 (fe_tick msg)
   }"

definition decode_flag_picked_up :: "(byte_reader, msg_flag_event option) state" where
  "decode_flag_picked_up = do {
     team_raw \<leftarrow> reader_u8;
     player_id \<leftarrow> reader_u8;
     tick \<leftarrow> reader_u32;
     ok \<leftarrow> reader_ok;
     if \<not> ok then State_Monad.return None
     else State_Monad.return (map_option (\<lambda>t. \<lparr>fe_flag_team = t, fe_player_id = player_id, fe_tick = tick\<rparr>)
            (decode_team team_raw))
   }"

definition encode_flag_dropped :: "msg_flag_dropped \<Rightarrow> (byte_writer, unit) state" where
  "encode_flag_dropped msg = do {
     writer_u8 (team_byte (fd_flag_team msg));
     write_vec2 (fd_position msg);
     writer_u32 (fd_tick msg)
   }"

definition decode_flag_dropped :: "(byte_reader, msg_flag_dropped option) state" where
  "decode_flag_dropped = do {
     team_raw \<leftarrow> reader_u8;
     pos \<leftarrow> read_vec2;
     tick \<leftarrow> reader_u32;
     ok \<leftarrow> reader_ok;
     if \<not> ok then State_Monad.return None
     else State_Monad.return (map_option (\<lambda>t. \<lparr>fd_flag_team = t, fd_position = pos, fd_tick = tick\<rparr>)
            (decode_team team_raw))
   }"

definition encode_flag_returned :: "msg_flag_event \<Rightarrow> (byte_writer, unit) state" where
  "encode_flag_returned msg = do {
     writer_u8 (team_byte (fe_flag_team msg));
     writer_u8 (fe_player_id msg);
     writer_u32 (fe_tick msg)
   }"

definition decode_flag_returned :: "(byte_reader, msg_flag_event option) state" where
  "decode_flag_returned = do {
     team_raw \<leftarrow> reader_u8;
     player_id \<leftarrow> reader_u8;
     tick \<leftarrow> reader_u32;
     ok \<leftarrow> reader_ok;
     if \<not> ok then State_Monad.return None
     else State_Monad.return (map_option (\<lambda>t. \<lparr>fe_flag_team = t, fe_player_id = player_id, fe_tick = tick\<rparr>)
            (decode_team team_raw))
   }"

definition encode_flag_captured :: "msg_flag_event \<Rightarrow> (byte_writer, unit) state" where
  "encode_flag_captured msg = do {
     writer_u8 (team_byte (fe_flag_team msg));
     writer_u8 (fe_player_id msg);
     writer_u32 (fe_tick msg)
   }"

definition decode_flag_captured :: "(byte_reader, msg_flag_event option) state" where
  "decode_flag_captured = do {
     team_raw \<leftarrow> reader_u8;
     player_id \<leftarrow> reader_u8;
     tick \<leftarrow> reader_u32;
     ok \<leftarrow> reader_ok;
     if \<not> ok then State_Monad.return None
     else State_Monad.return (map_option (\<lambda>t. \<lparr>fe_flag_team = t, fe_player_id = player_id, fe_tick = tick\<rparr>)
            (decode_team team_raw))
   }"

definition encode_match_end :: "msg_match_end \<Rightarrow> (byte_writer, unit) state" where
  "encode_match_end msg = do {
     writer_u8 (team_byte (me_winning_team msg));
     writer_u8 (me_score_red msg);
     writer_u8 (me_score_blue msg)
   }"

definition decode_match_end :: "(byte_reader, msg_match_end option) state" where
  "decode_match_end = do {
     team_raw \<leftarrow> reader_u8;
     sr \<leftarrow> reader_u8;
     sb \<leftarrow> reader_u8;
     ok \<leftarrow> reader_ok;
     if \<not> ok then State_Monad.return None
     else State_Monad.return (map_option (\<lambda>t. \<lparr>me_winning_team = t, me_score_red = sr, me_score_blue = sb\<rparr>)
            (decode_team team_raw))
   }"

definition encode_heartbeat :: "unit \<Rightarrow> (byte_writer, unit) state" where
  "encode_heartbeat msg = State_Monad.return ()"

definition decode_heartbeat :: "(byte_reader, unit option) state" where
  "decode_heartbeat = do { ok \<leftarrow> reader_ok; State_Monad.return (if ok then Some () else None) }"

section \<open>Field round trips\<close>

definition norm_vec :: "vec2 \<Rightarrow> vec2" where
  "norm_vec v = Vec2Fixed (unwire_coord (wire_coord (vx v))) (unwire_coord (wire_coord (vy v)))"

definition wire_vec :: "vec2 \<Rightarrow> u8 list" where
  "wire_vec v = be16 (wire_coord (vx v)) @ be16 (wire_coord (vy v))"

definition norm_player :: "player_state \<Rightarrow> player_state" where
  "norm_player p = p\<lparr>ps_motion := \<lparr>position = norm_vec (position (ps_motion p)), velocity = Vec2Fixed 0 0\<rparr>\<rparr>"

lemma length_wire_vec [simp]: "length (wire_vec v) = 4"
  by (simp add: wire_vec_def)

text \<open>
  A coordinate survives the wire up to its four low-order bits, as long as it is a position the
  16-bit field can hold (2048 pixels in each direction).
\<close>

lemma unwire_wire_coord:
  assumes "- (2 ^ 19) \<le> x" "x < 2 ^ 19"
  shows "unwire_coord (wire_coord x) = x - x mod 16"
proof -
  have "- (2 ^ 15) \<le> x div 16" "x div 16 < 2 ^ 15" using assms by auto
  then have "sint (word_of_int (x div 16) :: u16) = x div 16"
    by (simp add: signed_of_int signed_take_bit_int_eq_self)
  then show ?thesis
    by (simp add: unwire_coord_def wire_coord_def kWireFixedShift_def drop_bit_eq_div push_bit_eq_mult
        minus_mod_eq_div_mult)
qed

lemma wire_coord_idem: "wire_coord (unwire_coord w) = w"
  by (simp add: wire_coord_def unwire_coord_def kWireFixedShift_def drop_bit_push_bit)

lemma norm_vec_idem [simp]: "norm_vec (norm_vec v) = norm_vec v"
  by (simp add: norm_vec_def wire_coord_idem)

lemma decode_team_byte [simp]: "decode_team (team_byte t) = Some t"
  by (cases t) (simp_all add: decode_team_def)

lemma decode_flag_state_byte [simp]: "decode_flag_state (flag_state_byte st) = Some st"
  by (cases st) (simp_all add: decode_flag_state_def)

lemma unpack_pack_flags:
  "unpack_player_flags (pack_player_flags p) q = q\<lparr>ps_alive := ps_alive p,
     ps_carrying_flag := ps_carrying_flag p, ps_team := ps_team p, ps_firing := ps_firing p\<rparr>"
  by (cases "ps_team p"; cases "ps_alive p"; cases "ps_carrying_flag p"; cases "ps_firing p")
    (simp_all add: unpack_player_flags_def pack_player_flags_def)

end
