(* ===== verification/Protocol_Codecs.thy ===== *)
theory Protocol_Codecs
  imports Protocol
begin

text \<open>
  The wire image of every message, and the proof that each encoder/decoder pair of \<open>Protocol\<close>
  fulfils the contract \<open>message_codec\<close>. The interpretations at the end of each section make the
  laws of the contract available as \<open><message>.roundtrip\<close>, \<open><message>.truncated_rejected\<close> and so on.
\<close>

section \<open>Reading rules\<close>

lemma reads_bind_u8: "reads (f v) cs y \<Longrightarrow> reads (reader_u8 \<bind> f) (v # cs) y"
  using reads_bind [OF reads_u8, of f v cs y] by simp

lemma reads_bind_ok: "reads (f True) cs y \<Longrightarrow> reads (reader_ok \<bind> f) cs y"
  using reads_bind [OF reads_ok, of f cs y] by simp

lemma reads_bind_last: "reads d bs x \<Longrightarrow> reads (f x) [] y \<Longrightarrow> reads (d \<bind> f) bs y"
  using reads_bind [of d bs x f "[]" y] by simp

lemma reads_return_eq: "x = y \<Longrightarrow> reads (State_Monad.return x) [] y"
  by (simp add: reads_return)

lemma reads_vec2 [codec_intros]: "reads read_vec2 (wire_vec v) (norm_vec v)"
  unfolding read_vec2_def wire_vec_def norm_vec_def
  by (rule reads_bind reads_i16 reads_bind_last reads_return)+

lemma emits_vec2 [codec_intros]: "emits (write_vec2 v) (wire_vec v)"
  unfolding write_vec2_def wire_vec_def by (intro codec_intros)

lemma disciplined_vec2 [codec_intros]: "disciplined read_vec2"
  unfolding read_vec2_def by (intro codec_intros)

lemma emits_name: "length name = kNameBytes \<Longrightarrow> emits (write_name name) name"
  using emits_write_all [of "[0..<kNameBytes]" "\<lambda>i. writer_u8 (name ! i)" "\<lambda>i. [name ! i]"]
  by (simp add: write_name_def emits_u8 concat_map_singleton) (metis map_nth)

lemma reads_name: "length name = kNameBytes \<Longrightarrow> reads read_name name name"
  using reads_n [of name] by (simp add: read_name_def)

lemma disciplined_name [codec_intros]: "disciplined read_name"
  by (simp add: read_name_def disciplined_n)

lemmas reads_rules = reads_bind_u8 reads_bind_ok reads_bind reads_u8 reads_u16 reads_u32 reads_vec2
  reads_bind_last reads_return_eq

lemma emits_bind_u8 [codec_intros]: "(\<And>x. emits (f x) cs) \<Longrightarrow> emits (writer_u8 v \<bind> f) (v # cs)"
  using emits_bind [OF emits_u8, of f cs v] by simp

text \<open>A message whose image has no nested part: the identity is its wire precision.\<close>

abbreviation any_valid :: "'m \<Rightarrow> bool" where
  "any_valid \<equiv> (\<lambda>_. True)"

section \<open>Fixed-size messages\<close>

definition wire_join_accept :: "msg_join_accept \<Rightarrow> u8 list" where [wire_defs]:
  "wire_join_accept m = ja_player_id m # be32 (ja_session_token m) @ be16 (ja_udp_port m)"

interpretation join_accept: message_codec encode_join_accept decode_join_accept wire_join_accept any_valid "\<lambda>m. m"
proof
  fix m :: "_"
  show "emits (encode_join_accept m) (wire_join_accept m)"
    unfolding encode_join_accept_def wire_join_accept_def by (intro codec_intros)
  show "reads decode_join_accept (wire_join_accept m) (Some (m))"
    unfolding decode_join_accept_def wire_join_accept_def
    by (rule reads_rules | simp)+
  show "disciplined decode_join_accept"
    unfolding decode_join_accept_def by (intro codec_intros)
  show "guarded decode_join_accept"
    unfolding decode_join_accept_def by (rule guarded_rules codec_intros | simp)+
qed

definition wire_udp_hello :: "msg_udp_hello \<Rightarrow> u8 list" where [wire_defs]:
  "wire_udp_hello m = hello_player_id m # be32 (hello_session_token m)"

interpretation udp_hello: message_codec encode_udp_hello decode_udp_hello wire_udp_hello any_valid "\<lambda>m. m"
proof
  fix m :: "_"
  show "emits (encode_udp_hello m) (wire_udp_hello m)"
    unfolding encode_udp_hello_def wire_udp_hello_def by (intro codec_intros)
  show "reads decode_udp_hello (wire_udp_hello m) (Some (m))"
    unfolding decode_udp_hello_def wire_udp_hello_def
    by (rule reads_rules | simp)+
  show "disciplined decode_udp_hello"
    unfolding decode_udp_hello_def by (intro codec_intros)
  show "guarded decode_udp_hello"
    unfolding decode_udp_hello_def by (rule guarded_rules codec_intros | simp)+
qed

definition wire_shot_fired :: "msg_shot_fired \<Rightarrow> u8 list" where [wire_defs]:
  "wire_shot_fired m = sf_shooter_id m # wire_vec (sf_origin m) @ be16 (sf_aim_angle m) @ wire_vec (sf_hit_point m)"

definition norm_shot_fired :: "msg_shot_fired \<Rightarrow> msg_shot_fired" where
  "norm_shot_fired m = m\<lparr>sf_origin := norm_vec (sf_origin m), sf_hit_point := norm_vec (sf_hit_point m)\<rparr>"

interpretation shot_fired: message_codec encode_shot_fired decode_shot_fired wire_shot_fired any_valid norm_shot_fired
proof
  fix m :: "_"
  show "emits (encode_shot_fired m) (wire_shot_fired m)"
    unfolding encode_shot_fired_def wire_shot_fired_def by (intro codec_intros)
  show "reads decode_shot_fired (wire_shot_fired m) (Some (norm_shot_fired m))"
    unfolding decode_shot_fired_def wire_shot_fired_def norm_shot_fired_def
    by (rule reads_rules | simp)+
  show "disciplined decode_shot_fired"
    unfolding decode_shot_fired_def by (intro codec_intros)
  show "guarded decode_shot_fired"
    unfolding decode_shot_fired_def by (rule guarded_rules codec_intros | simp)+
qed

definition wire_player_killed :: "msg_player_killed \<Rightarrow> u8 list" where [wire_defs]:
  "wire_player_killed m = pk_victim_id m # pk_killer_id m # be32 (pk_tick m)"

interpretation player_killed: message_codec encode_player_killed decode_player_killed wire_player_killed any_valid "\<lambda>m. m"
proof
  fix m :: "_"
  show "emits (encode_player_killed m) (wire_player_killed m)"
    unfolding encode_player_killed_def wire_player_killed_def by (intro codec_intros)
  show "reads decode_player_killed (wire_player_killed m) (Some (m))"
    unfolding decode_player_killed_def wire_player_killed_def
    by (rule reads_rules | simp)+
  show "disciplined decode_player_killed"
    unfolding decode_player_killed_def by (intro codec_intros)
  show "guarded decode_player_killed"
    unfolding decode_player_killed_def by (rule guarded_rules codec_intros | simp)+
qed

definition wire_player_respawned :: "msg_player_respawned \<Rightarrow> u8 list" where [wire_defs]:
  "wire_player_respawned m = pr_player_id m # wire_vec (pr_position m) @ be32 (pr_tick m)"

definition norm_player_respawned :: "msg_player_respawned \<Rightarrow> msg_player_respawned" where
  "norm_player_respawned m = m\<lparr>pr_position := norm_vec (pr_position m)\<rparr>"

interpretation player_respawned: message_codec encode_player_respawned decode_player_respawned wire_player_respawned any_valid norm_player_respawned
proof
  fix m :: "_"
  show "emits (encode_player_respawned m) (wire_player_respawned m)"
    unfolding encode_player_respawned_def wire_player_respawned_def by (intro codec_intros)
  show "reads decode_player_respawned (wire_player_respawned m) (Some (norm_player_respawned m))"
    unfolding decode_player_respawned_def wire_player_respawned_def norm_player_respawned_def
    by (rule reads_rules | simp)+
  show "disciplined decode_player_respawned"
    unfolding decode_player_respawned_def by (intro codec_intros)
  show "guarded decode_player_respawned"
    unfolding decode_player_respawned_def by (rule guarded_rules codec_intros | simp)+
qed

definition wire_flag_picked_up :: "msg_flag_event \<Rightarrow> u8 list" where [wire_defs]:
  "wire_flag_picked_up m = team_byte (fe_flag_team m) # fe_player_id m # be32 (fe_tick m)"

interpretation flag_picked_up: message_codec encode_flag_picked_up decode_flag_picked_up wire_flag_picked_up any_valid "\<lambda>m. m"
proof
  fix m :: "_"
  show "emits (encode_flag_picked_up m) (wire_flag_picked_up m)"
    unfolding encode_flag_picked_up_def wire_flag_picked_up_def by (intro codec_intros)
  show "reads decode_flag_picked_up (wire_flag_picked_up m) (Some (m))"
    unfolding decode_flag_picked_up_def wire_flag_picked_up_def
    by (rule reads_rules | simp)+
  show "disciplined decode_flag_picked_up"
    unfolding decode_flag_picked_up_def by (intro codec_intros)
  show "guarded decode_flag_picked_up"
    unfolding decode_flag_picked_up_def by (rule guarded_rules codec_intros | simp)+
qed

definition wire_flag_dropped :: "msg_flag_dropped \<Rightarrow> u8 list" where [wire_defs]:
  "wire_flag_dropped m = team_byte (fd_flag_team m) # wire_vec (fd_position m) @ be32 (fd_tick m)"

definition norm_flag_dropped :: "msg_flag_dropped \<Rightarrow> msg_flag_dropped" where
  "norm_flag_dropped m = m\<lparr>fd_position := norm_vec (fd_position m)\<rparr>"

interpretation flag_dropped: message_codec encode_flag_dropped decode_flag_dropped wire_flag_dropped any_valid norm_flag_dropped
proof
  fix m :: "_"
  show "emits (encode_flag_dropped m) (wire_flag_dropped m)"
    unfolding encode_flag_dropped_def wire_flag_dropped_def by (intro codec_intros)
  show "reads decode_flag_dropped (wire_flag_dropped m) (Some (norm_flag_dropped m))"
    unfolding decode_flag_dropped_def wire_flag_dropped_def norm_flag_dropped_def
    by (rule reads_rules | simp)+
  show "disciplined decode_flag_dropped"
    unfolding decode_flag_dropped_def by (intro codec_intros)
  show "guarded decode_flag_dropped"
    unfolding decode_flag_dropped_def by (rule guarded_rules codec_intros | simp)+
qed

definition wire_flag_returned :: "msg_flag_event \<Rightarrow> u8 list" where [wire_defs]:
  "wire_flag_returned m = team_byte (fe_flag_team m) # fe_player_id m # be32 (fe_tick m)"

interpretation flag_returned: message_codec encode_flag_returned decode_flag_returned wire_flag_returned any_valid "\<lambda>m. m"
proof
  fix m :: "_"
  show "emits (encode_flag_returned m) (wire_flag_returned m)"
    unfolding encode_flag_returned_def wire_flag_returned_def by (intro codec_intros)
  show "reads decode_flag_returned (wire_flag_returned m) (Some (m))"
    unfolding decode_flag_returned_def wire_flag_returned_def
    by (rule reads_rules | simp)+
  show "disciplined decode_flag_returned"
    unfolding decode_flag_returned_def by (intro codec_intros)
  show "guarded decode_flag_returned"
    unfolding decode_flag_returned_def by (rule guarded_rules codec_intros | simp)+
qed

definition wire_flag_captured :: "msg_flag_event \<Rightarrow> u8 list" where [wire_defs]:
  "wire_flag_captured m = team_byte (fe_flag_team m) # fe_player_id m # be32 (fe_tick m)"

interpretation flag_captured: message_codec encode_flag_captured decode_flag_captured wire_flag_captured any_valid "\<lambda>m. m"
proof
  fix m :: "_"
  show "emits (encode_flag_captured m) (wire_flag_captured m)"
    unfolding encode_flag_captured_def wire_flag_captured_def by (intro codec_intros)
  show "reads decode_flag_captured (wire_flag_captured m) (Some (m))"
    unfolding decode_flag_captured_def wire_flag_captured_def
    by (rule reads_rules | simp)+
  show "disciplined decode_flag_captured"
    unfolding decode_flag_captured_def by (intro codec_intros)
  show "guarded decode_flag_captured"
    unfolding decode_flag_captured_def by (rule guarded_rules codec_intros | simp)+
qed

definition wire_match_end :: "msg_match_end \<Rightarrow> u8 list" where [wire_defs]:
  "wire_match_end m = [team_byte (me_winning_team m), me_score_red m, me_score_blue m]"

interpretation match_end: message_codec encode_match_end decode_match_end wire_match_end any_valid "\<lambda>m. m"
proof
  fix m :: "_"
  show "emits (encode_match_end m) (wire_match_end m)"
    unfolding encode_match_end_def wire_match_end_def by (intro codec_intros)
  show "reads decode_match_end (wire_match_end m) (Some (m))"
    unfolding decode_match_end_def wire_match_end_def
    by (rule reads_rules | simp)+
  show "disciplined decode_match_end"
    unfolding decode_match_end_def by (intro codec_intros)
  show "guarded decode_match_end"
    unfolding decode_match_end_def by (rule guarded_rules codec_intros | simp)+
qed

section \<open>Headers, names and empty messages\<close>

definition wire_udp_header :: "udp_header \<Rightarrow> u8 list" where [wire_defs]:
  "wire_udp_header m = be16 (uh_magic m) @ uh_version m # uh_type m # be32 (uh_tick m)"

text \<open>The headers a receiver accepts: the right magic and the right protocol version.\<close>

definition valid_udp_header :: "udp_header \<Rightarrow> bool" where
  "valid_udp_header m \<longleftrightarrow> uh_magic m = kMagic \<and> uh_version m = kProtocolVersion"

interpretation udp_header: message_codec encode_udp_header decode_udp_header wire_udp_header
  valid_udp_header "\<lambda>m. m"
proof
  fix m assume v: "valid_udp_header m"
  show "emits (encode_udp_header m) (wire_udp_header m)"
    unfolding encode_udp_header_def wire_udp_header_def by (intro codec_intros)
  show "reads decode_udp_header (wire_udp_header m) (Some m)"
    using v unfolding decode_udp_header_def wire_udp_header_def valid_udp_header_def
    by (cases m, simp) (rule reads_rules | simp)+
next
  show "disciplined decode_udp_header" unfolding decode_udp_header_def by (intro codec_intros)
  show "guarded decode_udp_header"
    unfolding decode_udp_header_def by (rule guarded_rules codec_intros | simp)+
qed

definition wire_join_lobby :: "msg_join_lobby \<Rightarrow> u8 list" where [wire_defs]:
  "wire_join_lobby m = jl_name m"

definition valid_join_lobby :: "msg_join_lobby \<Rightarrow> bool" where
  "valid_join_lobby m \<longleftrightarrow> length (jl_name m) = kNameBytes"

interpretation join_lobby: message_codec encode_join_lobby decode_join_lobby wire_join_lobby
  valid_join_lobby "\<lambda>m. m"
proof
  fix m assume v: "valid_join_lobby m"
  then show "emits (encode_join_lobby m) (wire_join_lobby m)"
    by (simp add: encode_join_lobby_def wire_join_lobby_def valid_join_lobby_def emits_name)
  show "reads decode_join_lobby (wire_join_lobby m) (Some m)"
    using v unfolding decode_join_lobby_def wire_join_lobby_def valid_join_lobby_def
    by (intro reads_bind_last [OF reads_name] reads_bind_ok reads_return_eq) simp_all
next
  show "disciplined decode_join_lobby" unfolding decode_join_lobby_def by (intro codec_intros)
  show "guarded decode_join_lobby"
    unfolding decode_join_lobby_def by (rule guarded_rules codec_intros | simp)+
qed

definition wire_join_reject :: "msg_join_reject \<Rightarrow> u8 list" where [wire_defs]:
  "wire_join_reject m = [reject_reason_byte (jr_reason m)]"

interpretation join_reject: message_codec encode_join_reject decode_join_reject wire_join_reject
  any_valid "\<lambda>m. m"
proof
  fix m :: msg_join_reject
  show "emits (encode_join_reject m) (wire_join_reject m)"
    unfolding encode_join_reject_def wire_join_reject_def by (intro codec_intros)
  show "reads decode_join_reject (wire_join_reject m) (Some m)"
    unfolding decode_join_reject_def wire_join_reject_def
    by (cases "jr_reason m"; (rule reads_rules | simp)+)
  show "disciplined decode_join_reject" unfolding decode_join_reject_def by (intro codec_intros)
  show "guarded decode_join_reject"
    unfolding decode_join_reject_def by (rule guarded_rules codec_intros | simp)+
qed

interpretation start_request: message_codec encode_start_request decode_start_request "\<lambda>_. []"
  any_valid "\<lambda>m. m"
  by unfold_locales (auto simp: encode_start_request_def decode_start_request_def
      intro!: codec_intros guarded_ok reads_bind_ok)

interpretation heartbeat: message_codec encode_heartbeat decode_heartbeat "\<lambda>_. []"
  any_valid "\<lambda>m. m"
  by unfold_locales (auto simp: encode_heartbeat_def decode_heartbeat_def
      intro!: codec_intros guarded_ok reads_bind_ok)

section \<open>Messages with a slot array\<close>

lemma map_nth_upto: "n \<le> length xs \<Longrightarrow> map ((!) xs) [0..<n] = take n xs"
  by (rule nth_equalityI) auto

text \<open>Consecutive slots filled by a loop: the fold of the single assignments.\<close>

lemma fold_slots_snoc: "fold f [i..<i + Suc k] x = f (i + k) (fold f [i..<i + k] x)"
  by simp

lemma update_range_snoc:
  "update_range xs i (ys @ [y]) = (update_range xs i ys)[i + length ys := y]"
  by (induction ys arbitrary: xs i) auto

definition wire_lobby_state :: "msg_lobby_state \<Rightarrow> u8 list" where [wire_defs]:
  "wire_lobby_state m = ls_player_count m
     # concat (map (\<lambda>i. ls_ids m ! i # ls_names m ! i) [0..<unat (ls_player_count m)]) @ [ls_host_id m]"

definition valid_lobby_state :: "msg_lobby_state \<Rightarrow> bool" where
  "valid_lobby_state m \<longleftrightarrow> unat (ls_player_count m) \<le> kMaxPlayers \<and> length (ls_ids m) = kMaxPlayers
     \<and> length (ls_names m) = kMaxPlayers \<and> (\<forall>name \<in> set (ls_names m). length name = kNameBytes)"

definition norm_lobby_state :: "msg_lobby_state \<Rightarrow> msg_lobby_state" where
  "norm_lobby_state m = (let n = unat (ls_player_count m) in
     m\<lparr>ls_ids := take n (ls_ids m) @ drop n (ls_ids default_lobby_state),
       ls_names := take n (ls_names m) @ drop n (ls_names default_lobby_state)\<rparr>)"

lemma fold_lobby_slots:
  "fold (\<lambda>j out. out\<lparr>ls_ids := (ls_ids out)[j := a j], ls_names := (ls_names out)[j := b j]\<rparr>) [i..<i + k] out
   = out\<lparr>ls_ids := update_range (ls_ids out) i (map a [i..<i + k]),
         ls_names := update_range (ls_names out) i (map b [i..<i + k])\<rparr>"
  by (induction k) (simp_all add: update_range_snoc)

lemma reads_lobby_slot:
  assumes "length name = kNameBytes"
  shows "reads (decode_lobby_slot j out) (pid # name)
     (Some (out\<lparr>ls_ids := (ls_ids out)[j := pid], ls_names := (ls_names out)[j := name]\<rparr>))"
  unfolding decode_lobby_slot_def
  by (intro reads_bind_u8 reads_bind_last [OF reads_name [OF assms]] reads_return)

lemma disciplined_lobby_slot [codec_intros]: "disciplined (decode_lobby_slot j out)"
  unfolding decode_lobby_slot_def by (intro codec_intros)

lemma reads_lobby_state:
  assumes v: "valid_lobby_state m"
  shows "reads decode_lobby_state (wire_lobby_state m) (Some (norm_lobby_state m))"
proof -
  let ?n = "unat (ls_player_count m)" and ?out = "default_lobby_state\<lparr>ls_player_count := ls_player_count m\<rparr>"
  have "reads (read_slots 0 ?n decode_lobby_slot ?out)
      (concat (map (\<lambda>i. ls_ids m ! i # ls_names m ! i) [0..<0 + ?n]))
      (Some (fold (\<lambda>j out. out\<lparr>ls_ids := (ls_ids out)[j := ls_ids m ! j],
          ls_names := (ls_names out)[j := ls_names m ! j]\<rparr>) [0..<0 + ?n] ?out))"
    by (rule reads_slots) (use v in \<open>auto simp: valid_lobby_state_def intro!: reads_lobby_slot\<close>)
  then have loop: "reads (read_slots 0 ?n decode_lobby_slot ?out)
      (concat (map (\<lambda>i. ls_ids m ! i # ls_names m ! i) [0..<?n]))
      (Some (?out\<lparr>ls_ids := take ?n (ls_ids m) @ drop ?n (ls_ids default_lobby_state),
         ls_names := take ?n (ls_names m) @ drop ?n (ls_names default_lobby_state)\<rparr>))"
    unfolding fold_lobby_slots using v
    by (simp add: valid_lobby_state_def map_nth_upto update_range_0 default_lobby_state_def)
  have n: "\<not> kMaxPlayers < ?n" using v by (simp add: valid_lobby_state_def)
  show ?thesis
    unfolding decode_lobby_state_def wire_lobby_state_def norm_lobby_state_def Let_def
    apply (rule reads_bind_u8)
    apply (simp only: n if_False)
    apply (rule reads_bind [OF loop])
    apply (simp only: option.case)
    apply (rule reads_bind_u8 reads_bind_ok reads_return_eq)+
    apply simp
    done
qed

interpretation lobby_state: message_codec encode_lobby_state decode_lobby_state wire_lobby_state
  valid_lobby_state norm_lobby_state
proof
  fix m assume v: "valid_lobby_state m"
  then show "emits (encode_lobby_state m) (wire_lobby_state m)"
    unfolding encode_lobby_state_def wire_lobby_state_def
    by (auto simp: valid_lobby_state_def min_absorb1 intro!: codec_intros emits_name)
  show "reads decode_lobby_state (wire_lobby_state m) (Some (norm_lobby_state m))"
    using v by (rule reads_lobby_state)
next
  show "disciplined decode_lobby_state"
    unfolding decode_lobby_state_def by (intro codec_intros)
  show "guarded decode_lobby_state"
    unfolding decode_lobby_state_def by (rule guarded_rules codec_intros | simp)+
qed

definition wire_game_start :: "msg_game_start \<Rightarrow> u8 list" where [wire_defs]:
  "wire_game_start m = gs_player_count m # be32 (gs_start_tick m)
     @ concat (map (\<lambda>i. gs_ids m ! i # team_byte (gs_teams m ! i) # wire_vec (gs_spawn_points m ! i))
         [0..<unat (gs_player_count m)])"

definition valid_game_start :: "msg_game_start \<Rightarrow> bool" where
  "valid_game_start m \<longleftrightarrow> unat (gs_player_count m) \<le> kMaxPlayers \<and> length (gs_ids m) = kMaxPlayers
     \<and> length (gs_teams m) = kMaxPlayers \<and> length (gs_spawn_points m) = kMaxPlayers"

definition norm_game_start :: "msg_game_start \<Rightarrow> msg_game_start" where
  "norm_game_start m = (let n = unat (gs_player_count m) in
     m\<lparr>gs_ids := take n (gs_ids m) @ drop n (gs_ids default_game_start),
       gs_teams := take n (gs_teams m) @ drop n (gs_teams default_game_start),
       gs_spawn_points := map norm_vec (take n (gs_spawn_points m)) @ drop n (gs_spawn_points default_game_start)\<rparr>)"

lemma fold_game_start_slots:
  "fold (\<lambda>j out. out\<lparr>gs_ids := (gs_ids out)[j := a j], gs_teams := (gs_teams out)[j := b j],
      gs_spawn_points := (gs_spawn_points out)[j := c j]\<rparr>) [i..<i + k] out
   = out\<lparr>gs_ids := update_range (gs_ids out) i (map a [i..<i + k]),
         gs_teams := update_range (gs_teams out) i (map b [i..<i + k]),
         gs_spawn_points := update_range (gs_spawn_points out) i (map c [i..<i + k])\<rparr>"
  by (induction k) (simp_all add: update_range_snoc)

lemma reads_game_start_slot:
  "reads (decode_game_start_slot j out) (pid # team_byte t # wire_vec v)
     (Some (out\<lparr>gs_ids := (gs_ids out)[j := pid], gs_teams := (gs_teams out)[j := t],
              gs_spawn_points := (gs_spawn_points out)[j := norm_vec v]\<rparr>))"
  unfolding decode_game_start_slot_def
  by (intro reads_bind_u8) (auto intro!: reads_bind_last [OF reads_vec2] reads_return)

lemma disciplined_game_start_slot [codec_intros]: "disciplined (decode_game_start_slot j out)"
  unfolding decode_game_start_slot_def by (intro codec_intros)

lemma map_norm_upto: "n \<le> length xs \<Longrightarrow> map (\<lambda>j. f (xs ! j)) [0..<n] = map f (take n xs)"
  by (rule nth_equalityI) auto

lemma reads_game_start:
  assumes v: "valid_game_start m"
  shows "reads decode_game_start (wire_game_start m) (Some (norm_game_start m))"
proof -
  let ?n = "unat (gs_player_count m)"
    and ?out = "default_game_start\<lparr>gs_player_count := gs_player_count m, gs_start_tick := gs_start_tick m\<rparr>"
  have "reads (read_slots 0 ?n decode_game_start_slot ?out)
      (concat (map (\<lambda>i. gs_ids m ! i # team_byte (gs_teams m ! i) # wire_vec (gs_spawn_points m ! i)) [0..<0 + ?n]))
      (Some (fold (\<lambda>j out. out\<lparr>gs_ids := (gs_ids out)[j := gs_ids m ! j],
          gs_teams := (gs_teams out)[j := gs_teams m ! j],
          gs_spawn_points := (gs_spawn_points out)[j := norm_vec (gs_spawn_points m ! j)]\<rparr>) [0..<0 + ?n] ?out))"
    by (rule reads_slots) (rule reads_game_start_slot)
  then have loop: "reads (read_slots 0 ?n decode_game_start_slot ?out)
      (concat (map (\<lambda>i. gs_ids m ! i # team_byte (gs_teams m ! i) # wire_vec (gs_spawn_points m ! i)) [0..<?n]))
      (Some (norm_game_start m))"
    unfolding fold_game_start_slots using v
    by (cases m) (simp add: valid_game_start_def map_nth_upto map_norm_upto update_range_0
        default_game_start_def norm_game_start_def Let_def)
  have n: "\<not> kMaxPlayers < ?n" using v by (simp add: valid_game_start_def)
  show ?thesis
    unfolding decode_game_start_def wire_game_start_def
    apply (rule reads_bind_u8, rule reads_bind [OF reads_u32], rule reads_bind_ok)
    apply (simp only: n simp_thms if_False)
    apply (rule reads_bind_last [OF loop])
    apply (simp only: option.case)
    apply (rule reads_bind_ok reads_return_eq)+
    apply simp
    done
qed

interpretation game_start: message_codec encode_game_start decode_game_start wire_game_start
  valid_game_start norm_game_start
proof
  fix m assume v: "valid_game_start m"
  then show "emits (encode_game_start m) (wire_game_start m)"
    unfolding encode_game_start_def wire_game_start_def
    by (auto simp: valid_game_start_def min_absorb1 intro!: codec_intros)
  show "reads decode_game_start (wire_game_start m) (Some (norm_game_start m))"
    using v by (rule reads_game_start)
next
  show "disciplined decode_game_start"
    unfolding decode_game_start_def by (intro codec_intros)
  show "guarded decode_game_start"
    unfolding decode_game_start_def by (rule guarded_rules codec_intros | simp)+
qed

definition wire_player_input :: "msg_player_input \<Rightarrow> u8 list" where [wire_defs]:
  "wire_player_input m = pi_player_id m # be32 (pi_session_token m) @ be32 (pi_base_seq m) @ pi_count m
     # concat (map (\<lambda>i. buttons (pi_inputs m ! i) # be16 (aim_angle (pi_inputs m ! i))) [0..<unat (pi_count m)])"

definition valid_player_input :: "msg_player_input \<Rightarrow> bool" where
  "valid_player_input m \<longleftrightarrow> unat (pi_count m) \<le> kInputRedundancy \<and> length (pi_inputs m) = kInputRedundancy"

definition norm_player_input :: "msg_player_input \<Rightarrow> msg_player_input" where
  "norm_player_input m = m\<lparr>pi_inputs := take (unat (pi_count m)) (pi_inputs m)
     @ drop (unat (pi_count m)) (pi_inputs default_player_input)\<rparr>"

lemma fold_input_slots:
  "fold (\<lambda>j out. out\<lparr>pi_inputs := (pi_inputs out)[j := a j]\<rparr>) [i..<i + k] out
   = out\<lparr>pi_inputs := update_range (pi_inputs out) i (map a [i..<i + k])\<rparr>"
  by (induction k) (simp_all add: update_range_snoc)

lemma reads_input_slot:
  "reads (decode_input_slot j out) (buttons c # be16 (aim_angle c))
     (Some (out\<lparr>pi_inputs := (pi_inputs out)[j := c]\<rparr>))"
  unfolding decode_input_slot_def
  by (intro reads_bind_u8 reads_bind_last [OF reads_u16] reads_return_eq) (cases c, simp)

lemma disciplined_input_slot [codec_intros]: "disciplined (decode_input_slot j out)"
  unfolding decode_input_slot_def by (intro codec_intros)

lemma reads_player_input:
  assumes v: "valid_player_input m"
  shows "reads decode_player_input (wire_player_input m) (Some (norm_player_input m))"
proof -
  let ?n = "unat (pi_count m)"
    and ?out = "default_player_input\<lparr>pi_player_id := pi_player_id m, pi_session_token := pi_session_token m,
                   pi_base_seq := pi_base_seq m, pi_count := pi_count m\<rparr>"
  have "reads (read_slots 0 ?n decode_input_slot ?out)
      (concat (map (\<lambda>i. buttons (pi_inputs m ! i) # be16 (aim_angle (pi_inputs m ! i))) [0..<0 + ?n]))
      (Some (fold (\<lambda>j out. out\<lparr>pi_inputs := (pi_inputs out)[j := pi_inputs m ! j]\<rparr>) [0..<0 + ?n] ?out))"
    by (rule reads_slots) (rule reads_input_slot)
  then have loop: "reads (read_slots 0 ?n decode_input_slot ?out)
      (concat (map (\<lambda>i. buttons (pi_inputs m ! i) # be16 (aim_angle (pi_inputs m ! i))) [0..<?n]))
      (Some (norm_player_input m))"
    unfolding fold_input_slots using v
    by (cases m) (simp add: valid_player_input_def map_nth_upto update_range_0
        default_player_input_def norm_player_input_def)
  have n: "\<not> kInputRedundancy < ?n" using v by (simp add: valid_player_input_def)
  show ?thesis
    unfolding decode_player_input_def wire_player_input_def
    apply (rule reads_bind_u8, rule reads_bind [OF reads_u32], rule reads_bind [OF reads_u32], rule reads_bind_u8)
    apply (simp only: n if_False)
    apply (rule reads_bind_last [OF loop])
    apply (simp only: option.case)
    apply (rule reads_bind_ok reads_return_eq)+
    apply simp
    done
qed

lemma length_player_input_image: "length (wire_player_input m) = 10 + 3 * unat (pi_count m)"
  by (simp add: wire_player_input_def length_concat comp_def sum_list_triv)

interpretation player_input: message_codec encode_player_input decode_player_input wire_player_input
  valid_player_input norm_player_input
proof
  fix m assume v: "valid_player_input m"
  then have "(if unat (pi_count m) < kInputRedundancy then unat (pi_count m) else kInputRedundancy)
      = unat (pi_count m)"
    by (simp add: valid_player_input_def)
  then show "emits (encode_player_input m) (wire_player_input m)"
    unfolding encode_player_input_def wire_player_input_def
    by (auto intro!: codec_intros)
  show "reads decode_player_input (wire_player_input m) (Some (norm_player_input m))"
    using v by (rule reads_player_input)
next
  show "disciplined decode_player_input"
    unfolding decode_player_input_def by (intro codec_intros)
  show "guarded decode_player_input"
    unfolding decode_player_input_def by (rule guarded_rules codec_intros | simp)+
qed

section \<open>World snapshots\<close>

definition wire_player :: "player_state \<Rightarrow> u8 list" where [wire_defs]:
  "wire_player p = ps_id p # wire_vec (position (ps_motion p)) @ be16 (ps_aim_angle p)
     @ [ps_health p, pack_player_flags p]"

definition wire_world_snapshot :: "world_snapshot \<Rightarrow> u8 list" where [wire_defs]:
  "wire_world_snapshot s = be32 (last_input_seq s) @ be32 (snap_tick s) @ player_count s
     # flag_carrier_red s # flag_carrier_blue s # flag_state_byte (flag_state_red s)
     # flag_state_byte (flag_state_blue s) # score_red s # score_blue s # be16 (seconds_remaining s)
     @ concat (map (\<lambda>i. wire_player (snap_players s ! i)) [0..<unat (player_count s)])"

definition norm_world_snapshot :: "world_snapshot \<Rightarrow> world_snapshot" where
  "norm_world_snapshot s = s\<lparr>snap_players := map norm_player (take (unat (player_count s)) (snap_players s))
     @ drop (unat (player_count s)) (snap_players default_snapshot)\<rparr>"

lemma fold_snapshot_slots:
  "fold (\<lambda>j out. out\<lparr>snap_players := (snap_players out)[j := a j]\<rparr>) [i..<i + k] out
   = out\<lparr>snap_players := update_range (snap_players out) i (map a [i..<i + k])\<rparr>"
  by (induction k) (simp_all add: update_range_snoc)

lemma emits_snapshot_player [codec_intros]: "emits (encode_snapshot_player p) (wire_player p)"
  unfolding encode_snapshot_player_def wire_player_def
  by (intro codec_intros)

lemma reads_snapshot_slot:
  "reads (decode_snapshot_slot j out) (wire_player p)
     (Some (out\<lparr>snap_players := (snap_players out)[j := norm_player p]\<rparr>))"
proof -
  have "unpack_player_flags (pack_player_flags p) (q\<lparr>ps_id := ps_id p,
      ps_motion := \<lparr>position = norm_vec (position (ps_motion p)), velocity = Vec2Fixed 0 0\<rparr>,
      ps_aim_angle := ps_aim_angle p, ps_health := ps_health p\<rparr>) = norm_player p" for q
    by (simp add: unpack_pack_flags norm_player_def)
  then show ?thesis
    unfolding decode_snapshot_slot_def wire_player_def Let_def
    by (intro reads_bind_u8 reads_bind [OF reads_vec2] reads_bind [OF reads_u16] reads_return_eq) simp
qed

lemma disciplined_snapshot_slot [codec_intros]: "disciplined (decode_snapshot_slot j out)"
  unfolding decode_snapshot_slot_def Let_def by (intro codec_intros)

lemma reads_world_snapshot:
  assumes v: "wf_snapshot s"
  shows "reads decode_world_snapshot (wire_world_snapshot s) (Some (norm_world_snapshot s))"
proof -
  let ?n = "unat (player_count s)"
    and ?out = "default_snapshot\<lparr>last_input_seq := last_input_seq s, snap_tick := snap_tick s,
       player_count := player_count s, flag_carrier_red := flag_carrier_red s,
       flag_carrier_blue := flag_carrier_blue s, flag_state_red := flag_state_red s,
       flag_state_blue := flag_state_blue s, score_red := score_red s, score_blue := score_blue s,
       seconds_remaining := seconds_remaining s\<rparr>"
  have "reads (read_slots 0 ?n decode_snapshot_slot ?out)
      (concat (map (\<lambda>i. wire_player (snap_players s ! i)) [0..<0 + ?n]))
      (Some (fold (\<lambda>j out. out\<lparr>snap_players := (snap_players out)[j := norm_player (snap_players s ! j)]\<rparr>)
         [0..<0 + ?n] ?out))"
    by (rule reads_slots) (rule reads_snapshot_slot)
  then have loop: "reads (read_slots 0 ?n decode_snapshot_slot ?out)
      (concat (map (\<lambda>i. wire_player (snap_players s ! i)) [0..<?n])) (Some (norm_world_snapshot s))"
    unfolding fold_snapshot_slots using v
    by (cases s) (simp add: wf_snapshot_def map_norm_upto update_range_0 default_snapshot_def
        norm_world_snapshot_def)
  have n: "\<not> kMaxPlayers < ?n" using v by (simp add: wf_snapshot_def)
  show ?thesis
    unfolding decode_world_snapshot_def wire_world_snapshot_def
    apply (rule reads_bind [OF reads_u32] reads_bind_u8)+
    apply (rule reads_bind [OF reads_u16], rule reads_bind_ok)
    apply (simp only: n simp_thms if_False decode_flag_state_byte option.case)
    apply (rule reads_bind_last [OF loop])
    apply (simp only: option.case)
    apply (rule reads_bind_ok reads_return_eq)+
    apply simp
    done
qed

interpretation world_snapshot: message_codec encode_world_snapshot decode_world_snapshot
  wire_world_snapshot wf_snapshot norm_world_snapshot
proof
  fix s assume v: "wf_snapshot s"
  then have "(if unat (player_count s) < kMaxPlayers then unat (player_count s) else kMaxPlayers)
      = unat (player_count s)"
    by (simp add: wf_snapshot_def)
  then show "emits (encode_world_snapshot s) (wire_world_snapshot s)"
    unfolding encode_world_snapshot_def wire_world_snapshot_def
    by (auto intro!: codec_intros)
  show "reads decode_world_snapshot (wire_world_snapshot s) (Some (norm_world_snapshot s))"
    using v by (rule reads_world_snapshot)
next
  show "disciplined decode_world_snapshot"
    unfolding decode_world_snapshot_def by (intro codec_intros)
  show "guarded decode_world_snapshot"
    unfolding decode_world_snapshot_def by (rule guarded_rules codec_intros | simp)+
qed

section \<open>Properties\<close>

lemma length_snapshot_image:
  "length (wire_world_snapshot s) = 17 + 9 * unat (player_count s)"
proof -
  have "length (concat (map (\<lambda>i. wire_player (f i)) [0..<n])) = 9 * n" for f :: "nat \<Rightarrow> player_state" and n
    by (induction n) (simp_all add: wire_player_def)
  then show ?thesis by (simp add: wire_world_snapshot_def)
qed

text \<open>
  C31 (roundtrip): a world snapshot encoded into the 512-byte payload of an event never overflows it
  and is decoded to the same snapshot, with positions at wire precision and no velocity.
\<close>

theorem world_snapshot_roundtrip:
  assumes "wf_snapshot s"
  shows "received decode_world_snapshot (sent_bytes 512 (encode_world_snapshot s)) = Some (norm_world_snapshot s)
    \<and> length (sent_bytes 512 (encode_world_snapshot s)) = 17 + 9 * unat (player_count s)"
proof -
  have len: "length (wire_world_snapshot s) \<le> 512"
    using assms by (simp add: length_snapshot_image wf_snapshot_def config_defs)
  show ?thesis
    using world_snapshot.received_sent [OF assms len] world_snapshot.encode_fits(2) [OF assms _ len]
    by (simp add: sent_bytes_def length_snapshot_image)
qed

theorem world_snapshot_roundtrip_witness:
  "received decode_world_snapshot (sent_bytes 512 (encode_world_snapshot default_snapshot)) \<noteq> None"
  using world_snapshot_roundtrip [OF wf_default_snapshot] by simp

text \<open>
  Every game event survives serialisation in the 96 bytes that the event encoder
  uses: the receiver decodes what the simulation encoded, with positions at wire precision.
\<close>

lemma game_events_roundtrip:
  "received decode_shot_fired (sent_bytes 96 (encode_shot_fired m1)) = Some (norm_shot_fired m1)
   \<and> received decode_player_killed (sent_bytes 96 (encode_player_killed m2)) = Some m2
   \<and> received decode_player_respawned (sent_bytes 96 (encode_player_respawned m3)) = Some (norm_player_respawned m3)
   \<and> received decode_flag_picked_up (sent_bytes 96 (encode_flag_picked_up m4)) = Some m4
   \<and> received decode_flag_dropped (sent_bytes 96 (encode_flag_dropped m5)) = Some (norm_flag_dropped m5)
   \<and> received decode_flag_returned (sent_bytes 96 (encode_flag_returned m6)) = Some m6
   \<and> received decode_flag_captured (sent_bytes 96 (encode_flag_captured m7)) = Some m7
   \<and> received decode_match_end (sent_bytes 96 (encode_match_end m8)) = Some m8"
  by (intro conjI shot_fired.received_sent player_killed.received_sent player_respawned.received_sent
      flag_picked_up.received_sent flag_dropped.received_sent flag_returned.received_sent
      flag_captured.received_sent match_end.received_sent) (simp_all add: wire_defs)

text \<open>
  C38 (error): a datagram cut short is never taken for a valid one. Of the bytes that the encoders of
  a player input and of a world snapshot leave in their buffers, no proper prefix decodes, and no
  encoding is a prefix of another one: if one message's bytes begin with those of a second one, then
  nothing follows and both decode to the same message.
\<close>

theorem truncated_datagrams_rejected:
  assumes "valid_player_input m" "valid_player_input m'" "wf_snapshot s" "wf_snapshot s'"
  shows "(\<forall>bs ext. bs @ ext = sent_bytes 22 (encode_player_input m) \<and> ext \<noteq> [] \<longrightarrow> received decode_player_input bs = None)
    \<and> (\<forall>bs ext. bs @ ext = sent_bytes 512 (encode_world_snapshot s) \<and> ext \<noteq> [] \<longrightarrow> received decode_world_snapshot bs = None)
    \<and> (\<forall>ext. sent_bytes 22 (encode_player_input m') = sent_bytes 22 (encode_player_input m) @ ext
         \<longrightarrow> ext = [] \<and> norm_player_input m = norm_player_input m')
    \<and> (\<forall>ext. sent_bytes 512 (encode_world_snapshot s') = sent_bytes 512 (encode_world_snapshot s) @ ext
         \<longrightarrow> ext = [] \<and> norm_world_snapshot s = norm_world_snapshot s')"
proof -
  have i: "length (wire_player_input m) \<le> 22" "length (wire_player_input m') \<le> 22"
    using assms(1,2) by (simp_all add: length_player_input_image valid_player_input_def config_defs)
  have w: "length (wire_world_snapshot s) \<le> 512" "length (wire_world_snapshot s') \<le> 512"
    using assms(3,4) by (simp_all add: length_snapshot_image wf_snapshot_def config_defs)
  show ?thesis
    using player_input.sent_truncated [OF assms(1) i(1)] world_snapshot.sent_truncated [OF assms(3) w(1)]
      player_input.sent_prefix_free [OF assms(1,2) i] world_snapshot.sent_prefix_free [OF assms(3,4) w] by blast
qed

text \<open>An input packet that lost its last byte, and a snapshot that lost its last four.\<close>

theorem truncated_datagrams_rejected_witness:
  "let m = \<lparr>pi_player_id = 1, pi_session_token = 7, pi_base_seq = 5, pi_count = 1, pi_inputs = replicate 3 default_input\<rparr>;
       bs = sent_bytes 22 (encode_player_input m); cs = sent_bytes 512 (encode_world_snapshot default_snapshot)
   in length bs = 13 \<and> received decode_player_input (take 12 bs) = None
    \<and> length cs = 17 \<and> received decode_world_snapshot (take 13 cs) = None"
proof -
  let ?m = "\<lparr>pi_player_id = 1, pi_session_token = 7, pi_base_seq = 5, pi_count = 1,
      pi_inputs = replicate 3 default_input\<rparr>"
  let ?bs = "sent_bytes 22 (encode_player_input ?m)" and ?cs = "sent_bytes 512 (encode_world_snapshot default_snapshot)"
  have v: "valid_player_input ?m" by (simp add: valid_player_input_def config_defs)
  have "length (wire_player_input ?m) = 13" "length (wire_world_snapshot default_snapshot) = 17"
    by (simp_all add: length_player_input_image length_snapshot_image) (simp add: default_snapshot_def)
  then have len: "length ?bs = 13" "length ?cs = 17"
    using player_input.sent_wire [OF v] world_snapshot.sent_wire [OF wf_default_snapshot] by simp_all
  have "take 12 ?bs @ drop 12 ?bs = ?bs" "drop 12 ?bs \<noteq> []" "take 13 ?cs @ drop 13 ?cs = ?cs" "drop 13 ?cs \<noteq> []"
    using len by simp_all
  then show ?thesis
    using truncated_datagrams_rejected [OF v v wf_default_snapshot wf_default_snapshot] len unfolding Let_def by blast
qed

text \<open>
  A position inside the map loses less than 1/16 pixel on the wire, rounded towards the
  top left corner, and sending it again loses nothing more.
\<close>

lemma wire_position_precision:
  assumes "0 \<le> vx v" "vx v \<le> kMapWidthPx * kFixedScale" "0 \<le> vy v" "vy v \<le> kMapHeightPx * kFixedScale"
  shows "vx (norm_vec v) \<le> vx v \<and> vx v < vx (norm_vec v) + 16
    \<and> vy (norm_vec v) \<le> vy v \<and> vy v < vy (norm_vec v) + 16
    \<and> norm_vec (norm_vec v) = norm_vec v"
proof -
  have "vx (norm_vec v) = vx v - vx v mod 16" "vy (norm_vec v) = vy v - vy v mod 16"
    using assms by (simp_all add: norm_vec_def unwire_wire_coord config_defs)
  moreover have "0 \<le> x mod 16" "x mod 16 < 16" for x :: int by simp_all
  ultimately show ?thesis by simp
qed

end
