(* ===== verification/Delta_Snapshot.thy ===== *)
theory Delta_Snapshot
  imports Protocol_Codecs
begin

text \<open>
  The DELTA_SNAPSHOT message of \<open>shared/protocol.cpp\<close>: a field-level difference of a snapshot
  against the previously published one, applied by the client onto its cached snapshot.

  The refinement at the end says what the pair achieves: if the cache agrees with the baseline up
  to wire precision, then the decoded delta agrees with the current snapshot in the same sense,
  although only the changed fields were sent. A decoder that does not hold the baseline, or gets
  unknown mask bits, drops the packet.
\<close>

section \<open>The encoder\<close>

definition wire_pos_eq :: "vec2 \<Rightarrow> vec2 \<Rightarrow> bool" where
  "wire_pos_eq a b \<longleftrightarrow> drop_bit kWireFixedShift (vx a) = drop_bit kWireFixedShift (vx b)
     \<and> drop_bit kWireFixedShift (vy a) = drop_bit kWireFixedShift (vy b)"

definition player_differs :: "player_state \<Rightarrow> player_state \<Rightarrow> bool" where
  "player_differs a b \<longleftrightarrow> ps_id a \<noteq> ps_id b
     \<or> \<not> wire_pos_eq (position (ps_motion a)) (position (ps_motion b))
     \<or> ps_aim_angle a \<noteq> ps_aim_angle b \<or> ps_health a \<noteq> ps_health b
     \<or> pack_player_flags a \<noteq> pack_player_flags b"

definition baseline_ticks_ago :: "world_snapshot \<Rightarrow> world_snapshot \<Rightarrow> u8" where
  "baseline_ticks_ago current baseline =
     (let ago = (if snap_tick current \<ge> snap_tick baseline
                 then snap_tick current - snap_tick baseline else 0)
      in ucast (if ago > 255 then 255 else ago))"

definition roster_changed :: "world_snapshot \<Rightarrow> world_snapshot \<Rightarrow> bool" where
  "roster_changed current baseline \<longleftrightarrow> player_count current \<noteq> player_count baseline"

definition delta_header_mask :: "world_snapshot \<Rightarrow> world_snapshot \<Rightarrow> u8" where
  "delta_header_mask current baseline =
     (if score_red current \<noteq> score_red baseline then 1 else 0)
     OR (if score_blue current \<noteq> score_blue baseline then 2 else 0)
     OR (if seconds_remaining current \<noteq> seconds_remaining baseline then 4 else 0)
     OR (if flag_state_red current \<noteq> flag_state_red baseline
            \<or> flag_carrier_red current \<noteq> flag_carrier_red baseline then 8 else 0)
     OR (if flag_state_blue current \<noteq> flag_state_blue baseline
            \<or> flag_carrier_blue current \<noteq> flag_carrier_blue baseline then 16 else 0)
     OR (if roster_changed current baseline then 32 else 0)"

text \<open>The number of slots the encoder compares: \<open>n_cmp\<close>.\<close>

definition delta_slots :: "world_snapshot \<Rightarrow> world_snapshot \<Rightarrow> nat" where
  "delta_slots current baseline =
     (let n_cur = (if unat (player_count current) < kMaxPlayers then unat (player_count current) else kMaxPlayers);
          n_base = (if unat (player_count baseline) < kMaxPlayers then unat (player_count baseline) else kMaxPlayers)
      in if roster_changed current baseline then (if n_cur > n_base then n_cur else n_base) else n_cur)"

definition slot_changed :: "world_snapshot \<Rightarrow> world_snapshot \<Rightarrow> nat \<Rightarrow> bool" where
  "slot_changed current baseline i \<longleftrightarrow> roster_changed current baseline
     \<or> player_differs (snap_players current ! i) (snap_players baseline ! i)"

definition delta_pchange :: "world_snapshot \<Rightarrow> world_snapshot \<Rightarrow> u16" where
  "delta_pchange current baseline =
     fold (\<lambda>i pc. if slot_changed current baseline i then pc OR push_bit i 1 else pc)
       [0..<delta_slots current baseline] 0"

definition delta_field_mask :: "bool \<Rightarrow> player_state \<Rightarrow> player_state \<Rightarrow> u8" where
  "delta_field_mask full p b =
     (if full \<or> \<not> wire_pos_eq (position (ps_motion p)) (position (ps_motion b)) then 1 else 0)
     OR (if full \<or> ps_aim_angle p \<noteq> ps_aim_angle b then 2 else 0)
     OR (if full \<or> ps_health p \<noteq> ps_health b then 4 else 0)
     OR (if full \<or> pack_player_flags p \<noteq> pack_player_flags b then 8 else 0)"

definition write_if :: "bool \<Rightarrow> (byte_writer, unit) state \<Rightarrow> (byte_writer, unit) state" where
  "write_if b m = (if b then m else State_Monad.return ())"

definition encode_delta_slot :: "bool \<Rightarrow> player_state \<Rightarrow> player_state \<Rightarrow> (byte_writer, unit) state" where
  "encode_delta_slot full p b = (let fm = delta_field_mask full p b in do {
     writer_u8 (ps_id p);
     writer_u8 fm;
     write_if (fm AND 1 \<noteq> 0) (write_vec2 (position (ps_motion p)));
     write_if (fm AND 2 \<noteq> 0) (writer_u16 (ps_aim_angle p));
     write_if (fm AND 4 \<noteq> 0) (writer_u8 (ps_health p));
     write_if (fm AND 8 \<noteq> 0) (writer_u8 (pack_player_flags p))
   })"

definition encode_delta_snapshot :: "world_snapshot \<Rightarrow> world_snapshot \<Rightarrow> (byte_writer, unit) state" where
  "encode_delta_snapshot current baseline =
     (let hm = delta_header_mask current baseline; pchange = delta_pchange current baseline in do {
     writer_u32 (last_input_seq current);
     writer_u8 (baseline_ticks_ago current baseline);
     writer_u8 hm;
     write_if (hm AND 1 \<noteq> 0) (writer_u8 (score_red current));
     write_if (hm AND 2 \<noteq> 0) (writer_u8 (score_blue current));
     write_if (hm AND 4 \<noteq> 0) (writer_u16 (seconds_remaining current));
     write_if (hm AND 8 \<noteq> 0) (do {
       writer_u8 (flag_state_byte (flag_state_red current));
       writer_u8 (flag_carrier_red current) });
     write_if (hm AND 16 \<noteq> 0) (do {
       writer_u8 (flag_state_byte (flag_state_blue current));
       writer_u8 (flag_carrier_blue current) });
     write_if (hm AND 32 \<noteq> 0) (writer_u8 (player_count current));
     writer_u16 pchange;
     write_all (\<lambda>i. write_if (pchange AND push_bit i 1 \<noteq> 0)
         (encode_delta_slot (roster_changed current baseline) (snap_players current ! i)
            (snap_players baseline ! i)))
       [0..<delta_slots current baseline]
   })"

section \<open>The decoder\<close>

text \<open>\<open>if (mask bit) field = r.read();\<close>\<close>

definition read_if :: "bool \<Rightarrow> (byte_reader, 'a) state \<Rightarrow> ('a \<Rightarrow> 'o \<Rightarrow> 'o) \<Rightarrow> 'o \<Rightarrow> (byte_reader, 'o) state" where
  "read_if b d put out = (if b then do { v \<leftarrow> d; State_Monad.return (put v out) } else State_Monad.return out)"

text \<open>
  The flag blocks: state byte, carrier byte, then the \<open>ok\<close> check and the validation, which is an
  early \<open>return false\<close>. \<open>put st c\<close> stores the state and the carrier of one flag.
\<close>

definition decode_delta_flag ::
    "bool \<Rightarrow> (flag_state \<Rightarrow> u8 \<Rightarrow> world_snapshot \<Rightarrow> world_snapshot) \<Rightarrow> world_snapshot
     \<Rightarrow> (byte_reader, world_snapshot option) state" where
  "decode_delta_flag present put out =
     (if present then do {
        state_raw \<leftarrow> reader_u8;
        carrier \<leftarrow> reader_u8;
        ok \<leftarrow> reader_ok;
        if \<not> ok then State_Monad.return None
        else State_Monad.return (map_option (\<lambda>st. put st carrier out) (decode_flag_state state_raw))
      } else State_Monad.return (Some out))"

definition decode_delta_count :: "bool \<Rightarrow> world_snapshot \<Rightarrow> (byte_reader, world_snapshot option) state" where
  "decode_delta_count present out =
     (if present then do {
        count \<leftarrow> reader_u8;
        ok \<leftarrow> reader_ok;
        if \<not> ok \<or> unat count > kMaxPlayers then State_Monad.return None
        else State_Monad.return (Some (out\<lparr>player_count := count\<rparr>))
      } else State_Monad.return (Some out))"

definition put_pos :: "vec2 \<Rightarrow> player_state \<Rightarrow> player_state" where
  "put_pos v p = p\<lparr>ps_motion := (ps_motion p)\<lparr>position := v\<rparr>\<rparr>"

definition decode_delta_slot :: "u16 \<Rightarrow> nat \<Rightarrow> world_snapshot \<Rightarrow> (byte_reader, world_snapshot option) state" where
  "decode_delta_slot pchange i out =
     (if pchange AND push_bit i 1 = 0 then State_Monad.return (Some out)
      else do {
        pid \<leftarrow> reader_u8;
        fm \<leftarrow> reader_u8;
        ok \<leftarrow> reader_ok;
        if \<not> ok then State_Monad.return None
        else if fm AND NOT 0x0F \<noteq> 0 then State_Monad.return None
        else do {
          p \<leftarrow> read_if (fm AND 1 \<noteq> 0) read_vec2 put_pos ((snap_players out ! i)\<lparr>ps_id := pid\<rparr>);
          p \<leftarrow> read_if (fm AND 2 \<noteq> 0) reader_u16 (\<lambda>a p. p\<lparr>ps_aim_angle := a\<rparr>) p;
          p \<leftarrow> read_if (fm AND 4 \<noteq> 0) reader_u8 (\<lambda>h p. p\<lparr>ps_health := h\<rparr>) p;
          p \<leftarrow> read_if (fm AND 8 \<noteq> 0) reader_u8 unpack_player_flags p;
          ok \<leftarrow> reader_ok;
          if \<not> ok then State_Monad.return None
          else State_Monad.return (Some (out\<lparr>snap_players := (snap_players out)[i := p]\<rparr>))
        }
      })"

text \<open>\<open>Some out\<close> is the new cache, \<open>None\<close> leaves the cache as it was.\<close>

definition decode_delta_snapshot :: "u32 \<Rightarrow> world_snapshot \<Rightarrow> (byte_reader, world_snapshot option) state" where
  "decode_delta_snapshot current_tick cache = do {
     seq \<leftarrow> reader_u32;
     ticks_ago \<leftarrow> reader_u8;
     hm \<leftarrow> reader_u8;
     ok \<leftarrow> reader_ok;
     if \<not> ok then State_Monad.return None
     else if hm AND NOT 0x3F \<noteq> 0 then State_Monad.return None
     else if ucast ticks_ago > current_tick then State_Monad.return None
     else if snap_tick cache \<noteq> current_tick - ucast ticks_ago then State_Monad.return None
     else do {
       out \<leftarrow> read_if (hm AND 1 \<noteq> 0) reader_u8 (\<lambda>v s. s\<lparr>score_red := v\<rparr>) (cache\<lparr>last_input_seq := seq\<rparr>);
       out \<leftarrow> read_if (hm AND 2 \<noteq> 0) reader_u8 (\<lambda>v s. s\<lparr>score_blue := v\<rparr>) out;
       out \<leftarrow> read_if (hm AND 4 \<noteq> 0) reader_u16 (\<lambda>v s. s\<lparr>seconds_remaining := v\<rparr>) out;
       res \<leftarrow> decode_delta_flag (hm AND 8 \<noteq> 0) (\<lambda>st c s. s\<lparr>flag_state_red := st, flag_carrier_red := c\<rparr>) out;
       case res of None \<Rightarrow> State_Monad.return None | Some out \<Rightarrow> do {
       res \<leftarrow> decode_delta_flag (hm AND 16 \<noteq> 0) (\<lambda>st c s. s\<lparr>flag_state_blue := st, flag_carrier_blue := c\<rparr>) out;
       case res of None \<Rightarrow> State_Monad.return None | Some out \<Rightarrow> do {
       res \<leftarrow> decode_delta_count (hm AND 32 \<noteq> 0) out;
       case res of None \<Rightarrow> State_Monad.return None | Some out \<Rightarrow> do {
       pchange \<leftarrow> reader_u16;
       ok \<leftarrow> reader_ok;
       if \<not> ok then State_Monad.return None
       else if unat pchange \<ge> 2 ^ kMaxPlayers then State_Monad.return None
       else do {
         res \<leftarrow> read_slots 0 kMaxPlayers (decode_delta_slot pchange) out;
         case res of None \<Rightarrow> State_Monad.return None
         | Some out \<Rightarrow> State_Monad.return (Some (out\<lparr>snap_tick := current_tick\<rparr>))
       } } } }
     }
   }"

section \<open>Masks\<close>

lemma header_mask_bits:
  "delta_header_mask c b AND 1 \<noteq> 0 \<longleftrightarrow> score_red c \<noteq> score_red b"
  "delta_header_mask c b AND 2 \<noteq> 0 \<longleftrightarrow> score_blue c \<noteq> score_blue b"
  "delta_header_mask c b AND 4 \<noteq> 0 \<longleftrightarrow> seconds_remaining c \<noteq> seconds_remaining b"
  "delta_header_mask c b AND 8 \<noteq> 0 \<longleftrightarrow>
     flag_state_red c \<noteq> flag_state_red b \<or> flag_carrier_red c \<noteq> flag_carrier_red b"
  "delta_header_mask c b AND 16 \<noteq> 0 \<longleftrightarrow>
     flag_state_blue c \<noteq> flag_state_blue b \<or> flag_carrier_blue c \<noteq> flag_carrier_blue b"
  "delta_header_mask c b AND 32 \<noteq> 0 \<longleftrightarrow> roster_changed c b"
  "delta_header_mask c b AND NOT 0x3F = 0"
  unfolding delta_header_mask_def by auto

lemma field_mask_bits:
  "delta_field_mask full p b AND 1 \<noteq> 0 \<longleftrightarrow> full \<or> \<not> wire_pos_eq (position (ps_motion p)) (position (ps_motion b))"
  "delta_field_mask full p b AND 2 \<noteq> 0 \<longleftrightarrow> full \<or> ps_aim_angle p \<noteq> ps_aim_angle b"
  "delta_field_mask full p b AND 4 \<noteq> 0 \<longleftrightarrow> full \<or> ps_health p \<noteq> ps_health b"
  "delta_field_mask full p b AND 8 \<noteq> 0 \<longleftrightarrow> full \<or> pack_player_flags p \<noteq> pack_player_flags b"
  "delta_field_mask full p b AND NOT 0x0F = 0"
  unfolding delta_field_mask_def by auto

lemma bit_fold_or:
  "bit (fold (\<lambda>i pc. if P i then pc OR push_bit i 1 else pc) [0..<n] (0 :: u16)) j
     \<longleftrightarrow> j < n \<and> j < 16 \<and> P j"
  by (induction n) (auto simp: bit_simps bit_1_iff less_Suc_eq)

lemma delta_slots_le: "delta_slots c b \<le> kMaxPlayers"
  by (auto simp: delta_slots_def Let_def)

lemma pchange_bit:
  "delta_pchange c b AND push_bit i 1 \<noteq> 0 \<longleftrightarrow> i < delta_slots c b \<and> slot_changed c b i"
  using delta_slots_le [of c b]
  unfolding bit_iff_and_push_bit_not_eq_0 [symmetric] delta_pchange_def bit_fold_or
  by (auto simp: kMaxPlayers_def)

lemma pchange_bound: "unat (delta_pchange c b) < 2 ^ kMaxPlayers"
proof -
  have "take_bit kMaxPlayers (delta_pchange c b) = delta_pchange c b"
    using delta_slots_le [of c b] by (auto intro!: bit_eqI simp: bit_take_bit_iff delta_pchange_def bit_fold_or)
  then show ?thesis by (metis take_bit_nat_eq_self_iff unsigned_take_bit_eq)
qed

section \<open>What is sent and what is read\<close>

definition wire_delta_slot :: "bool \<Rightarrow> player_state \<Rightarrow> player_state \<Rightarrow> u8 list" where [wire_defs]:
  "wire_delta_slot full p b = (let fm = delta_field_mask full p b in
     ps_id p # fm
     # (if fm AND 1 \<noteq> 0 then wire_vec (position (ps_motion p)) else [])
     @ (if fm AND 2 \<noteq> 0 then be16 (ps_aim_angle p) else [])
     @ (if fm AND 4 \<noteq> 0 then [ps_health p] else [])
     @ (if fm AND 8 \<noteq> 0 then [pack_player_flags p] else []))"

definition wire_delta_slots :: "world_snapshot \<Rightarrow> world_snapshot \<Rightarrow> nat \<Rightarrow> u8 list" where
  "wire_delta_slots c b i = (if delta_pchange c b AND push_bit i 1 \<noteq> 0
     then wire_delta_slot (roster_changed c b) (snap_players c ! i) (snap_players b ! i) else [])"

definition wire_delta_snapshot :: "world_snapshot \<Rightarrow> world_snapshot \<Rightarrow> u8 list" where [wire_defs]:
  "wire_delta_snapshot c b = (let hm = delta_header_mask c b in
     be32 (last_input_seq c) @ baseline_ticks_ago c b # hm
     # (if hm AND 1 \<noteq> 0 then [score_red c] else [])
     @ (if hm AND 2 \<noteq> 0 then [score_blue c] else [])
     @ (if hm AND 4 \<noteq> 0 then be16 (seconds_remaining c) else [])
     @ (if hm AND 8 \<noteq> 0 then [flag_state_byte (flag_state_red c), flag_carrier_red c] else [])
     @ (if hm AND 16 \<noteq> 0 then [flag_state_byte (flag_state_blue c), flag_carrier_blue c] else [])
     @ (if hm AND 32 \<noteq> 0 then [player_count c] else [])
     @ be16 (delta_pchange c b)
     @ concat (map (wire_delta_slots c b) [0..<delta_slots c b]))"

lemma emits_write_if [codec_intros]:
  "emits m bs \<Longrightarrow> emits (write_if cond m) (if cond then bs else [])"
  by (simp add: write_if_def emits_return)

lemma emits_u8_pair [codec_intros]: "emits (writer_u8 a \<bind> (\<lambda>_. writer_u8 b)) [a, b]"
  using emits_bind [OF emits_u8 emits_u8, of a b] by simp

lemma emits_delta_slot [codec_intros]: "emits (encode_delta_slot full p b) (wire_delta_slot full p b)"
  unfolding encode_delta_slot_def wire_delta_slot_def Let_def by (intro codec_intros)

lemma emits_delta_snapshot: "emits (encode_delta_snapshot c b) (wire_delta_snapshot c b)"
  unfolding encode_delta_snapshot_def wire_delta_snapshot_def wire_delta_slots_def Let_def
  by (intro codec_intros)

lemma reads_read_if [codec_intros]:
  "reads d bs v \<Longrightarrow> reads (read_if cond d put out) (if cond then bs else []) (if cond then put v out else out)"
  by (auto simp: read_if_def intro: reads_return reads_bind_last)

lemma disciplined_read_if [codec_intros]: "disciplined d \<Longrightarrow> disciplined (read_if cond d put out)"
  by (auto simp: read_if_def intro!: codec_intros)

lemma reads_delta_flag:
  "reads (decode_delta_flag cond put out) (if cond then [flag_state_byte st, ca] else [])
     (Some (if cond then put st ca out else out))"
  by (auto simp: decode_delta_flag_def intro!: reads_return reads_bind_u8 reads_bind_ok reads_return_eq)

lemma reads_delta_count:
  "unat n \<le> kMaxPlayers \<Longrightarrow> reads (decode_delta_count cond out) (if cond then [n] else [])
     (Some (if cond then out\<lparr>player_count := n\<rparr> else out))"
  by (auto simp: decode_delta_count_def intro!: reads_return reads_bind_u8 reads_bind_ok reads_return_eq)

text \<open>The record one slot of a delta leaves in the cache.\<close>

definition apply_delta_slot :: "bool \<Rightarrow> player_state \<Rightarrow> player_state \<Rightarrow> player_state \<Rightarrow> player_state" where
  "apply_delta_slot full p b q =
     (let fm = delta_field_mask full p b;
          q = q\<lparr>ps_id := ps_id p\<rparr>;
          q = (if fm AND 1 \<noteq> 0 then put_pos (norm_vec (position (ps_motion p))) q else q);
          q = (if fm AND 2 \<noteq> 0 then q\<lparr>ps_aim_angle := ps_aim_angle p\<rparr> else q);
          q = (if fm AND 4 \<noteq> 0 then q\<lparr>ps_health := ps_health p\<rparr> else q)
      in (if fm AND 8 \<noteq> 0 then unpack_player_flags (pack_player_flags p) q else q))"

definition delta_slot_result :: "world_snapshot \<Rightarrow> world_snapshot \<Rightarrow> nat \<Rightarrow> player_state \<Rightarrow> player_state" where
  "delta_slot_result c b i q = (if delta_pchange c b AND push_bit i 1 \<noteq> 0
     then apply_delta_slot (roster_changed c b) (snap_players c ! i) (snap_players b ! i) q else q)"

lemma reads_delta_slot:
  "reads (decode_delta_slot (delta_pchange c b) i out) (wire_delta_slots c b i)
     (Some (out\<lparr>snap_players := (snap_players out)[i := delta_slot_result c b i (snap_players out ! i)]\<rparr>))"
proof (cases "delta_pchange c b AND push_bit i 1 = 0")
  case True
  then show ?thesis
    by (simp add: decode_delta_slot_def wire_delta_slots_def delta_slot_result_def reads_return)
next
  case False
  let ?full = "roster_changed c b" and ?p = "snap_players c ! i" and ?b = "snap_players b ! i"
  have "reads (decode_delta_slot (delta_pchange c b) i out) (wire_delta_slot ?full ?p ?b)
     (Some (out\<lparr>snap_players := (snap_players out)[i := apply_delta_slot ?full ?p ?b (snap_players out ! i)]\<rparr>))"
    unfolding decode_delta_slot_def wire_delta_slot_def apply_delta_slot_def Let_def
    apply (simp only: False if_False)
    apply (rule reads_bind_u8, rule reads_bind_u8, rule reads_bind_ok)
    apply (simp only: simp_thms if_False field_mask_bits(5))
    apply (rule reads_bind [OF reads_read_if [OF reads_vec2]], rule reads_bind [OF reads_read_if [OF reads_u16]],
        rule reads_bind [OF reads_read_if [OF reads_u8]], rule reads_bind_last [OF reads_read_if [OF reads_u8]])
    apply (rule reads_bind_ok)
    apply (simp only: simp_thms if_False)
    apply (rule reads_return)
    done
  then show ?thesis using False by (simp add: wire_delta_slots_def delta_slot_result_def)
qed

lemma fold_delta_slots:
  assumes "n \<le> length (snap_players out)"
  shows "fold (\<lambda>j out. out\<lparr>snap_players := (snap_players out)[j := g j (snap_players out ! j)]\<rparr>) [0..<n] out
   = out\<lparr>snap_players := map (\<lambda>j. g j (snap_players out ! j)) [0..<n] @ drop n (snap_players out)\<rparr>"
  using assms
  by (induction n) (auto simp: nth_append list_update_append Cons_nth_drop_Suc [symmetric])

lemma wire_delta_slots_beyond: "delta_slots c b \<le> i \<Longrightarrow> wire_delta_slots c b i = []"
  using pchange_bit [of c b i] by (simp add: wire_delta_slots_def)

lemma concat_delta_slots:
  "concat (map (wire_delta_slots c b) [0..<kMaxPlayers]) = concat (map (wire_delta_slots c b) [0..<delta_slots c b])"
proof -
  have "[0..<kMaxPlayers] = [0..<delta_slots c b] @ [delta_slots c b..<kMaxPlayers]"
    using delta_slots_le by (metis le0 upt_add_eq_append le_add_diff_inverse)
  then show ?thesis by (simp add: wire_delta_slots_beyond)
qed

text \<open>The cache a delta leaves behind, field by field.\<close>

definition apply_delta :: "world_snapshot \<Rightarrow> world_snapshot \<Rightarrow> world_snapshot \<Rightarrow> world_snapshot" where
  "apply_delta c b cache =
     (let hm = delta_header_mask c b;
          s = cache\<lparr>last_input_seq := last_input_seq c\<rparr>;
          s = (if hm AND 1 \<noteq> 0 then s\<lparr>score_red := score_red c\<rparr> else s);
          s = (if hm AND 2 \<noteq> 0 then s\<lparr>score_blue := score_blue c\<rparr> else s);
          s = (if hm AND 4 \<noteq> 0 then s\<lparr>seconds_remaining := seconds_remaining c\<rparr> else s);
          s = (if hm AND 8 \<noteq> 0 then s\<lparr>flag_state_red := flag_state_red c, flag_carrier_red := flag_carrier_red c\<rparr> else s);
          s = (if hm AND 16 \<noteq> 0 then s\<lparr>flag_state_blue := flag_state_blue c, flag_carrier_blue := flag_carrier_blue c\<rparr> else s);
          s = (if hm AND 32 \<noteq> 0 then s\<lparr>player_count := player_count c\<rparr> else s)
      in s\<lparr>snap_players := map (\<lambda>j. delta_slot_result c b j (snap_players s ! j)) [0..<kMaxPlayers],
           snap_tick := snap_tick c\<rparr>)"

lemma reads_delta_slots:
  assumes "length (snap_players out) = kMaxPlayers"
  shows "reads (read_slots 0 kMaxPlayers (decode_delta_slot (delta_pchange c b)) out)
     (concat (map (wire_delta_slots c b) [0..<delta_slots c b]))
     (Some (out\<lparr>snap_players := map (\<lambda>j. delta_slot_result c b j (snap_players out ! j)) [0..<kMaxPlayers]\<rparr>))"
proof -
  have "reads (read_slots 0 kMaxPlayers (decode_delta_slot (delta_pchange c b)) out)
      (concat (map (wire_delta_slots c b) [0..<0 + kMaxPlayers]))
      (Some (fold (\<lambda>j out. out\<lparr>snap_players := (snap_players out)[j := delta_slot_result c b j (snap_players out ! j)]\<rparr>)
         [0..<0 + kMaxPlayers] out))"
    by (rule reads_slots) (rule reads_delta_slot)
  then show ?thesis
    using fold_delta_slots [of kMaxPlayers out "delta_slot_result c b"] assms
    by (simp add: concat_delta_slots)
qed

text \<open>
  The tick arithmetic of the loss detection: with a baseline at most 255 ticks old the decoder
  recomputes the baseline tick from the header tick and the byte it received.
\<close>

lemma ticks_ago_exact:
  assumes "snap_tick b \<le> snap_tick c" "snap_tick c - snap_tick b \<le> 255"
  shows "ucast (baseline_ticks_ago c b) = snap_tick c - snap_tick b"
proof -
  have "unat (snap_tick c - snap_tick b) \<le> 255"
    using assms(2) by (simp add: word_le_nat_alt)
  then have "unat (ucast (ucast (snap_tick c - snap_tick b) :: u8) :: u32) = unat (snap_tick c - snap_tick b)"
    by (simp add: unsigned_ucast_eq unsigned_take_bit_eq take_bit_nat_eq_self)
  moreover have "\<not> 255 < snap_tick c - snap_tick b" using assms(2) by (simp only: not_less)
  ultimately show ?thesis
    using assms(1) by (simp only: baseline_ticks_ago_def Let_def word_unat_eq_iff if_True if_False)
qed

lemma reads_delta_snapshot:
  assumes tick: "snap_tick cache = snap_tick b" "snap_tick b \<le> snap_tick c" "snap_tick c - snap_tick b \<le> 255"
    and len: "length (snap_players cache) = kMaxPlayers" and count: "unat (player_count c) \<le> kMaxPlayers"
  shows "reads (decode_delta_snapshot (snap_tick c) cache) (wire_delta_snapshot c b) (Some (apply_delta c b cache))"
proof -
  note ago = ticks_ago_exact [OF tick(2,3)]
  have "\<not> (ucast (baseline_ticks_ago c b) > snap_tick c)"
    unfolding ago using tick(2) by (simp add: not_less word_sub_le)
  moreover have "snap_tick cache = snap_tick c - ucast (baseline_ticks_ago c b)"
    unfolding ago using tick(1) by simp
  ultimately have guards: "(snap_tick c < ucast (baseline_ticks_ago c b)) = False"
      "(snap_tick cache \<noteq> snap_tick c - ucast (baseline_ticks_ago c b)) = False" by simp_all
  have small: "(2 ^ kMaxPlayers \<le> unat (delta_pchange c b)) = False"
    using pchange_bound [of c b] by simp
  show ?thesis
    unfolding decode_delta_snapshot_def wire_delta_snapshot_def apply_delta_def Let_def
    apply (rule reads_bind [OF reads_u32], rule reads_bind_u8, rule reads_bind_u8, rule reads_bind_ok)
    apply (simp only: simp_thms if_False header_mask_bits(7) guards)
    apply (rule reads_bind [OF reads_read_if [OF reads_u8]], rule reads_bind [OF reads_read_if [OF reads_u8]],
        rule reads_bind [OF reads_read_if [OF reads_u16]])
    apply (rule reads_bind [OF reads_delta_flag], simp only: option.case)
    apply (rule reads_bind [OF reads_delta_flag], simp only: option.case)
    apply (rule reads_bind [OF reads_delta_count [OF count]], simp only: option.case)
    apply (rule reads_bind [OF reads_u16], rule reads_bind_ok)
    apply (simp only: simp_thms if_False small)
    apply (rule reads_bind_last [OF reads_delta_slots])
     apply (simp add: len)
    apply (simp only: option.case)
    apply (rule reads_return_eq)
    apply simp
    done
qed

section \<open>Refinement: a cache that agrees with the publisher\<close>

text \<open>
  \<open>cache_agrees cache s\<close>: the client's cache shows the published snapshot \<open>s\<close> at wire precision.
  The slots beyond the player count are arbitrary (no reader looks at them) except that no
  velocity is ever stored in a cache.
\<close>

definition cache_agrees :: "world_snapshot \<Rightarrow> world_snapshot \<Rightarrow> bool" where
  "cache_agrees cache s \<longleftrightarrow>
     snap_tick cache = snap_tick s \<and> player_count cache = player_count s
     \<and> flag_carrier_red cache = flag_carrier_red s \<and> flag_carrier_blue cache = flag_carrier_blue s
     \<and> flag_state_red cache = flag_state_red s \<and> flag_state_blue cache = flag_state_blue s
     \<and> score_red cache = score_red s \<and> score_blue cache = score_blue s
     \<and> seconds_remaining cache = seconds_remaining s
     \<and> length (snap_players cache) = kMaxPlayers
     \<and> (\<forall>i < kMaxPlayers. velocity (ps_motion (snap_players cache ! i)) = Vec2Fixed 0 0)
     \<and> (\<forall>i < unat (player_count s). snap_players cache ! i = norm_player (snap_players s ! i))"

lemma wire_pos_eq_norm: "wire_pos_eq a b \<Longrightarrow> norm_vec a = norm_vec b"
  by (simp add: wire_pos_eq_def norm_vec_def wire_coord_def)

lemma pack_flags_inj:
  assumes "pack_player_flags p = pack_player_flags b"
  shows "ps_alive p = ps_alive b" "ps_carrying_flag p = ps_carrying_flag b" "ps_team p = ps_team b"
    "ps_firing p = ps_firing b"
proof -
  have "unpack_player_flags (pack_player_flags p) q = unpack_player_flags (pack_player_flags b) q" for q
    using assms by simp
  from this [of p, unfolded unpack_pack_flags] show "ps_alive p = ps_alive b"
    "ps_carrying_flag p = ps_carrying_flag b" "ps_team p = ps_team b" "ps_firing p = ps_firing b"
    by (cases p; simp)+
qed

lemma apply_delta_slot_velocity [simp]:
  "velocity (ps_motion (apply_delta_slot full p b q)) = velocity (ps_motion q)"
  by (simp add: apply_delta_slot_def Let_def put_pos_def unpack_player_flags_def)

text \<open>A full slot overwrites everything but the velocity.\<close>

lemma apply_full_slot:
  "velocity (ps_motion q) = Vec2Fixed 0 0 \<Longrightarrow> apply_delta_slot True p b q = norm_player p"
  by (simp add: apply_delta_slot_def Let_def field_mask_bits put_pos_def unpack_pack_flags norm_player_def
      player_motion.equality)

text \<open>A partial slot turns the normalised baseline record into the normalised current one.\<close>

lemma apply_partial_slot: "apply_delta_slot False p b (norm_player b) = norm_player p"
proof -
  have pos: "wire_pos_eq (position (ps_motion p)) (position (ps_motion b)) \<Longrightarrow>
      norm_vec (position (ps_motion b)) = norm_vec (position (ps_motion p))"
    using wire_pos_eq_norm by metis
  have flags: "pack_player_flags p = pack_player_flags b \<Longrightarrow>
      ps_alive b = ps_alive p \<and> ps_carrying_flag b = ps_carrying_flag p \<and> ps_team b = ps_team p
        \<and> ps_firing b = ps_firing p"
    using pack_flags_inj by metis
  show ?thesis
    by (rule player_state.equality)
      (use pos flags in \<open>auto simp: apply_delta_slot_def Let_def field_mask_bits put_pos_def
         unpack_pack_flags norm_player_def\<close>)
qed

lemma same_slot: "\<not> player_differs p b \<Longrightarrow> norm_player b = norm_player p"
  by (rule player_state.equality)
    (use wire_pos_eq_norm pack_flags_inj [of p b] in \<open>auto simp: player_differs_def norm_player_def\<close>)

lemma delta_slot_result_current:
  assumes agree: "cache_agrees cache b" and i: "i < unat (player_count c)"
    and wf: "wf_snapshot c" "wf_snapshot b"
  shows "delta_slot_result c b i (snap_players cache ! i) = norm_player (snap_players c ! i)"
proof (cases "roster_changed c b")
  case True
  have "i < delta_slots c b" using i wf by (auto simp: delta_slots_def Let_def True wf_snapshot_def)
  then have "delta_pchange c b AND push_bit i 1 \<noteq> 0"
    unfolding pchange_bit by (simp add: slot_changed_def True)
  then show ?thesis
    using agree i wf(1) True by (simp add: delta_slot_result_def apply_full_slot cache_agrees_def wf_snapshot_def)
next
  case False
  then have n: "unat (player_count b) = unat (player_count c)" by (simp add: roster_changed_def)
  have "i < delta_slots c b" using i wf by (auto simp: delta_slots_def Let_def False wf_snapshot_def)
  moreover have "snap_players cache ! i = norm_player (snap_players b ! i)"
    using agree i n by (simp add: cache_agrees_def)
  ultimately show ?thesis
    using False unfolding delta_slot_result_def pchange_bit
    by (auto simp: slot_changed_def apply_partial_slot same_slot)
qed

lemma apply_delta_agrees:
  assumes agree: "cache_agrees cache b" and wf: "wf_snapshot c" "wf_snapshot b"
  shows "cache_agrees (apply_delta c b cache) c" "last_input_seq (apply_delta c b cache) = last_input_seq c"
proof -
  have players: "snap_players (apply_delta c b cache)
      = map (\<lambda>j. delta_slot_result c b j (snap_players cache ! j)) [0..<kMaxPlayers]"
    by (simp add: apply_delta_def Let_def)
  have vel: "velocity (ps_motion (snap_players (apply_delta c b cache) ! i)) = Vec2Fixed 0 0"
    if "i < kMaxPlayers" for i
    using agree that by (simp add: players cache_agrees_def delta_slot_result_def)
  have slots: "snap_players (apply_delta c b cache) ! i = norm_player (snap_players c ! i)"
    if "i < unat (player_count c)" for i
    using delta_slot_result_current [OF agree that wf] that wf(1) by (simp add: players wf_snapshot_def)
  show "last_input_seq (apply_delta c b cache) = last_input_seq c"
    by (simp add: apply_delta_def Let_def)
  have header: "snap_tick (apply_delta c b cache) = snap_tick c"
    "player_count (apply_delta c b cache) = player_count c"
    "flag_carrier_red (apply_delta c b cache) = flag_carrier_red c"
    "flag_carrier_blue (apply_delta c b cache) = flag_carrier_blue c"
    "flag_state_red (apply_delta c b cache) = flag_state_red c"
    "flag_state_blue (apply_delta c b cache) = flag_state_blue c"
    "score_red (apply_delta c b cache) = score_red c"
    "score_blue (apply_delta c b cache) = score_blue c"
    "seconds_remaining (apply_delta c b cache) = seconds_remaining c"
    using agree
    by (auto simp: apply_delta_def Let_def header_mask_bits cache_agrees_def roster_changed_def)
  show "cache_agrees (apply_delta c b cache) c"
    unfolding cache_agrees_def using header vel slots by (simp add: players)
qed

lemma full_snapshot_agrees:
  assumes "wf_snapshot s"
  shows "cache_agrees (norm_world_snapshot s) s"
  using assms
  by (auto simp: cache_agrees_def norm_world_snapshot_def wf_snapshot_def nth_append norm_player_def
      default_snapshot_def default_player_state_def default_motion_def)

text \<open>A decoder that does not hold the baseline drops the delta, whatever follows the header.\<close>

lemma reads_delta_wrong_baseline:
  assumes "snap_tick cache \<noteq> tick - ucast ago"
  shows "reads (decode_delta_snapshot tick cache) (be32 seq @ [ago, hm]) None"
  unfolding decode_delta_snapshot_def
  apply (rule reads_bind [OF reads_u32], rule reads_bind_u8, rule reads_bind_u8, rule reads_bind_ok)
  apply (use assms in \<open>auto intro: reads_return\<close>)
  done

section \<open>Size of a delta\<close>

lemma length_delta_slot: "length (wire_delta_slot full p b) \<le> 10"
  by (simp add: wire_delta_slot_def Let_def)

lemma length_delta_image: "length (wire_delta_snapshot c b) \<le> 117"
proof -
  have slot: "length (wire_delta_slots c b i) \<le> 10" for i
    using length_delta_slot by (simp add: wire_delta_slots_def)
  have "length (concat (map (wire_delta_slots c b) [0..<n])) \<le> 10 * n" for n
  proof (induction n)
    case (Suc n)
    then show ?case using slot [of n] by simp
  qed simp
  from this [of "delta_slots c b"] have "length (concat (map (wire_delta_slots c b) [0..<delta_slots c b])) \<le> 100"
    using delta_slots_le [of c b] by (simp add: config_defs)
  then show ?thesis by (simp add: wire_delta_snapshot_def Let_def)
qed

section \<open>Properties\<close>

text \<open>
  C2 (refinement): a client whose cache shows the baseline ends up, after decoding the delta, with
  a cache that shows the current snapshot, field by field and slot by slot, whatever changed between
  the two (players joining and leaving included), with the acknowledged input of the current one.
\<close>

theorem delta_brings_cache_up_to_date:
  assumes "cache_agrees cache b" "wf_snapshot c" "wf_snapshot b"
    and "snap_tick b \<le> snap_tick c" "snap_tick c - snap_tick b \<le> 255"
    and "117 \<le> cap"
  shows "\<exists>cache'. received (decode_delta_snapshot (snap_tick c) cache) (sent_bytes cap (encode_delta_snapshot c b))
      = Some cache' \<and> cache_agrees cache' c \<and> last_input_seq cache' = last_input_seq c"
proof -
  have w: "sent_bytes cap (encode_delta_snapshot c b) = wire_delta_snapshot c b"
    using emits_fits [OF emits_delta_snapshot, of "ByteWriter (replicate cap 0) cap" c b] assms(6)
      length_delta_image [of c b]
    by (simp add: sent_bytes_def ByteWriter_def writer_wf_def written_def)
  have "snap_tick cache = snap_tick b" "length (snap_players cache) = kMaxPlayers"
    using assms(1) by (simp_all add: cache_agrees_def)
  then have "reads (decode_delta_snapshot (snap_tick c) cache) (wire_delta_snapshot c b) (Some (apply_delta c b cache))"
    using assms(2,4,5) by (intro reads_delta_snapshot) (simp_all add: wf_snapshot_def)
  then have "received (decode_delta_snapshot (snap_tick c) cache) (wire_delta_snapshot c b) = Some (apply_delta c b cache)"
    using remaining_ByteReader(1) [of "wire_delta_snapshot c b"] unfolding reads_def received_def by simp
  then show ?thesis using apply_delta_agrees [OF assms(1-3)] w by auto
qed

theorem delta_brings_cache_up_to_date_witness:
  "\<exists>cache'. received (decode_delta_snapshot 1 (norm_world_snapshot default_snapshot))
      (sent_bytes 512 (encode_delta_snapshot (default_snapshot\<lparr>snap_tick := 1, score_red := 2\<rparr>) default_snapshot))
      = Some cache' \<and> cache_agrees cache' (default_snapshot\<lparr>snap_tick := 1, score_red := 2\<rparr>)"
proof -
  let ?c = "default_snapshot\<lparr>snap_tick := 1, score_red := 2\<rparr>"
  have "wf_snapshot ?c" "snap_tick ?c = 1" "snap_tick default_snapshot \<le> snap_tick ?c"
      "snap_tick ?c - snap_tick default_snapshot \<le> 255"
    using wf_default_snapshot by (simp_all add: wf_snapshot_def) (simp_all add: default_snapshot_def)
  then show ?thesis
    using delta_brings_cache_up_to_date [OF full_snapshot_agrees [OF wf_default_snapshot], of ?c 512]
      wf_default_snapshot by auto
qed

text \<open>
  A delta whose baseline is not the snapshot in the cache is dropped: after the header
  the decoder returns nothing, so a lost datagram never corrupts the cache.
\<close>

lemma delta_without_baseline_dropped:
  assumes "snap_tick cache \<noteq> tick - ucast ago"
  shows "received (decode_delta_snapshot tick cache) (be32 seq @ [ago, hm] @ body) = None"
proof -
  let ?bs = "be32 seq @ [ago, hm]"
  have "run_state (decode_delta_snapshot tick cache) (ByteReader (?bs @ body) (length (?bs @ body)))
      = (None, advance (length ?bs) (ByteReader (?bs @ body) (length (?bs @ body))))"
    using reads_delta_wrong_baseline [OF assms, of seq hm] remaining_ByteReader unfolding reads_def by blast
  then show ?thesis by (simp add: received_def)
qed

end
