(* ===== verification/Sim.thy ===== *)
theory Sim
  imports Movement Queues Delta_Snapshot
begin

text \<open>
  \<open>server/sim.h\<close> and \<open>server/sim.cpp\<close>: the simulation thread's state and its operations in tick
  order. The private members of \<open>class Sim\<close> are the fields of the record \<open>sim\<close>; every method is
  one definition that returns the updated state. The two queues are fields as well, because the
  methods pop from one and push to the other.

  The ray direction of a shot comes from the C++ mathematics library:
  \<open>llround(cos(angle) * 1024)\<close> and the same with \<open>sin\<close>. The pair is the parameter \<open>dir\<close> of
  \<open>cast_ray\<close>, \<open>combat\<close> and \<open>tick\<close>; what the proofs need of it is stated where it is needed.
\<close>

section \<open>State\<close>

record player =
  pl_active :: bool
  pl_team :: team
  pl_position :: vec2
  pl_aim_angle :: u16
  pl_health :: int
  pl_alive :: bool
  pl_carrying_flag :: bool
  pl_spawn_index :: u8
  pl_respawn_timer :: int
  pl_fire_cooldown :: int
  pl_ring :: "input_cmd list"
  pl_seqs :: "u32 list"
  pl_ring_head :: nat
  pl_ring_count :: nat
  pl_newest_seq :: u32
  pl_last_input_seq :: u32

definition default_player :: player where
  "default_player = \<lparr>pl_active = False, pl_team = Red, pl_position = Vec2Fixed 0 0, pl_aim_angle = 0,
     pl_health = kMaxHealth, pl_alive = True, pl_carrying_flag = False, pl_spawn_index = 0,
     pl_respawn_timer = 0, pl_fire_cooldown = 0,
     pl_ring = replicate kInputRingSize default_input, pl_seqs = replicate kInputRingSize 0,
     pl_ring_head = 0, pl_ring_count = 0, pl_newest_seq = 0, pl_last_input_seq = 0\<rparr>"

record sim =
  sm_inbound :: inbound_queue
  sm_outbound :: outbound_queue
  sm_players :: "player list"
  sm_player_count :: int
  sm_flags :: "flag_info list"
  sm_drop_tick :: "u32 list"
  sm_score :: "u8 list"
  sm_snapshot :: world_snapshot
  sm_applied_cmds :: "input_cmd list"
  sm_player_acks :: "u32 list"
  sm_last_ray_hit :: vec2
  sm_wake_fd :: int
  sm_wakes :: nat
  sm_tick_hz :: int
  sm_snapshot_hz :: int
  sm_delta_snapshots :: bool
  sm_prev_published :: world_snapshot
  sm_have_published :: bool
  sm_snapshots_published :: u32
  sm_current_tick :: u32
  sm_match_over :: bool

text \<open>\<open>sm_wakes\<close> counts the 8-byte writes to the event descriptor, the only system call of a tick.\<close>

definition Sim :: "inbound_queue \<Rightarrow> outbound_queue \<Rightarrow> sim" where
  "Sim inbound outbound = \<lparr>sm_inbound = inbound, sm_outbound = outbound,
     sm_players = replicate kMaxPlayers default_player, sm_player_count = 0,
     sm_flags = [default_flag_info\<lparr>fl_position := kRedBasePosition\<rparr>,
                 default_flag_info\<lparr>fl_position := kBlueBasePosition\<rparr>],
     sm_drop_tick = [0, 0], sm_score = [0, 0], sm_snapshot = default_snapshot,
     sm_applied_cmds = replicate kMaxPlayers default_input, sm_player_acks = replicate kMaxPlayers 0,
     sm_last_ray_hit = Vec2Fixed 0 0, sm_wake_fd = -1, sm_wakes = 0,
     sm_tick_hz = kTickRateHz, sm_snapshot_hz = kTickRateHz, sm_delta_snapshots = True,
     sm_prev_published = default_snapshot, sm_have_published = False, sm_snapshots_published = 0,
     sm_current_tick = 0, sm_match_over = False\<rparr>"

definition set_wake_fd :: "int \<Rightarrow> sim \<Rightarrow> sim" where
  "set_wake_fd fd s = s\<lparr>sm_wake_fd := fd\<rparr>"

definition set_tick_rate :: "int \<Rightarrow> sim \<Rightarrow> sim" where
  "set_tick_rate hz s = s\<lparr>sm_tick_hz := (if hz > 0 then hz else kTickRateHz)\<rparr>"

definition set_snapshot_rate :: "int \<Rightarrow> sim \<Rightarrow> sim" where
  "set_snapshot_rate hz s = s\<lparr>sm_snapshot_hz := (if hz > 0 then hz else kTickRateHz)\<rparr>"

definition set_delta_snapshots :: "bool \<Rightarrow> sim \<Rightarrow> sim" where
  "set_delta_snapshots on s = s\<lparr>sm_delta_snapshots := on\<rparr>"

definition flag_index :: "team \<Rightarrow> nat" where
  "flag_index team = (if team = Blue then 1 else 0)"

text \<open>The enemy's flag index, as \<open>apply_leave\<close> and \<open>handle_death\<close> compute it.\<close>

definition enemy_flag_index :: "team \<Rightarrow> nat" where
  "enemy_flag_index team = (if team = Blue then 0 else 1)"

definition find_player :: "sim \<Rightarrow> u8 \<Rightarrow> nat option" where
  "find_player s pid =
     (if unat pid \<ge> kMaxPlayers then None
      else if pl_active (sm_players s ! unat pid) then Some (unat pid) else None)"

definition base_of :: "team \<Rightarrow> vec2" where
  "base_of team = (if team = Blue then kBlueBasePosition else kRedBasePosition)"

definition spawns_of :: "team \<Rightarrow> vec2 list" where
  "spawns_of team = (if team = Blue then kBlueSpawnPoints else kRedSpawnPoints)"

text \<open>Writing through a \<open>Player&\<close> or \<open>FlagInfo&\<close> and pushing an event.\<close>

definition upd_player :: "nat \<Rightarrow> (player \<Rightarrow> player) \<Rightarrow> sim \<Rightarrow> sim" where
  "upd_player i f s = s\<lparr>sm_players := (sm_players s)[i := f (sm_players s ! i)]\<rparr>"

definition upd_flag :: "nat \<Rightarrow> (flag_info \<Rightarrow> flag_info) \<Rightarrow> sim \<Rightarrow> sim" where
  "upd_flag fi f s = s\<lparr>sm_flags := (sm_flags s)[fi := f (sm_flags s ! fi)]\<rparr>"

definition emit :: "outbound_event \<Rightarrow> sim \<Rightarrow> sim" where
  "emit ev s = s\<lparr>sm_outbound := outbound_push ev (sm_outbound s)\<rparr>"

definition debug_place :: "u8 \<Rightarrow> vec2 \<Rightarrow> sim \<Rightarrow> sim" where
  "debug_place pid pos s =
     (case find_player s pid of
        None \<Rightarrow> s
      | Some i \<Rightarrow>
          let max_x = kMapWidthPx * kFixedScale - kPlayerSizePx * kFixedScale;
              max_y = kMapHeightPx * kFixedScale - kPlayerSizePx * kFixedScale
          in upd_player i (\<lambda>p. p\<lparr>pl_position :=
               Vec2Fixed (max 0 (min (vx pos) max_x)) (max 0 (min (vy pos) max_y))\<rparr>) s)"

section \<open>Inbound commands\<close>

definition apply_join :: "u8 \<Rightarrow> team \<Rightarrow> u8 \<Rightarrow> sim \<Rightarrow> sim" where
  "apply_join pid team spawn_index s =
     (if sm_match_over s then s
      else if find_player s pid \<noteq> None then s
      else if unat pid \<ge> kMaxPlayers then s
      else
        let si = (if unat spawn_index < kMaxPlayers then spawn_index else 0);
            s = upd_player (unat pid) (\<lambda>p. p\<lparr>pl_active := True, pl_team := team, pl_spawn_index := si,
                  pl_position := spawns_of team ! unat si, pl_health := kMaxHealth, pl_alive := True,
                  pl_carrying_flag := False, pl_respawn_timer := 0, pl_fire_cooldown := 0,
                  pl_ring_head := 0, pl_ring_count := 0, pl_last_input_seq := 0\<rparr>) s
        in s\<lparr>sm_player_count := sm_player_count s + 1\<rparr>)"

text \<open>The four assignments that drop a flag, shared by leaving and dying.\<close>

definition drop_flag :: "nat \<Rightarrow> vec2 \<Rightarrow> sim \<Rightarrow> sim" where
  "drop_flag fi pos s =
     (upd_flag fi (\<lambda>f. f\<lparr>fl_state := Dropped, fl_position := pos, fl_carrier_id := 0xFF\<rparr>) s)
       \<lparr>sm_drop_tick := (sm_drop_tick s)[fi := sm_current_tick s]\<rparr>"

definition apply_leave :: "u8 \<Rightarrow> sim \<Rightarrow> sim" where
  "apply_leave pid s =
     (case find_player s pid of
        None \<Rightarrow> s
      | Some i \<Rightarrow>
          let p = sm_players s ! i;
              s = (if pl_carrying_flag p then drop_flag (enemy_flag_index (pl_team p)) (pl_position p) s else s);
              s = upd_player i (\<lambda>_. default_player) s
          in s\<lparr>sm_player_count := sm_player_count s - 1\<rparr>)"

text \<open>Queueing one input in a player's ring: strictly increasing sequence numbers, oldest dropped when full.\<close>

definition ring_drop :: "player \<Rightarrow> player" where
  "ring_drop p = p\<lparr>pl_ring_head := (pl_ring_head p + 1) mod kInputRingSize, pl_ring_count := pl_ring_count p - 1\<rparr>"

definition ring_push :: "u32 \<times> input_cmd \<Rightarrow> player \<Rightarrow> player" where
  "ring_push = (\<lambda>(seq, cmd) p.
     let p = (if pl_ring_count p = kInputRingSize then ring_drop p else p);
         idx = (pl_ring_head p + pl_ring_count p) mod kInputRingSize
     in p\<lparr>pl_ring := (pl_ring p)[idx := cmd], pl_seqs := (pl_seqs p)[idx := seq],
          pl_ring_count := pl_ring_count p + 1\<rparr>)"

definition queue_input :: "u32 \<Rightarrow> input_cmd \<Rightarrow> player \<Rightarrow> player" where
  "queue_input seq cmd p =
     (if \<not> pl_alive p then p
      else if seq \<le> pl_newest_seq p then p
      else ring_push (seq, cmd) (p\<lparr>pl_newest_seq := seq\<rparr>))"

definition apply_command :: "inbound_command \<Rightarrow> sim \<Rightarrow> sim" where
  "apply_command cmd s =
     (if sm_match_over s then s
      else case ic_type cmd of
        CmdPlayerJoined \<Rightarrow> apply_join (ic_player_id cmd) (ic_team cmd) (ic_spawn_index cmd) s
      | CmdPlayerLeft \<Rightarrow> apply_leave (ic_player_id cmd) s
      | CmdPlayerInput \<Rightarrow>
          (case find_player s (ic_player_id cmd) of
             None \<Rightarrow> s
           | Some i \<Rightarrow> upd_player i (queue_input (ic_seq cmd) (ic_input cmd)) s))"

lemma apply_command_inbound [simp]: "sm_inbound (apply_command cmd s) = sm_inbound s"
  by (simp add: apply_command_def apply_join_def apply_leave_def upd_player_def drop_flag_def
      upd_flag_def Let_def split: inbound_command_type.split option.split)

lemma inbound_pop_shorter: "inbound_pop q = Some (cmd, q') \<Longrightarrow> length (in_items q') < length (in_items q)"
  using inq.pop_items [of q cmd q'] by simp

text \<open>The loop \<open>while (inbound_.pop(cmd))\<close>; each round takes one command off the queue.\<close>

function drain_inbound :: "sim \<Rightarrow> sim" where
  "drain_inbound s =
     (case inbound_pop (sm_inbound s) of
        None \<Rightarrow> s
      | Some (cmd, q) \<Rightarrow> drain_inbound (apply_command cmd (s\<lparr>sm_inbound := q\<rparr>)))"
  by pat_completeness auto
termination
  by (relation "measure (\<lambda>s. length (in_items (sm_inbound s)))") (auto dest: inbound_pop_shorter)

declare drain_inbound.simps [simp del]

section \<open>Inputs and movement\<close>

definition pop_input :: "nat \<Rightarrow> sim \<Rightarrow> sim" where
  "pop_input i s =
     (let p = sm_players s ! i in
      if \<not> pl_active p then s
      else if pl_alive p \<and> pl_ring_count p > 0 then
        (upd_player i (\<lambda>p. ring_drop (p\<lparr>pl_last_input_seq := pl_seqs p ! pl_ring_head p\<rparr>)) s)
          \<lparr>sm_applied_cmds := (sm_applied_cmds s)[i := pl_ring p ! pl_ring_head p]\<rparr>
      else s\<lparr>sm_applied_cmds := (sm_applied_cmds s)[i := default_input]\<rparr>)"

definition pop_inputs :: "sim \<Rightarrow> sim" where
  "pop_inputs = fold pop_input [0..<kMaxPlayers]"

definition move_player :: "nat \<Rightarrow> sim \<Rightarrow> sim" where
  "move_player i s =
     (let p = sm_players s ! i; cmd = sm_applied_cmds s ! i in
      if \<not> pl_active p \<or> \<not> pl_alive p then s
      else
        let out = movement_step (default_motion\<lparr>position := pl_position p\<rparr>) cmd
        in upd_player i (\<lambda>p. p\<lparr>pl_position := position out, pl_aim_angle := aim_angle cmd\<rparr>) s)"

definition move_players :: "sim \<Rightarrow> sim" where
  "move_players = fold move_player [0..<kMaxPlayers]"

section \<open>Combat\<close>

definition kRayShift :: nat where [config_defs]: "kRayShift = 10"
definition kRayScale :: int where [config_defs]: "kRayScale = 1024"
definition kRayStepFp :: int where [config_defs]: "kRayStepFp = 8"
definition kMaxRaySteps :: nat where
  "kMaxRaySteps = nat ((kMapWidthPx + kMapHeightPx) * 2 * kFixedScale div kRayStepFp)"

text \<open>The march's variables: position and sub-step remainder on each axis (\<open>int64_t\<close>).\<close>

record ray =
  ray_px :: int
  ray_py :: int
  ray_rem_x :: int
  ray_rem_y :: int

definition ray_advance :: "int \<Rightarrow> int \<Rightarrow> ray \<Rightarrow> ray" where
  "ray_advance step_x step_y r =
     (let rem_x = ray_rem_x r + step_x; px = ray_px r + drop_bit kRayShift rem_x; rem_x = rem_x AND (kRayScale - 1);
          rem_y = ray_rem_y r + step_y; py = ray_py r + drop_bit kRayShift rem_y; rem_y = rem_y AND (kRayScale - 1)
      in \<lparr>ray_px = px, ray_py = py, ray_rem_x = rem_x, ray_rem_y = rem_y\<rparr>)"

definition ray_point :: "ray \<Rightarrow> vec2" where
  "ray_point r = Vec2Fixed (to_i32 (ray_px r)) (to_i32 (ray_py r))"

definition ray_in_wall :: "ray \<Rightarrow> bool" where
  "ray_in_wall r =
     (let tile_fp = kTileSizePx * kFixedScale
      in is_wall (to_i32 (cdiv (ray_px r) tile_fp)) (to_i32 (cdiv (ray_py r) tile_fp)))"

definition ray_touches :: "ray \<Rightarrow> team \<Rightarrow> player \<Rightarrow> bool" where
  "ray_touches r shooter_team e \<longleftrightarrow>
     pl_active e \<and> pl_alive e \<and> pl_team e \<noteq> shooter_team
     \<and> ray_px r \<ge> vx (pl_position e) \<and> ray_px r < vx (pl_position e) + kPlayerSizePx * kFixedScale
     \<and> ray_py r \<ge> vy (pl_position e) \<and> ray_py r < vy (pl_position e) + kPlayerSizePx * kFixedScale"

text \<open>The march with \<open>n\<close> steps left: the index of the enemy hit, if any, and the final ray.\<close>

primrec ray_march :: "player list \<Rightarrow> team \<Rightarrow> int \<Rightarrow> int \<Rightarrow> nat \<Rightarrow> ray \<Rightarrow> nat option \<times> ray" where
  "ray_march ps shooter_team step_x step_y 0 r = (None, r)"
| "ray_march ps shooter_team step_x step_y (Suc n) r =
     (let r = ray_advance step_x step_y r in
      if ray_in_wall r then (None, r)
      else case List.find (\<lambda>i. ray_touches r shooter_team (ps ! i)) [0..<kMaxPlayers] of
        Some i \<Rightarrow> (Some i, r)
      | None \<Rightarrow> ray_march ps shooter_team step_x step_y n r)"

type_synonym ray_direction = "u16 \<Rightarrow> int \<times> int"

definition cast_ray :: "ray_direction \<Rightarrow> vec2 \<Rightarrow> u16 \<Rightarrow> team \<Rightarrow> sim \<Rightarrow> nat option \<times> sim" where
  "cast_ray dir origin aim shooter_team s =
     (let step_x = fst (dir aim) * kRayStepFp;
          step_y = snd (dir aim) * kRayStepFp;
          (hit, r) = ray_march (sm_players s) shooter_team step_x step_y kMaxRaySteps
             \<lparr>ray_px = vx origin, ray_py = vy origin, ray_rem_x = 0, ray_rem_y = 0\<rparr>
      in (hit, s\<lparr>sm_last_ray_hit := ray_point r\<rparr>))"

text \<open>The wire form of an event: the type byte, then the encoded fields in at most 96 bytes.\<close>

definition ser_event :: "outbound_event \<Rightarrow> message_type \<Rightarrow> (byte_writer, unit) state \<Rightarrow> outbound_event" where
  "ser_event ev ty write_msg =
     (let data = (payload_data ev)[0 := message_type_byte ty];
          w = after write_msg (ByteWriter (drop 1 data) 96)
      in ev\<lparr>payload_data := take 1 data @ bw_buf w, payload_size := word_of_nat (1 + bw_pos w)\<rparr>)"

definition send_event :: "outbound_event_type \<Rightarrow> message_type \<Rightarrow> (byte_writer, unit) state \<Rightarrow> sim \<Rightarrow> sim" where
  "send_event channel ty write_msg s =
     emit (ser_event (default_outbound_event\<lparr>oe_type := channel\<rparr>) ty write_msg) s"

definition handle_death :: "nat \<Rightarrow> sim \<Rightarrow> sim" where
  "handle_death i s =
     (let s = upd_player i (\<lambda>p. p\<lparr>pl_alive := False, pl_health := 0, pl_respawn_timer := kRespawnDelayTicks\<rparr>) s;
          victim = sm_players s ! i
      in if pl_carrying_flag victim then
           let s = drop_flag (enemy_flag_index (pl_team victim)) (pl_position victim) s;
               s = send_event TcpBroadcast FlagDropped (encode_flag_dropped
                     \<lparr>fd_flag_team = (if pl_team victim = Blue then Blue else Red),
                      fd_position = pl_position victim, fd_tick = sm_current_tick s\<rparr>) s
           in upd_player i (\<lambda>p. p\<lparr>pl_carrying_flag := False\<rparr>) s
         else s)"

definition half_box :: int where
  "half_box = cdiv (kPlayerSizePx * kFixedScale) 2"

definition combat_player :: "ray_direction \<Rightarrow> nat \<Rightarrow> sim \<Rightarrow> sim" where
  "combat_player dir i s =
     (let p = sm_players s ! i; cmd = sm_applied_cmds s ! i in
      if \<not> pl_active p \<or> \<not> pl_alive p then s
      else if pl_fire_cooldown p > 0 then upd_player i (\<lambda>p. p\<lparr>pl_fire_cooldown := pl_fire_cooldown p - 1\<rparr>) s
      else if buttons cmd AND kInputFire = 0 then s
      else
        let center = Vec2Fixed (vx (pl_position p) + half_box) (vy (pl_position p) + half_box);
            (hit, s) = cast_ray dir center (aim_angle cmd) (pl_team p) s;
            s = send_event UdpEvent ShotFired (encode_shot_fired
                  \<lparr>sf_shooter_id = word_of_nat i, sf_origin = center, sf_aim_angle = aim_angle cmd,
                   sf_hit_point = sm_last_ray_hit s\<rparr>) s;
            s = upd_player i (\<lambda>p. p\<lparr>pl_fire_cooldown := kFireCooldownTicks\<rparr>) s
        in case hit of
             None \<Rightarrow> s
           | Some enemy \<Rightarrow>
               let s = upd_player enemy (\<lambda>v. v\<lparr>pl_health :=
                         (if pl_health v > kDamagePerShot then pl_health v - kDamagePerShot else 0)\<rparr>) s
               in if pl_health (sm_players s ! enemy) = 0 then
                    let s = handle_death enemy s
                    in send_event TcpBroadcast PlayerKilled (encode_player_killed
                         \<lparr>pk_victim_id = word_of_nat enemy, pk_killer_id = word_of_nat i,
                          pk_tick = sm_current_tick s\<rparr>) s
                  else s)"

definition combat :: "ray_direction \<Rightarrow> sim \<Rightarrow> sim" where
  "combat dir = fold (combat_player dir) [0..<kMaxPlayers]"

section \<open>Flags\<close>

definition aabb_overlap :: "vec2 \<Rightarrow> vec2 \<Rightarrow> bool" where
  "aabb_overlap a b =
     (let box = kPlayerSizePx * kFixedScale
      in vx a < vx b + box \<and> vx a + box > vx b \<and> vy a < vy b + box \<and> vy a + box > vy b)"

definition flag_team :: "nat \<Rightarrow> team" where
  "flag_team fi = (if fi = 0 then Red else Blue)"

text \<open>Sending a flag home: shared by auto-return, return by touch and capture.\<close>

definition reset_flag :: "nat \<Rightarrow> sim \<Rightarrow> sim" where
  "reset_flag fi = upd_flag fi (\<lambda>f. f\<lparr>fl_state := AtBase, fl_position := base_of (flag_team fi), fl_carrier_id := 0xFF\<rparr>)"

definition flag_follow :: "nat \<Rightarrow> sim \<Rightarrow> sim" where
  "flag_follow fi s =
     (let flag = sm_flags s ! fi in
      if fl_state flag = Carried then
        (case find_player s (fl_carrier_id flag) of
           None \<Rightarrow> s
         | Some i \<Rightarrow> upd_flag fi (\<lambda>f. f\<lparr>fl_position := pl_position (sm_players s ! i)\<rparr>) s)
      else if fl_state flag = Dropped then
        (if sm_current_tick s - sm_drop_tick s ! fi \<ge> word_of_nat kFlagAutoReturnTicks then
           send_event TcpBroadcast FlagReturned (encode_flag_returned
             \<lparr>fe_flag_team = flag_team fi, fe_player_id = 0xFF, fe_tick = sm_current_tick s\<rparr>) (reset_flag fi s)
         else s)
      else s)"

definition flag_return :: "nat \<Rightarrow> sim \<Rightarrow> sim" where
  "flag_return i s =
     (let p = sm_players s ! i; own_fi = flag_index (pl_team p); own = sm_flags s ! own_fi in
      if fl_state own = Dropped \<and> aabb_overlap (pl_position p) (fl_position own) then
        send_event TcpBroadcast FlagReturned (encode_flag_returned
          \<lparr>fe_flag_team = pl_team p, fe_player_id = word_of_nat i, fe_tick = sm_current_tick s\<rparr>)
          (reset_flag own_fi s)
      else s)"

definition flag_pickup :: "nat \<Rightarrow> sim \<Rightarrow> sim" where
  "flag_pickup i s =
     (let p = sm_players s ! i; enemy_fi = 1 - flag_index (pl_team p); enemy = sm_flags s ! enemy_fi in
      if \<not> pl_carrying_flag p \<and> fl_state enemy \<noteq> Carried \<and> aabb_overlap (pl_position p) (fl_position enemy) then
        let s = upd_flag enemy_fi (\<lambda>f. f\<lparr>fl_state := Carried, fl_carrier_id := word_of_nat i\<rparr>) s;
            s = upd_player i (\<lambda>p. p\<lparr>pl_carrying_flag := True\<rparr>) s
        in send_event TcpBroadcast FlagPickedUp (encode_flag_picked_up
             \<lparr>fe_flag_team = (if pl_team p = Red then Blue else Red), fe_player_id = word_of_nat i,
              fe_tick = sm_current_tick s\<rparr>) s
      else s)"

definition flag_capture :: "nat \<Rightarrow> sim \<Rightarrow> sim" where
  "flag_capture i s =
     (let p = sm_players s ! i; own_fi = flag_index (pl_team p); enemy_fi = 1 - own_fi;
          own = sm_flags s ! own_fi in
      if pl_carrying_flag p \<and> fl_state own = AtBase \<and> aabb_overlap (pl_position p) (base_of (pl_team p)) then
        let s = upd_player i (\<lambda>p. p\<lparr>pl_carrying_flag := False\<rparr>) s;
            s = reset_flag enemy_fi s;
            s = s\<lparr>sm_score := (sm_score s)[own_fi := sm_score s ! own_fi + 1]\<rparr>
        in send_event TcpBroadcast FlagCaptured (encode_flag_captured
             \<lparr>fe_flag_team = (if pl_team p = Red then Blue else Red), fe_player_id = word_of_nat i,
              fe_tick = sm_current_tick s\<rparr>) s
      else s)"

definition flag_player :: "nat \<Rightarrow> sim \<Rightarrow> sim" where
  "flag_player i s =
     (let p = sm_players s ! i in
      if \<not> pl_active p \<or> \<not> pl_alive p then s else flag_capture i (flag_pickup i (flag_return i s)))"

definition respawn_player :: "nat \<Rightarrow> sim \<Rightarrow> sim" where
  "respawn_player i s =
     (let p = sm_players s ! i in
      if \<not> pl_active p \<or> pl_alive p then s
      else
        let s = upd_player i (\<lambda>p. p\<lparr>pl_respawn_timer := pl_respawn_timer p - 1\<rparr>) s in
        if pl_respawn_timer (sm_players s ! i) \<le> 0 then
          let spot = spawns_of (pl_team p) ! unat (pl_spawn_index p);
              s = upd_player i (\<lambda>p. p\<lparr>pl_alive := True, pl_health := kMaxHealth, pl_position := spot\<rparr>) s
          in send_event TcpBroadcast PlayerRespawned (encode_player_respawned
               \<lparr>pr_player_id = word_of_nat i, pr_position = spot, pr_tick = sm_current_tick s\<rparr>) s
        else s)"

definition flags_phase :: "sim \<Rightarrow> sim" where
  "flags_phase s =
     (let s = fold flag_follow [0..<2] s;
          s = fold flag_player [0..<kMaxPlayers] s
      in fold respawn_player [0..<kMaxPlayers] s)"

section \<open>End of match and publishing\<close>

definition match_limit_ticks :: u32 where
  "match_limit_ticks = word_of_int (kMatchTimeLimitSec * kTickRateHz)"

definition win_check :: "sim \<Rightarrow> sim" where
  "win_check s =
     (if sm_match_over s then s
      else if unat (sm_score s ! 0) \<ge> kScoreToWin \<or> unat (sm_score s ! 1) \<ge> kScoreToWin
          \<or> sm_current_tick s \<ge> match_limit_ticks then
        let winner = (if sm_score s ! 0 \<ge> sm_score s ! 1 then Red else Blue)
        in send_event TcpBroadcast MatchEnd (encode_match_end
             \<lparr>me_winning_team = winner, me_score_red = sm_score s ! 0, me_score_blue = sm_score s ! 1\<rparr>)
             (s\<lparr>sm_match_over := True\<rparr>)
      else s)"

text \<open>One published player: the fields \<open>publish\<close> copies, the others at their defaults.\<close>

definition publish_player :: "nat \<Rightarrow> player \<Rightarrow> player_state" where
  "publish_player i p = default_player_state\<lparr>ps_id := word_of_nat i, ps_team := pl_team p,
     ps_motion := default_motion\<lparr>position := pl_position p\<rparr>, ps_aim_angle := pl_aim_angle p,
     ps_health := word_of_int (pl_health p), ps_alive := pl_alive p, ps_carrying_flag := pl_carrying_flag p\<rparr>"

definition active_ids :: "sim \<Rightarrow> nat list" where
  "active_ids s = filter (\<lambda>i. pl_active (sm_players s ! i)) [0..<kMaxPlayers]"

definition seconds_left :: "u32 \<Rightarrow> u16" where
  "seconds_left t =
     (let remaining = kMatchTimeLimitSec - int (unat t div nat kTickRateHz)
      in word_of_int (if remaining > 0 then remaining else 0))"

definition make_snapshot :: "sim \<Rightarrow> world_snapshot" where
  "make_snapshot s = default_snapshot\<lparr>snap_tick := sm_current_tick s,
     snap_players := update_range (snap_players default_snapshot) 0
        (map (\<lambda>i. publish_player i (sm_players s ! i)) (active_ids s)),
     player_count := word_of_nat (length (active_ids s)),
     flag_carrier_red := fl_carrier_id (sm_flags s ! 0), flag_carrier_blue := fl_carrier_id (sm_flags s ! 1),
     flag_state_red := fl_state (sm_flags s ! 0), flag_state_blue := fl_state (sm_flags s ! 1),
     score_red := sm_score s ! 0, score_blue := sm_score s ! 1,
     seconds_remaining := seconds_left (sm_current_tick s)\<rparr>"

definition collect_acks :: "sim \<Rightarrow> u32 list" where
  "collect_acks s = fold (\<lambda>i acks. acks[i := pl_last_input_seq (sm_players s ! i)]) (active_ids s) (sm_player_acks s)"

definition publish_due :: "sim \<Rightarrow> bool" where
  "publish_due s =
     (let d = cdiv (sm_tick_hz s) (sm_snapshot_hz s)
      in d \<le> 1 \<or> sm_current_tick s mod word_of_int d = 0)"

definition publish_keyframe :: "sim \<Rightarrow> bool" where
  "publish_keyframe s \<longleftrightarrow> \<not> sm_delta_snapshots s \<or> \<not> sm_have_published s
     \<or> sm_snapshots_published s mod word_of_nat kSnapshotKeyframeInterval = 0"

definition snapshot_event :: "sim \<Rightarrow> world_snapshot \<Rightarrow> outbound_event" where
  "snapshot_event s snap =
     (let ev = default_outbound_event\<lparr>oe_type := (if publish_keyframe s then UdpSnapshot else UdpDeltaSnapshot)\<rparr>;
          w = after (if publish_keyframe s then encode_world_snapshot snap
                     else encode_delta_snapshot snap (sm_prev_published s))
                (ByteWriter (payload_data ev) (length (payload_data ev)))
      in ev\<lparr>payload_data := bw_buf w, payload_size := word_of_nat (bw_pos w),
            oe_acks := map (\<lambda>i. sm_player_acks s ! i) [0..<kMaxPlayers], oe_tick := sm_current_tick s\<rparr>)"

definition publish :: "sim \<Rightarrow> sim" where
  "publish s =
     (let snap = make_snapshot s;
          s = s\<lparr>sm_player_acks := collect_acks s, sm_snapshot := snap\<rparr>;
          s = (if publish_due s then
                 (emit (snapshot_event s snap) s)\<lparr>sm_prev_published := snap, sm_have_published := True,
                    sm_snapshots_published := sm_snapshots_published s + 1\<rparr>
               else s)
      in if sm_wake_fd s \<ge> 0 then s\<lparr>sm_wakes := sm_wakes s + 1\<rparr> else s)"

section \<open>The tick\<close>

definition tick :: "ray_direction \<Rightarrow> sim \<Rightarrow> sim" where
  "tick dir s =
     (let s = drain_inbound s;
          s = pop_inputs s;
          s = move_players s;
          s = combat dir s;
          s = flags_phase s;
          s = win_check s;
          s = publish s
      in s\<lparr>sm_current_tick := sm_current_tick s + 1\<rparr>)"

end
