(* ===== verification/Sim_Ray.thy ===== *)
theory Sim_Ray
  imports Sim Complex_Main
begin

text \<open>
  The hitscan of \<open>server/sim.cpp\<close> (\<open>cast_ray\<close>). The march with its remainder accumulators visits
  exactly the points \<open>origin + floor(k * step / 1024)\<close>; it stops at the first wall or living enemy;
  a hit is never behind a wall; with a direction on the unit circle the step limit is never reached.

  The direction is computed in \<open>double\<close> with the mathematics library. The locale \<open>ray_direction_law\<close>
  states what the march needs of it; the code's computation fulfils it whatever the rounding of the
  angle, for every \<open>cos\<close> and \<open>sin\<close> that stay within one and within 1/4096 of the real functions.
\<close>

section \<open>Closed form of the march\<close>

lemma and_1023: "x AND 1023 = x mod 1024" for x :: int
proof -
  have "(1023 :: int) = mask 10" by (simp add: mask_eq_exp_minus_1)
  then have "x AND 1023 = take_bit 10 x" by (simp only: take_bit_eq_mask)
  then show ?thesis by (simp add: take_bit_eq_mod)
qed

text \<open>The ray after \<open>k\<close> steps from \<open>origin\<close>.\<close>

definition ray_at :: "vec2 \<Rightarrow> int \<Rightarrow> int \<Rightarrow> nat \<Rightarrow> ray" where
  "ray_at origin step_x step_y k =
     \<lparr>ray_px = vx origin + int k * step_x div 1024, ray_py = vy origin + int k * step_y div 1024,
      ray_rem_x = int k * step_x mod 1024, ray_rem_y = int k * step_y mod 1024\<rparr>"

lemma ray_at_0: "ray_at origin sx sy 0 = \<lparr>ray_px = vx origin, ray_py = vy origin, ray_rem_x = 0, ray_rem_y = 0\<rparr>"
  by (simp add: ray_at_def)

lemma axis_step:
  fixes k s :: int
  shows "k * s div 1024 + (k * s mod 1024 + s) div 1024 = (k + 1) * s div 1024"
    "(k * s mod 1024 + s) mod 1024 = (k + 1) * s mod 1024"
proof -
  have "(k + 1) * s = (k * s mod 1024 + s) + 1024 * (k * s div 1024)"
    using mult_div_mod_eq [of 1024 "k * s"] by (simp add: algebra_simps)
  then show "k * s div 1024 + (k * s mod 1024 + s) div 1024 = (k + 1) * s div 1024"
    by (simp only: div_mult_self2)
  have "(k + 1) * s = k * s + s" by (simp add: distrib_right)
  then show "(k * s mod 1024 + s) mod 1024 = (k + 1) * s mod 1024" by (simp only: mod_add_left_eq)
qed

lemma ray_advance_at: "ray_advance sx sy (ray_at origin sx sy k) = ray_at origin sx sy (Suc k)"
proof -
  have k: "int (Suc k) = int k + 1" by simp
  have c: "kRayScale - 1 = 1023" "drop_bit kRayShift x = x div 1024" for x :: int
    by (simp_all add: config_defs drop_bit_eq_div)
  show ?thesis
    unfolding ray_advance_def ray_at_def Let_def ray.simps c and_1023 add.assoc axis_step k ..
qed

section \<open>What the march returns\<close>

definition ray_clear :: "player list \<Rightarrow> team \<Rightarrow> ray \<Rightarrow> bool" where
  "ray_clear ps team r \<longleftrightarrow> \<not> ray_in_wall r \<and> (\<forall>i < kMaxPlayers. \<not> ray_touches r team (ps ! i))"

lemma find_slot_Some:
  "List.find P [0..<n] = Some i \<Longrightarrow> i < n \<and> P i \<and> (\<forall>j < i. \<not> P j)"
  by (auto simp: find_Some_iff)

lemma find_slot_None: "List.find P [0..<n] = None \<Longrightarrow> \<forall>i < n. \<not> P i"
  by (auto simp: find_None_iff)

lemma ray_march_result:
  assumes "ray_march ps team sx sy n (ray_at origin sx sy k) = (hit, r)"
  shows "\<exists>m. k \<le> m \<and> m \<le> k + n \<and> r = ray_at origin sx sy m
    \<and> (\<forall>j. k < j \<and> j < m \<longrightarrow> ray_clear ps team (ray_at origin sx sy j))
    \<and> (case hit of
         Some i \<Rightarrow> k < m \<and> i < kMaxPlayers \<and> \<not> ray_in_wall r \<and> ray_touches r team (ps ! i)
                   \<and> (\<forall>j < i. \<not> ray_touches r team (ps ! j))
       | None \<Rightarrow> ray_in_wall r \<and> k < m \<or> m = k + n \<and> (n = 0 \<or> ray_clear ps team r))"
  using assms
proof (induction n arbitrary: k)
  case 0
  then show ?case by (intro exI [of _ k]) auto
next
  case (Suc n)
  let ?r = "ray_at origin sx sy (Suc k)"
  show ?case
  proof (cases "ray_in_wall ?r")
    case True
    then show ?thesis using Suc.prems
      by (intro exI [of _ "Suc k"]) (auto simp: ray_advance_at)
  next
    case wall: False
    show ?thesis
    proof (cases "List.find (\<lambda>i. ray_touches ?r team (ps ! i)) [0..<kMaxPlayers]")
      case (Some i)
      then have "hit = Some i" "r = ?r" using Suc.prems wall by (simp_all add: ray_advance_at)
      then show ?thesis using wall find_slot_Some [OF Some] by (intro exI [of _ "Suc k"]) auto
    next
      case None
      then have clear: "ray_clear ps team ?r" using wall find_slot_None [OF None] by (simp add: ray_clear_def)
      have "ray_march ps team sx sy n ?r = (hit, r)" using Suc.prems wall None by (simp add: ray_advance_at)
      then obtain m where m: "Suc k \<le> m" "m \<le> Suc k + n" "r = ray_at origin sx sy m"
          "\<forall>j. Suc k < j \<and> j < m \<longrightarrow> ray_clear ps team (ray_at origin sx sy j)"
          "case hit of
             Some i \<Rightarrow> Suc k < m \<and> i < kMaxPlayers \<and> \<not> ray_in_wall r \<and> ray_touches r team (ps ! i)
                   \<and> (\<forall>j < i. \<not> ray_touches r team (ps ! j))
           | None \<Rightarrow> ray_in_wall r \<and> Suc k < m \<or> m = Suc k + n \<and> (n = 0 \<or> ray_clear ps team r)"
        using Suc.IH by blast
      have "\<forall>j. k < j \<and> j < m \<longrightarrow> ray_clear ps team (ray_at origin sx sy j)"
        using m(4) clear by (metis Suc_lessI)
      then show ?thesis using m clear by (intro exI [of _ m]) (cases hit; auto)
    qed
  qed
qed

section \<open>The direction\<close>

text \<open>
  Both components lie within the scale, and one of them is at least 724, which is
  \<open>1024 / sqrt 2\<close> rounded down.
\<close>

definition unit_direction :: "int \<times> int \<Rightarrow> bool" where
  "unit_direction d \<longleftrightarrow> \<bar>fst d\<bar> \<le> 1024 \<and> \<bar>snd d\<bar> \<le> 1024 \<and> (724 \<le> \<bar>fst d\<bar> \<or> 724 \<le> \<bar>snd d\<bar>)"

locale ray_direction_law =
  fixes dir :: ray_direction
  assumes unit: "unit_direction (dir aim)"

definition llround :: "real \<Rightarrow> int" where
  "llround x = (if x < 0 then - \<lfloor>1 / 2 - x\<rfloor> else \<lfloor>x + 1 / 2\<rfloor>)"

text \<open>
  The direction of \<open>cast_ray\<close>. The rounding \<open>rnd\<close> of \<open>double\<close> operations and the library functions are
  parameters; the product with the power of two 1024 is exact.
\<close>

definition libm_direction :: "(real \<Rightarrow> real) \<Rightarrow> (real \<Rightarrow> real) \<Rightarrow> (real \<Rightarrow> real) \<Rightarrow> ray_direction" where
  "libm_direction rnd cosd sind aim =
     (let ang = rnd (rnd (real (unat aim) * rnd 6.283185307179586) / 65536)
      in (llround (cosd ang * 1024), llround (sind ang * 1024)))"

locale libm_accuracy =
  fixes rnd cosd sind :: "real \<Rightarrow> real"
  assumes range: "\<bar>cosd x\<bar> \<le> 1" "\<bar>sind x\<bar> \<le> 1"
    and accuracy: "\<bar>cosd x - cos x\<bar> \<le> 1 / 4096" "\<bar>sind x - sin x\<bar> \<le> 1 / 4096"

lemma llround_bound:
  assumes "\<bar>x\<bar> \<le> 1024"
  shows "\<bar>llround x\<bar> \<le> 1024"
proof -
  have "\<bar>\<lfloor>y + 1 / 2\<rfloor>\<bar> \<le> 1024" if "0 \<le> y" "y \<le> 1024" for y :: real
  proof -
    have "0 \<le> \<lfloor>y + 1 / 2\<rfloor>" "\<lfloor>y + 1 / 2\<rfloor> < 1025" using that by (simp_all add: floor_less_iff)
    then show ?thesis by simp
  qed
  from this [of x] this [of "- x"] show ?thesis using assms by (cases "x < 0") (simp_all add: llround_def)
qed

lemma llround_small:
  assumes "\<bar>llround x\<bar> < 724"
  shows "\<bar>x\<bar> < 723.5"
proof -
  have "y < 723.5" if "\<bar>\<lfloor>y + 1 / 2\<rfloor>\<bar> < 724" "0 \<le> y" for y :: real
  proof -
    have "\<lfloor>y + 1 / 2\<rfloor> < 724" using that(1) by linarith
    then have "y + 1 / 2 < 724" unfolding floor_less_iff by simp
    then show ?thesis by simp
  qed
  from this [of x] this [of "- x"] show ?thesis using assms by (cases "x < 0") (simp_all add: llround_def)
qed

sublocale libm_accuracy \<subseteq> ray_direction_law "libm_direction rnd cosd sind"
proof
  fix aim :: u16
  define a where "a = rnd (rnd (real (unat aim) * rnd 6.283185307179586) / 65536)"
  have "(x * 1024)\<^sup>2 + (y * 1024)\<^sup>2 = 1048576 * (y\<^sup>2 + x\<^sup>2)" for x y :: real
    by (simp add: power2_eq_square algebra_simps)
  then have unit: "(cos a * 1024)\<^sup>2 + (sin a * 1024)\<^sup>2 = 1048576" by (simp only: sin_cos_squared_add)
  have long: "724 \<le> \<bar>llround (cosd a * 1024)\<bar> \<or> 724 \<le> \<bar>llround (sind a * 1024)\<bar>"
  proof (rule ccontr)
    assume "\<not> (724 \<le> \<bar>llround (cosd a * 1024)\<bar> \<or> 724 \<le> \<bar>llround (sind a * 1024)\<bar>)"
    then have "\<bar>cosd a * 1024\<bar> < 723.5" "\<bar>sind a * 1024\<bar> < 723.5" using llround_small by auto
    then have "\<bar>cos a * 1024\<bar> < 723.75" "\<bar>sin a * 1024\<bar> < 723.75" using accuracy [of a] by (auto simp: abs_if split: if_splits)
    then have "\<bar>cos a * 1024\<bar>\<^sup>2 < 723.75\<^sup>2" "\<bar>sin a * 1024\<bar>\<^sup>2 < 723.75\<^sup>2"
      by (intro power_strict_mono; simp)+
    then have "(cos a * 1024)\<^sup>2 < 723.75\<^sup>2" "(sin a * 1024)\<^sup>2 < 723.75\<^sup>2" by (simp_all only: power2_abs)
    then show False using unit by (simp add: power2_eq_square)
  qed
  have "\<bar>cosd a * 1024\<bar> \<le> 1024" "\<bar>sind a * 1024\<bar> \<le> 1024" using range [of a] by (simp_all add: abs_mult)
  then show "unit_direction (libm_direction rnd cosd sind aim)"
    using long llround_bound unfolding unit_direction_def libm_direction_def Let_def a_def [symmetric] by simp
qed

interpretation exact_libm: libm_accuracy "\<lambda>x. x" cos sin
  by unfold_locales simp_all

section \<open>The march ends in time\<close>

definition in_map :: "vec2 \<Rightarrow> bool" where
  "in_map p \<longleftrightarrow> 0 \<le> vx p \<and> vx p < 40 * 8192 \<and> 0 \<le> vy p \<and> vy p < 25 * 8192"

lemma max_ray_steps: "kMaxRaySteps = 133120"
  by (simp add: kMaxRaySteps_def config_defs)

lemma steps_bound: "\<bar>d\<bar> \<le> 1024 \<Longrightarrow> k \<le> 133120 \<Longrightarrow> \<bar>int k * (d * 8) div 1024\<bar> \<le> 1064960"
proof -
  assume d: "\<bar>d\<bar> \<le> 1024" and k: "k \<le> 133120"
  have "\<bar>int k * (d * 8)\<bar> = int k * (\<bar>d\<bar> * 8)" by (simp add: abs_mult)
  also have "\<dots> \<le> 133120 * (1024 * 8)" using d k by (intro mult_mono) auto
  finally show ?thesis by linarith
qed

lemma ray_point_exact:
  assumes "unit_direction d" "in_map origin" "k \<le> kMaxRaySteps"
  shows "ray_point (ray_at origin (fst d * 8) (snd d * 8) k)
    = Vec2Fixed (vx origin + int k * (fst d * 8) div 1024) (vy origin + int k * (snd d * 8) div 1024)"
proof -
  have "\<bar>fst d\<bar> \<le> 1024" "\<bar>snd d\<bar> \<le> 1024" "k \<le> 133120"
    using assms by (simp_all add: unit_direction_def max_ray_steps)
  then have "\<bar>int k * (fst d * 8) div 1024\<bar> \<le> 1064960" "\<bar>int k * (snd d * 8) div 1024\<bar> \<le> 1064960"
    using steps_bound by blast+
  moreover have "in_i32 (a + b)" if "0 \<le> a" "a \<le> 40 * 8192" "\<bar>b\<bar> \<le> 1064960" for a b
    using that by (auto simp: in_i32_def)
  ultimately have "in_i32 (vx origin + int k * (fst d * 8) div 1024)" "in_i32 (vy origin + int k * (snd d * 8) div 1024)"
    using assms(2) unfolding in_map_def by force+
  then show ?thesis by (simp add: ray_point_def ray_at_def)
qed

text \<open>A point far outside the map is a wall, also after the code's truncating division.\<close>

lemma far_point_in_wall:
  assumes "\<bar>ray_px r\<bar> \<le> 2000000" "\<bar>ray_py r\<bar> \<le> 2000000"
    and "ray_px r \<le> - 8192 \<or> 40 * 8192 \<le> ray_px r \<or> ray_py r \<le> - 8192 \<or> 25 * 8192 \<le> ray_py r"
  shows "ray_in_wall r"
proof -
  have tile: "in_i32 (cdiv a 8192)" "a \<le> - 8192 \<Longrightarrow> cdiv a 8192 < 0" "40 * 8192 \<le> a \<Longrightarrow> 40 \<le> cdiv a 8192"
      "25 * 8192 \<le> a \<Longrightarrow> 25 \<le> cdiv a 8192"
    if "\<bar>a\<bar> \<le> 2000000" for a
  proof -
    have "cdiv (-2000000) 8192 \<le> cdiv a 8192" "cdiv a 8192 \<le> cdiv 2000000 8192"
      using that by (simp_all add: cdiv_mono)
    then show "in_i32 (cdiv a 8192)" by (simp add: in_i32_def cdiv_def)
    show "a \<le> - 8192 \<Longrightarrow> cdiv a 8192 < 0" using cdiv_mono [of a "- 8192" 8192] by (simp add: cdiv_def)
    show "40 * 8192 \<le> a \<Longrightarrow> 40 \<le> cdiv a 8192" using cdiv_mono [of "40 * 8192" a 8192] by (simp add: cdiv_def)
    show "25 * 8192 \<le> a \<Longrightarrow> 25 \<le> cdiv a 8192" using cdiv_mono [of "25 * 8192" a 8192] by (simp add: cdiv_def)
  qed
  have "is_wall (cdiv (ray_px r) 8192) (cdiv (ray_py r) 8192)"
    using assms(3) tile(2-4) [OF assms(1)] tile(2-4) [OF assms(2)] by (intro wall_outside) auto
  then show ?thesis using tile(1) assms(1,2) by (simp add: ray_in_wall_def config_defs)
qed

lemma limit_in_wall:
  assumes "unit_direction d" "in_map origin"
  shows "ray_in_wall (ray_at origin (fst d * 8) (snd d * 8) kMaxRaySteps)"
proof -
  have "int kMaxRaySteps * (a * 8) = 1024 * (1040 * a)" for a
    by (simp add: max_ray_steps)
  then have "int kMaxRaySteps * (a * 8) div 1024 = 1040 * a" for a
    by (simp only: nonzero_mult_div_cancel_left)
  then have p: "ray_px (ray_at origin (fst d * 8) (snd d * 8) kMaxRaySteps) = vx origin + 1040 * fst d"
    "ray_py (ray_at origin (fst d * 8) (snd d * 8) kMaxRaySteps) = vy origin + 1040 * snd d"
    unfolding ray_at_def by (simp_all only: ray.simps)
  show ?thesis
    using assms by (intro far_point_in_wall) (unfold p unit_direction_def in_map_def, linarith+)
qed

lemma cast_ray_contact:
  assumes "unit_direction (dir aim)" "in_map origin" "cast_ray dir origin aim team s = (hit, s')"
  defines "pt \<equiv> ray_at origin (fst (dir aim) * kRayStepFp) (snd (dir aim) * kRayStepFp)"
  shows "\<exists>k. 0 < k \<and> k \<le> kMaxRaySteps \<and> s' = s\<lparr>sm_last_ray_hit := ray_point (pt k)\<rparr>
    \<and> (\<forall>j. 0 < j \<and> j < k \<longrightarrow> ray_clear (sm_players s) team (pt j))
    \<and> (case hit of
         Some i \<Rightarrow> i < kMaxPlayers \<and> \<not> ray_in_wall (pt k) \<and> ray_touches (pt k) team (sm_players s ! i)
                   \<and> (\<forall>j < i. \<not> ray_touches (pt k) team (sm_players s ! j))
       | None \<Rightarrow> ray_in_wall (pt k))"
proof -
  have pt: "pt = ray_at origin (fst (dir aim) * 8) (snd (dir aim) * 8)" by (simp add: pt_def config_defs)
  obtain r where r: "ray_march (sm_players s) team (fst (dir aim) * kRayStepFp) (snd (dir aim) * kRayStepFp)
      kMaxRaySteps (pt 0) = (hit, r)" and s': "s' = s\<lparr>sm_last_ray_hit := ray_point r\<rparr>"
    using assms(3) by (auto simp: cast_ray_def Let_def pt_def ray_at_0 split: prod.splits)
  from ray_march_result [OF r [unfolded pt_def]]
  obtain m where m: "m \<le> kMaxRaySteps" "r = pt m" "\<forall>j. 0 < j \<and> j < m \<longrightarrow> ray_clear (sm_players s) team (pt j)"
      "case hit of
         Some i \<Rightarrow> 0 < m \<and> i < kMaxPlayers \<and> \<not> ray_in_wall r \<and> ray_touches r team (sm_players s ! i)
                   \<and> (\<forall>j < i. \<not> ray_touches r team (sm_players s ! j))
       | None \<Rightarrow> ray_in_wall r \<and> 0 < m \<or> m = kMaxRaySteps \<and> (kMaxRaySteps = 0 \<or> ray_clear (sm_players s) team r)"
    unfolding pt_def [symmetric] add_0 by blast
  have "ray_in_wall (pt kMaxRaySteps)" using limit_in_wall assms(1,2) by (simp add: pt)
  then show ?thesis using m s' max_ray_steps
    by (intro exI [of _ m]) (cases hit; auto simp: ray_clear_def)
qed

text \<open>Consecutive points of the march are at most 8 units apart on each axis.\<close>

lemma ray_dense:
  assumes "\<bar>d\<bar> \<le> 1024"
  shows "\<bar>(int k + 1) * (d * 8) div 1024 - int k * (d * 8) div 1024\<bar> \<le> 8"
proof -
  have "(int k + 1) * (d * 8) div 1024 = int k * (d * 8) div 1024 + (int k * (d * 8) mod 1024 + d * 8) div 1024"
    by (simp only: axis_step)
  moreover have "0 \<le> int k * (d * 8) mod 1024" "int k * (d * 8) mod 1024 < 1024" by simp_all
  ultimately show ?thesis using assms by linarith
qed

section \<open>Properties\<close>

text \<open>
  C22 (functional): a shot from inside the map stops at the first contact. The points of the ray
  are \<open>origin + floor(k * step / 1024)\<close>, at most 8 units apart; all points before the last are
  outside walls and touch no living enemy; the last one is inside the box of the reported living
  enemy, which has the lowest id of those it touches, and in no wall, or lies in a wall when nothing
  is hit. Only \<open>last_ray_hit_\<close> changes.
\<close>

theorem shot_stops_at_first_contact:
  assumes "unit_direction (dir aim)" "in_map origin" "cast_ray dir origin aim team s = (hit, s')"
    and "pt = ray_at origin (fst (dir aim) * kRayStepFp) (snd (dir aim) * kRayStepFp)"
  shows "\<exists>k. 0 < k \<and> k \<le> kMaxRaySteps
    \<and> s' = s\<lparr>sm_last_ray_hit := Vec2Fixed (ray_px (pt k)) (ray_py (pt k))\<rparr>
    \<and> (\<forall>j < k. \<bar>ray_px (pt (Suc j)) - ray_px (pt j)\<bar> \<le> kRayStepFp \<and> \<bar>ray_py (pt (Suc j)) - ray_py (pt j)\<bar> \<le> kRayStepFp)
    \<and> (\<forall>j. 0 < j \<and> j < k \<longrightarrow> \<not> ray_in_wall (pt j)
         \<and> (\<forall>i < kMaxPlayers. \<not> ray_touches (pt j) team (sm_players s ! i)))
    \<and> (case hit of
         Some i \<Rightarrow> i < kMaxPlayers \<and> \<not> ray_in_wall (pt k) \<and> ray_touches (pt k) team (sm_players s ! i)
                   \<and> (\<forall>j < i. \<not> ray_touches (pt k) team (sm_players s ! j))
       | None \<Rightarrow> ray_in_wall (pt k))"
proof -
  from cast_ray_contact [OF assms(1-3)] obtain k where k: "0 < k" "k \<le> kMaxRaySteps"
      "s' = s\<lparr>sm_last_ray_hit := ray_point (pt k)\<rparr>"
      "\<forall>j. 0 < j \<and> j < k \<longrightarrow> ray_clear (sm_players s) team (pt j)"
      "case hit of
         Some i \<Rightarrow> i < kMaxPlayers \<and> \<not> ray_in_wall (pt k) \<and> ray_touches (pt k) team (sm_players s ! i)
                   \<and> (\<forall>j < i. \<not> ray_touches (pt k) team (sm_players s ! j))
       | None \<Rightarrow> ray_in_wall (pt k)"
    unfolding assms(4) [symmetric] by blast
  have pt: "pt = ray_at origin (fst (dir aim) * 8) (snd (dir aim) * 8)" by (simp add: assms(4) config_defs)
  have exact: "ray_point (pt k) = Vec2Fixed (ray_px (pt k)) (ray_py (pt k))"
    unfolding pt ray_point_exact [OF assms(1,2) k(2)] by (simp add: ray_at_def)
  have dense: "\<bar>ray_px (pt (Suc j)) - ray_px (pt j)\<bar> \<le> kRayStepFp \<and> \<bar>ray_py (pt (Suc j)) - ray_py (pt j)\<bar> \<le> kRayStepFp" for j
    using assms(1) ray_dense [of "fst (dir aim)" j] ray_dense [of "snd (dir aim)" j]
    by (simp add: pt ray_at_def unit_direction_def config_defs add.commute)
  show ?thesis using k dense by (intro exI [of _ k]) (auto simp: exact ray_clear_def)
qed

definition east :: ray_direction where
  "east = (\<lambda>_. (1024, 0))"

text \<open>Two blue players, 3 and 5, stand in front of a red shooter: the shot is reported for player 3.\<close>

definition two_targets :: sim where
  "two_targets = (let e = default_player\<lparr>pl_active := True, pl_team := Blue, pl_position := kRedBasePosition\<rparr>;
     s = Sim InboundQueue OutboundQueue in s\<lparr>sm_players := (sm_players s)[3 := e, 5 := e]\<rparr>)"

lemma two_targets_touched:
  assumes "i < kMaxPlayers"
  shows "ray_touches (ray_at kRedBasePosition 8192 0 1) Red (sm_players two_targets ! i) \<longleftrightarrow> i = 3 \<or> i = 5"
  using assms by (auto simp: two_targets_def Let_def Sim_def nth_list_update ray_touches_def ray_at_def default_player_def kRedBasePosition_def
      tile_to_fp_def config_defs)

theorem shot_stops_at_first_contact_witness:
  "\<exists>s'. cast_ray east kRedBasePosition 0 Red two_targets = (Some 3, s')"
proof -
  let ?pt = "ray_at kRedBasePosition (fst (east 0) * kRayStepFp) (snd (east 0) * kRayStepFp)"
  obtain hit s' where c: "cast_ray east kRedBasePosition 0 Red two_targets = (hit, s')" by fastforce
  have "unit_direction (east 0)" "in_map kRedBasePosition"
    by (simp_all add: unit_direction_def east_def in_map_def kRedBasePosition_def tile_to_fp_def config_defs)
  from shot_stops_at_first_contact [OF this c refl] obtain k where k: "0 < k"
      "\<forall>j. 0 < j \<and> j < k \<longrightarrow> (\<forall>i < kMaxPlayers. \<not> ray_touches (?pt j) Red (sm_players two_targets ! i))"
      "case hit of
         Some i \<Rightarrow> i < kMaxPlayers \<and> \<not> ray_in_wall (?pt k) \<and> ray_touches (?pt k) Red (sm_players two_targets ! i)
                   \<and> (\<forall>j < i. \<not> ray_touches (?pt k) Red (sm_players two_targets ! j))
       | None \<Rightarrow> ray_in_wall (?pt k)" by blast
  have pt: "?pt 1 = ray_at kRedBasePosition 8192 0 1" by (simp add: east_def config_defs)
  have "\<not> ray_in_wall (?pt 1)" unfolding pt by code_simp
  have three: "(3 :: nat) < kMaxPlayers" by (simp add: config_defs)
  have touched: "ray_touches (?pt 1) Red (sm_players two_targets ! 3)" unfolding pt using two_targets_touched [OF three] by simp
  have "k = 1"
  proof (rule ccontr)
    assume "k \<noteq> 1"
    then have "1 < k" using k(1) by simp
    then show False using k(2) three touched by blast
  qed
  with k(3) \<open>\<not> ray_in_wall (?pt 1)\<close> obtain i where i: "hit = Some i" "i < kMaxPlayers" "ray_touches (?pt 1) Red (sm_players two_targets ! i)"
      "\<forall>j < i. \<not> ray_touches (?pt 1) Red (sm_players two_targets ! j)"
    by (cases hit) auto
  have "i = 3" using i(3,4) touched two_targets_touched [OF i(2)] unfolding pt by auto
  then show ?thesis using c i(1) by simp
qed

end
