(* ===== verification/Ring_Buffer.thy ===== *)
theory Ring_Buffer
  imports Ctf_Prelude
begin

text \<open>
  \<open>shared/ring_buffer.h\<close>: the fixed-capacity ring buffer of the client's prediction history and
  snapshot store, with the contract \<open>bounded_queue\<close> that every drop-the-oldest buffer of the
  program fulfils (the server's per-player input ring is a second instance).

  The buffer refines a list (\<open>rb_items\<close>): \<open>push_back\<close> appends and forgets the oldest element when
  full, \<open>pop_front\<close> drops the head, \<open>remove_if\<close> filters in place.
\<close>

section \<open>Contract: a queue that keeps the last elements\<close>

definition keep_last :: "nat \<Rightarrow> 'a list \<Rightarrow> 'a list" where
  "keep_last n xs = drop (length xs - n) xs"

lemma keep_last_short [simp]: "length xs \<le> n \<Longrightarrow> keep_last n xs = xs"
  by (simp add: keep_last_def)

lemma length_keep_last [simp]: "length (keep_last n xs) = min n (length xs)"
  by (simp add: keep_last_def)

lemma set_keep_last: "set (keep_last n xs) \<subseteq> set xs"
  by (simp add: keep_last_def set_drop_subset)

lemma keep_last_append: "keep_last n (keep_last n xs @ ys) = keep_last n (xs @ ys)"
proof (cases "length xs \<le> n")
  case True
  then show ?thesis by simp
next
  case False
  then have "length (keep_last n xs) = n" by simp
  then show ?thesis using False by (simp add: keep_last_def add.commute)
qed

lemma keep_last_snoc_full: "length xs = n \<Longrightarrow> 0 < n \<Longrightarrow> keep_last n (xs @ [x]) = tl xs @ [x]"
  by (cases xs) (auto simp: keep_last_def)

locale bounded_queue =
  fixes new :: 'q
    and push :: "'a \<Rightarrow> 'q \<Rightarrow> 'q"
    and pop :: "'q \<Rightarrow> 'q"
    and items :: "'q \<Rightarrow> 'a list"
    and inv :: "'q \<Rightarrow> bool"
    and cap :: nat
  assumes inv_new: "inv new"
    and items_new: "items new = []"
    and inv_push: "inv q \<Longrightarrow> inv (push x q)"
    and items_push: "inv q \<Longrightarrow> items (push x q) = keep_last cap (items q @ [x])"
    and inv_pop: "inv q \<Longrightarrow> inv (pop q)"
    and items_pop: "inv q \<Longrightarrow> items (pop q) = tl (items q)"
    and bounded: "inv q \<Longrightarrow> length (items q) \<le> cap"
begin

lemma inv_pushes: "inv q \<Longrightarrow> inv (fold push xs q)"
  by (induction xs arbitrary: q) (simp_all add: inv_push)

lemma items_pushes: "inv q \<Longrightarrow> items (fold push xs q) = keep_last cap (items q @ xs)"
proof (induction xs arbitrary: q)
  case Nil
  then show ?case by (simp add: bounded)
next
  case (Cons x xs)
  then show ?case by (simp add: inv_push items_push keep_last_append)
qed

lemma items_pushes_new: "items (fold push xs new) = keep_last cap xs"
  by (simp add: items_pushes inv_new items_new)

lemma pop_n: "inv q \<Longrightarrow> inv ((pop ^^ n) q) \<and> items ((pop ^^ n) q) = drop n (items q)"
  by (induction n) (simp_all add: inv_pop items_pop tl_drop drop_Suc)

lemma push_room: "inv q \<Longrightarrow> length (items q) < cap \<Longrightarrow> items (push x q) = items q @ [x]"
  by (simp add: items_push)

end

section \<open>The buffer\<close>

record 'a ring_buffer =
  rb_data :: "'a list"
  rb_head :: nat
  rb_tail :: nat
  rb_size :: nat

definition RingBuffer :: "nat \<Rightarrow> 'a \<Rightarrow> 'a ring_buffer" where
  "RingBuffer capacity v = \<lparr>rb_data = replicate capacity v, rb_head = 0, rb_tail = 0, rb_size = 0\<rparr>"

abbreviation rb_capacity :: "'a ring_buffer \<Rightarrow> nat" where
  "rb_capacity r \<equiv> length (rb_data r)"

definition push_back :: "'a \<Rightarrow> 'a ring_buffer \<Rightarrow> 'a ring_buffer" where
  "push_back item r =
     (let r = r\<lparr>rb_data := (rb_data r)[rb_tail r := item]\<rparr>;
          r = r\<lparr>rb_tail := (rb_tail r + 1) mod rb_capacity r\<rparr>
      in if rb_size r < rb_capacity r then r\<lparr>rb_size := rb_size r + 1\<rparr>
         else r\<lparr>rb_head := (rb_head r + 1) mod rb_capacity r\<rparr>)"

definition pop_front :: "'a ring_buffer \<Rightarrow> 'a ring_buffer" where
  "pop_front r =
     (if rb_size r = 0 then r
      else r\<lparr>rb_head := (rb_head r + 1) mod rb_capacity r, rb_size := rb_size r - 1\<rparr>)"

text \<open>One pass of the compaction loop of \<open>remove_if\<close>: the state is the array and \<open>new_size\<close>.\<close>

definition remove_if_step :: "('a \<Rightarrow> bool) \<Rightarrow> nat \<Rightarrow> nat \<Rightarrow> 'a list \<times> nat \<Rightarrow> 'a list \<times> nat" where
  "remove_if_step pred head i = (\<lambda>(data, new_size).
     let idx = (head + i) mod length data in
     if \<not> pred (data ! idx) then
       let dst = (head + new_size) mod length data in
       (if dst \<noteq> idx then data[dst := data ! idx] else data, new_size + 1)
     else (data, new_size))"

definition remove_if :: "('a \<Rightarrow> bool) \<Rightarrow> 'a ring_buffer \<Rightarrow> 'a ring_buffer" where
  "remove_if pred r =
     (let (data, new_size) = fold (remove_if_step pred (rb_head r)) [0..<rb_size r] (rb_data r, 0)
      in r\<lparr>rb_data := data, rb_size := new_size, rb_tail := (rb_head r + new_size) mod rb_capacity r\<rparr>)"

definition rb_front :: "'a ring_buffer \<Rightarrow> 'a" where
  "rb_front r = rb_data r ! rb_head r"

definition rb_back :: "'a ring_buffer \<Rightarrow> 'a" where
  "rb_back r = rb_data r ! ((rb_tail r + rb_capacity r - 1) mod rb_capacity r)"

definition rb_at :: "'a ring_buffer \<Rightarrow> nat \<Rightarrow> 'a" where
  "rb_at r i = rb_data r ! ((rb_head r + i) mod rb_capacity r)"

definition rb_empty :: "'a ring_buffer \<Rightarrow> bool" where
  "rb_empty r \<longleftrightarrow> rb_size r = 0"

text \<open>The elements a range-based for loop visits: \<open>begin()\<close> to \<open>end()\<close> through \<open>operator[]\<close>.\<close>

definition rb_items :: "'a ring_buffer \<Rightarrow> 'a list" where
  "rb_items r = map (rb_at r) [0..<rb_size r]"

definition rb_inv :: "nat \<Rightarrow> 'a ring_buffer \<Rightarrow> bool" where
  "rb_inv cap r \<longleftrightarrow> 0 < cap \<and> rb_capacity r = cap \<and> rb_head r < cap \<and> rb_size r \<le> cap
     \<and> rb_tail r = (rb_head r + rb_size r) mod cap"

section \<open>Refinement of lists\<close>

text \<open>Distinct offsets below the capacity address distinct cells of the array.\<close>

lemma slot_inj:
  fixes h i j c :: nat
  assumes "i < c" "j < c"
  shows "(h + i) mod c = (h + j) mod c \<longleftrightarrow> i = j"
proof
  assume eq: "(h + i) mod c = (h + j) mod c"
  show "i = j"
  proof (rule ccontr)
    assume "i \<noteq> j"
    then consider "i < j" | "j < i" by linarith
    then show False
    proof cases
      case 1
      then have "c dvd (h + j) - (h + i)" using eq mod_eq_dvd_iff_nat [of "h + i" "h + j" c] by auto
      then show False using 1 assms by (auto dest: dvd_imp_le)
    next
      case 2
      then have "c dvd (h + i) - (h + j)" using eq mod_eq_dvd_iff_nat [of "h + j" "h + i" c] by auto
      then show False using 2 assms by (auto dest: dvd_imp_le)
    qed
  qed
qed simp

lemma length_rb_items [simp]: "length (rb_items r) = rb_size r"
  by (simp add: rb_items_def)

lemma nth_rb_items: "i < rb_size r \<Longrightarrow> rb_items r ! i = rb_at r i"
  by (simp add: rb_items_def)

lemma rb_inv_RingBuffer: "0 < cap \<Longrightarrow> rb_inv cap (RingBuffer cap v)"
  by (simp add: rb_inv_def RingBuffer_def)

lemma rb_items_RingBuffer: "rb_items (RingBuffer cap v) = []"
  by (simp add: rb_items_def RingBuffer_def)

lemma rb_inv_push_back: "rb_inv cap r \<Longrightarrow> rb_inv cap (push_back x r)"
  by (auto simp: rb_inv_def push_back_def Let_def mod_simps)

lemma rb_inv_pop_front: "rb_inv cap r \<Longrightarrow> rb_inv cap (pop_front r)"
proof -
  assume inv: "rb_inv cap r"
  have "(Suc h mod c + s - Suc 0) mod c = (h + s) mod c" if "0 < s" for h s c :: nat
  proof (cases s)
    case (Suc k)
    then show ?thesis by (simp add: mod_simps)
  qed (use that in simp)
  then show ?thesis using inv by (auto simp: rb_inv_def pop_front_def)
qed

lemma rb_items_push_back:
  assumes "rb_inv cap r"
  shows "rb_items (push_back x r) = keep_last cap (rb_items r @ [x])"
proof (cases "rb_size r < cap")
  case True
  let ?t = "(rb_head r + rb_size r) mod cap"
  have r: "rb_capacity r = cap" "rb_tail r = ?t" "0 < cap" using assms by (auto simp: rb_inv_def)
  have "rb_at (push_back x r) i = (rb_items r @ [x]) ! i" if "i \<le> rb_size r" for i
  proof (cases "i = rb_size r")
    case False
    then have "(rb_head r + i) mod cap \<noteq> ?t" using slot_inj [of i cap "rb_size r"] that True by auto
    then show ?thesis using False that r True
      by (simp add: push_back_def rb_at_def Let_def nth_append nth_rb_items)
  qed (use r True in \<open>simp add: push_back_def rb_at_def Let_def nth_append\<close>)
  moreover have "rb_size (push_back x r) = Suc (rb_size r)"
    using True r by (simp add: push_back_def Let_def)
  ultimately show ?thesis using True
    by (intro nth_equalityI) (simp_all add: nth_rb_items)
next
  case False
  then have r: "rb_capacity r = cap" "rb_tail r = rb_head r" "0 < cap" "rb_size r = cap" "rb_head r < cap"
    using assms by (auto simp: rb_inv_def)
  let ?p = "push_back x r"
  have p: "rb_data ?p = (rb_data r)[rb_head r := x]" "rb_head ?p = Suc (rb_head r) mod cap" "rb_size ?p = cap"
    using False r by (simp_all add: push_back_def Let_def)
  have "rb_at ?p i = (tl (rb_items r) @ [x]) ! i" if i: "i < cap" for i
  proof -
    have at: "rb_at ?p i = (rb_data r)[rb_head r := x] ! ((rb_head r + Suc i) mod cap)"
      by (simp add: rb_at_def p r mod_simps)
    show ?thesis
    proof (cases "Suc i = cap")
      case True
      then have "\<not> i < cap - Suc 0" "i = cap - Suc 0" by linarith+
      then show ?thesis using True r at by (simp add: nth_append)
    next
      case False
      then have "(rb_head r + Suc i) mod cap \<noteq> rb_head r"
        using slot_inj [of "Suc i" cap 0 "rb_head r"] i r(5) by auto
      moreover have "i < cap - Suc 0" using False i by linarith
      ultimately show ?thesis using r at
        by (simp add: nth_append nth_tl nth_rb_items) (simp add: rb_at_def)
    qed
  qed
  then have "rb_items ?p = tl (rb_items r) @ [x]"
    using r p by (intro nth_equalityI) (simp_all add: nth_rb_items)
  then show ?thesis using r by (simp add: keep_last_snoc_full)
qed

lemma rb_items_pop_front:
  assumes "rb_inv cap r"
  shows "rb_items (pop_front r) = tl (rb_items r)"
proof (cases "rb_size r = 0")
  case True
  then show ?thesis by (simp add: pop_front_def rb_items_def)
next
  case False
  then show ?thesis
    by (intro nth_equalityI)
      (simp_all add: nth_tl nth_rb_items pop_front_def, simp add: rb_at_def mod_simps)
qed

lemma rb_front_hd: "rb_size r \<noteq> 0 \<Longrightarrow> rb_inv cap r \<Longrightarrow> rb_front r = hd (rb_items r)"
  by (simp add: rb_front_def rb_items_def rb_at_def hd_map rb_inv_def)

lemma rb_back_last:
  assumes "rb_inv cap r" "rb_size r \<noteq> 0"
  shows "rb_back r = last (rb_items r)"
proof -
  let ?c = "rb_capacity r"
  have c: "0 < ?c" "rb_tail r = (rb_head r + rb_size r) mod ?c" using assms(1) by (auto simp: rb_inv_def)
  have "(rb_tail r + ?c - 1) mod ?c = (rb_tail r + (?c - 1)) mod ?c" using c(1) by (intro arg_cong [where f = "\<lambda>k. k mod ?c"]) linarith
  also have "\<dots> = (rb_head r + rb_size r + (?c - 1)) mod ?c" by (simp add: c(2) mod_simps)
  also have "rb_head r + rb_size r + (?c - 1) = rb_head r + (rb_size r - 1) + ?c" using assms(2) c(1) by linarith
  finally have "rb_back r = rb_at r (rb_size r - 1)" by (simp add: rb_back_def rb_at_def)
  then show ?thesis using assms(2) by (simp add: last_conv_nth nth_rb_items flip: length_greater_0_conv)
qed


text \<open>
  The compaction loop after \<open>i\<close> rounds: the first \<open>new_size\<close> cells hold the kept elements among
  the first \<open>i\<close>, and the cells not yet visited are unchanged.
\<close>

definition compacted :: "('a \<Rightarrow> bool) \<Rightarrow> 'a ring_buffer \<Rightarrow> nat \<Rightarrow> 'a list \<times> nat \<Rightarrow> bool" where
  "compacted pred r i = (\<lambda>(data, n).
     length data = rb_capacity r \<and> n \<le> i
     \<and> map (\<lambda>j. data ! ((rb_head r + j) mod rb_capacity r)) [0..<n] = filter (Not \<circ> pred) (take i (rb_items r))
     \<and> (\<forall>j. i \<le> j \<longrightarrow> j < rb_size r \<longrightarrow> data ! ((rb_head r + j) mod rb_capacity r) = rb_items r ! j))"

lemma compacted_step:
  assumes inv: "rb_inv cap r" and i: "i < rb_size r" and comp: "compacted pred r i (data, n)"
  shows "compacted pred r (Suc i) (remove_if_step pred (rb_head r) i (data, n))"
proof -
  let ?slot = "\<lambda>j. (rb_head r + j) mod rb_capacity r" and ?x = "rb_items r ! i"
  have c: "length data = rb_capacity r" "n \<le> i" "rb_size r \<le> rb_capacity r" "0 < rb_capacity r"
    and kept: "map (\<lambda>j. data ! ?slot j) [0..<n] = filter (Not \<circ> pred) (take i (rb_items r))"
    and rest: "\<And>j. i \<le> j \<Longrightarrow> j < rb_size r \<Longrightarrow> data ! ?slot j = rb_items r ! j"
    using comp inv by (auto simp: compacted_def rb_inv_def)
  have cur: "data ! ?slot i = ?x" using rest i by blast
  have takeS: "take (Suc i) (rb_items r) = take i (rb_items r) @ [?x]"
    using i by (simp add: take_Suc_conv_app_nth)
  show ?thesis
  proof (cases "pred ?x")
    case True
    then show ?thesis using c kept rest
      by (simp add: remove_if_step_def Let_def compacted_def cur takeS)
  next
    case False
    let ?data = "data[?slot n := ?x]"
    have same: "?slot n = ?slot i \<longrightarrow> data = data[?slot i := ?x]"
      using cur by (metis list_update_id)
    have step: "remove_if_step pred (rb_head r) i (data, n) = (?data, Suc n)"
      unfolding remove_if_step_def Let_def prod.case c(1) cur using False same by (simp add: cur)
    have other: "?data ! ?slot j = data ! ?slot j" if "j \<noteq> n" "j < rb_size r" for j
      using slot_inj [of j "rb_capacity r" n "rb_head r"] that c i by (simp add: nth_list_update_neq)
    have "map (\<lambda>j. ?data ! ?slot j) [0..<n] = map (\<lambda>j. data ! ?slot j) [0..<n]"
      using other c(2) i by simp
    moreover have "?data ! ?slot n = ?x" using c by simp
    moreover have "?data ! ?slot j = rb_items r ! j" if "Suc i \<le> j" "j < rb_size r" for j
      using other [of j] rest [of j] that c(2) by simp
    ultimately show ?thesis using False kept c
      by (simp add: step compacted_def takeS)
  qed
qed

lemma compacted_loop:
  assumes "rb_inv cap r" "i \<le> rb_size r"
  shows "compacted pred r i (fold (remove_if_step pred (rb_head r)) [0..<i] (rb_data r, 0))"
  using assms(2)
proof (induction i)
  case 0
  then show ?case by (simp add: compacted_def nth_rb_items rb_at_def)
next
  case (Suc i)
  obtain data n where dn: "fold (remove_if_step pred (rb_head r)) [0..<i] (rb_data r, 0) = (data, n)" by fastforce
  have "compacted pred r (Suc i) (remove_if_step pred (rb_head r) i (data, n))"
    using compacted_step [OF assms(1)] Suc dn by simp
  then show ?case by (simp add: dn)
qed

lemma remove_if_refines:
  assumes "rb_inv cap r"
  shows "rb_inv cap (remove_if pred r)" "rb_items (remove_if pred r) = filter (Not \<circ> pred) (rb_items r)"
proof -
  obtain data n where dn: "fold (remove_if_step pred (rb_head r)) [0..<rb_size r] (rb_data r, 0) = (data, n)"
    by fastforce
  have comp: "compacted pred r (rb_size r) (data, n)"
    using compacted_loop [OF assms, of "rb_size r" pred] dn by simp
  show "rb_inv cap (remove_if pred r)"
    using assms comp by (auto simp: remove_if_def dn rb_inv_def compacted_def)
  show "rb_items (remove_if pred r) = filter (Not \<circ> pred) (rb_items r)"
    using comp by (simp add: remove_if_def dn compacted_def rb_items_def rb_at_def cong: map_cong)
qed

interpretation rb: bounded_queue "RingBuffer (Suc c) v" push_back pop_front rb_items "rb_inv (Suc c)" "Suc c"
  for c :: nat and v :: 'a
  by unfold_locales
    (simp_all add: rb_inv_RingBuffer rb_items_RingBuffer rb_inv_push_back rb_items_push_back
      rb_inv_pop_front rb_items_pop_front, simp add: rb_inv_def)

end
