(* ===== verification/Sim_Inputs.thy ===== *)
theory Sim_Inputs
  imports Sim Ring_Buffer
begin

text \<open>
  The input path of the simulation: a player's ring of eight inputs as a bounded queue of
  (sequence number, input) pairs, what \<open>drain_inbound\<close> puts into it and what \<open>pop_inputs\<close> takes
  out, one input per player and tick.
\<close>

section \<open>The input ring is a bounded queue\<close>

text \<open>The ring of a player as a \<open>ring_buffer\<close> of pairs: the two parallel arrays zipped.\<close>

definition ring_inv :: "player \<Rightarrow> bool" where
  "ring_inv p \<longleftrightarrow> length (pl_ring p) = kInputRingSize \<and> length (pl_seqs p) = kInputRingSize
     \<and> pl_ring_head p < kInputRingSize \<and> pl_ring_count p \<le> kInputRingSize"

definition as_ring_buffer :: "player \<Rightarrow> (u32 \<times> input_cmd) ring_buffer" where
  "as_ring_buffer p = \<lparr>rb_data = zip (pl_seqs p) (pl_ring p), rb_head = pl_ring_head p,
     rb_tail = (pl_ring_head p + pl_ring_count p) mod kInputRingSize, rb_size = pl_ring_count p\<rparr>"

definition queued :: "player \<Rightarrow> (u32 \<times> input_cmd) list" where
  "queued p = rb_items (as_ring_buffer p)"

lemma as_ring_buffer_inv: "ring_inv p \<Longrightarrow> rb_inv kInputRingSize (as_ring_buffer p)"
  by (simp add: ring_inv_def as_ring_buffer_def rb_inv_def config_defs)

lemma as_ring_buffer_drop:
  "ring_inv p \<Longrightarrow> 0 < pl_ring_count p \<Longrightarrow> as_ring_buffer (ring_drop p) = pop_front (as_ring_buffer p)"
proof -
  assume inv: "ring_inv p" and n: "0 < pl_ring_count p"
  then obtain k where "pl_ring_count p = Suc k" by (cases "pl_ring_count p") auto
  then show ?thesis using inv
    by (simp add: ring_drop_def as_ring_buffer_def pop_front_def ring_inv_def mod_simps)
qed

lemma ring_inv_drop: "ring_inv p \<Longrightarrow> ring_inv (ring_drop p)"
  by (auto simp: ring_inv_def ring_drop_def config_defs)

lemma queued_drop: "ring_inv p \<Longrightarrow> 0 < pl_ring_count p \<Longrightarrow> queued (ring_drop p) = tl (queued p)"
  unfolding queued_def
  by (simp add: as_ring_buffer_drop rb_items_pop_front [OF as_ring_buffer_inv])

lemma length_queued [simp]: "length (queued p) = pl_ring_count p"
  by (simp add: queued_def as_ring_buffer_def)

lemma queued_cong:
  "pl_ring p = pl_ring p' \<Longrightarrow> pl_seqs p = pl_seqs p' \<Longrightarrow> pl_ring_head p = pl_ring_head p' \<Longrightarrow>
   pl_ring_count p = pl_ring_count p' \<Longrightarrow> queued p = queued p' \<and> ring_inv p = ring_inv p'"
  by (simp add: queued_def as_ring_buffer_def ring_inv_def)

lemma ring_push_room:
  assumes "ring_inv p" "pl_ring_count p < kInputRingSize"
  shows "as_ring_buffer (ring_push (seq, cmd) p) = push_back (seq, cmd) (as_ring_buffer p)"
  using assms
  by (simp add: ring_push_def Let_def as_ring_buffer_def push_back_def ring_inv_def update_zip mod_simps)

lemma ring_push_full:
  assumes "pl_ring_count p = kInputRingSize"
  shows "ring_push x p = ring_push x (ring_drop p)"
  using assms by (cases x) (simp add: ring_push_def ring_drop_def Let_def config_defs)

lemma ring_inv_push: "ring_inv p \<Longrightarrow> ring_inv (ring_push x p)"
  by (cases x) (auto simp: ring_push_def ring_drop_def Let_def ring_inv_def config_defs)

lemma queued_push:
  assumes "ring_inv p"
  shows "queued (ring_push x p) = keep_last kInputRingSize (queued p @ [x])"
proof -
  obtain seq cmd where x: "x = (seq, cmd)" by fastforce
  have room: "queued (ring_push x q) = queued q @ [x]" if "ring_inv q" "pl_ring_count q < kInputRingSize" for q
    using that as_ring_buffer_inv [OF that(1)] length_queued [of q]
    by (simp add: queued_def x ring_push_room rb_items_push_back)
  show ?thesis
  proof (cases "pl_ring_count p < kInputRingSize")
    case True
    then show ?thesis using room assms by simp
  next
    case False
    then have full: "pl_ring_count p = kInputRingSize" using assms by (simp add: ring_inv_def)
    have "queued (ring_push x p) = queued (ring_drop p) @ [x]"
      unfolding ring_push_full [OF full] using assms full
      by (intro room ring_inv_drop) (simp_all add: ring_drop_def config_defs)
    then show ?thesis using assms full
      by (simp add: queued_drop keep_last_snoc_full config_defs)
  qed
qed

lemma ring_inv_default: "ring_inv default_player" "queued default_player = []"
  by (simp_all add: ring_inv_def default_player_def config_defs queued_def as_ring_buffer_def rb_items_def)

text \<open>\<open>pop_inputs\<close> calls the drop only on a non-empty ring; this is the guarded form.\<close>

definition ring_pop :: "player \<Rightarrow> player" where
  "ring_pop p = (if pl_ring_count p > 0 then ring_drop p else p)"

interpretation iring: bounded_queue default_player ring_push ring_pop queued ring_inv kInputRingSize
proof
  fix q :: player and x :: "u32 \<times> input_cmd"
  show "ring_inv default_player" "queued default_player = []" by (fact ring_inv_default)+
  assume inv: "ring_inv q"
  show "ring_inv (ring_push x q)" using inv by (rule ring_inv_push)
  show "queued (ring_push x q) = keep_last kInputRingSize (queued q @ [x])" using inv by (rule queued_push)
  show "ring_inv (ring_pop q)" using inv by (simp add: ring_pop_def ring_inv_drop)
  show "queued (ring_pop q) = tl (queued q)"
  proof (cases "pl_ring_count q > 0")
    case True
    then show ?thesis using inv by (simp add: ring_pop_def queued_drop)
  next
    case False
    then have "queued q = []" using length_queued [of q] by (metis gr_zeroI length_0_conv)
    then show ?thesis using False by (simp add: ring_pop_def)
  qed
  show "length (queued q) \<le> kInputRingSize" using inv by (simp add: ring_inv_def)
qed

section \<open>Deduplication: sequence numbers increase\<close>

text \<open>
  The queue of a player holds strictly increasing sequence numbers, none above the newest seen,
  and all above the one acknowledged last.
\<close>

definition seqs_inv :: "player \<Rightarrow> bool" where
  "seqs_inv p \<longleftrightarrow> sorted_wrt (<) (pl_last_input_seq p # map fst (queued p))
     \<and> (\<forall>x \<in> set (queued p). fst x \<le> pl_newest_seq p) \<and> pl_last_input_seq p \<le> pl_newest_seq p"

lemma sorted_wrt_drop: "sorted_wrt P xs \<Longrightarrow> sorted_wrt P (drop n xs)"
  by (metis append_take_drop_id sorted_wrt_append)

lemma queue_input_ring: "ring_inv p \<Longrightarrow> ring_inv (queue_input seq cmd p)"
proof -
  assume inv: "ring_inv p"
  have "ring_inv (p\<lparr>pl_newest_seq := seq\<rparr>)" using inv by (simp add: ring_inv_def)
  then show ?thesis using inv by (simp add: queue_input_def ring_inv_push)
qed

lemma queue_input_queued:
  assumes "ring_inv p"
  shows "queued (queue_input seq cmd p) =
    (if pl_alive p \<and> pl_newest_seq p < seq then keep_last kInputRingSize (queued p @ [(seq, cmd)]) else queued p)"
proof -
  have "queued (p\<lparr>pl_newest_seq := seq\<rparr>) = queued p \<and> ring_inv (p\<lparr>pl_newest_seq := seq\<rparr>) = ring_inv p"
    by (rule queued_cong) simp_all
  then show ?thesis using assms by (auto simp: queue_input_def queued_push not_le)
qed

lemma queue_input_frame [simp]:
  "pl_active (queue_input seq cmd p) = pl_active p" "pl_team (queue_input seq cmd p) = pl_team p"
  "pl_position (queue_input seq cmd p) = pl_position p" "pl_health (queue_input seq cmd p) = pl_health p"
  "pl_alive (queue_input seq cmd p) = pl_alive p" "pl_carrying_flag (queue_input seq cmd p) = pl_carrying_flag p"
  "pl_spawn_index (queue_input seq cmd p) = pl_spawn_index p"
  "pl_respawn_timer (queue_input seq cmd p) = pl_respawn_timer p"
  "pl_fire_cooldown (queue_input seq cmd p) = pl_fire_cooldown p"
  "pl_last_input_seq (queue_input seq cmd p) = pl_last_input_seq p"
  by (simp_all add: queue_input_def ring_push_def ring_drop_def Let_def)

lemma queue_input_newest:
  "pl_newest_seq (queue_input seq cmd p) = (if pl_alive p then max (pl_newest_seq p) seq else pl_newest_seq p)"
  using linear [of seq "pl_newest_seq p"]
  by (auto simp: queue_input_def ring_push_def ring_drop_def Let_def max_def)

lemma queue_input_seqs:
  assumes "ring_inv p" "seqs_inv p"
  shows "seqs_inv (queue_input seq cmd p)"
proof (cases "pl_alive p \<and> pl_newest_seq p < seq")
  case False
  then show ?thesis using assms
    by (auto simp: seqs_inv_def queue_input_queued queue_input_newest le_max_iff_disj)
next
  case True
  define all where "all = queued p @ [(seq, cmd)]"
  have all: "sorted_wrt (<) (map fst all)" "\<forall>x\<in>set all. pl_last_input_seq p < fst x" "\<forall>x\<in>set all. fst x \<le> seq"
    using assms(2) True unfolding all_def by (fastforce simp: seqs_inv_def sorted_wrt_append)+
  have sub: "set (keep_last kInputRingSize all) \<subseteq> set all" by (rule set_keep_last)
  have "map fst (keep_last kInputRingSize all) = drop (length all - kInputRingSize) (map fst all)"
    unfolding keep_last_def by (rule drop_map [symmetric])
  then have "sorted_wrt (<) (map fst (keep_last kInputRingSize all))" by (simp add: all sorted_wrt_drop)
  then have "sorted_wrt (<) (pl_last_input_seq p # map fst (keep_last kInputRingSize all))"
    "\<forall>x\<in>set (keep_last kInputRingSize all). fst x \<le> seq"
    using sub all by auto
  then show ?thesis using assms True
    by (auto simp: seqs_inv_def queue_input_queued queue_input_newest max_def all_def)
qed

section \<open>One input per player and tick\<close>

text \<open>A loop over the slots whose body touches slot \<open>i\<close> of an array only.\<close>

lemma fold_slots:
  assumes "\<And>i s. f (step i s) = (f s)[i := g i (f s ! i)]"
  shows "length (f (fold step [0..<n] s)) = length (f s) \<and>
    (\<forall>i < length (f s). f (fold step [0..<n] s) ! i = (if i < n then g i (f s ! i) else f s ! i))"
proof (induction n)
  case 0
  show ?case by simp
next
  case (Suc n)
  then show ?case by (auto simp: assms nth_list_update less_Suc_eq)
qed

definition pop_one :: "player \<Rightarrow> player" where
  "pop_one p = (if pl_active p \<and> pl_alive p \<and> pl_ring_count p > 0
     then ring_drop (p\<lparr>pl_last_input_seq := pl_seqs p ! pl_ring_head p\<rparr>) else p)"

definition popped_cmd :: "player \<Rightarrow> input_cmd" where
  "popped_cmd p = (if pl_alive p \<and> pl_ring_count p > 0 then pl_ring p ! pl_ring_head p else default_input)"

lemma pop_input_closed:
  "pop_input i s = s\<lparr>sm_players := (sm_players s)[i := pop_one (sm_players s ! i)],
     sm_applied_cmds := (sm_applied_cmds s)[i := if pl_active (sm_players s ! i)
       then popped_cmd (sm_players s ! i) else sm_applied_cmds s ! i]\<rparr>"
  by (simp add: pop_input_def Let_def pop_one_def popped_cmd_def upd_player_def)

lemma pop_inputs_slots:
  assumes "length (sm_players s) = kMaxPlayers" "length (sm_applied_cmds s) = kMaxPlayers" "i < kMaxPlayers"
  shows "sm_players (pop_inputs s) ! i = pop_one (sm_players s ! i)"
    "sm_applied_cmds (pop_inputs s) ! i =
       (if pl_active (sm_players s ! i) then popped_cmd (sm_players s ! i) else sm_applied_cmds s ! i)"
    "length (sm_players (pop_inputs s)) = kMaxPlayers" "length (sm_applied_cmds (pop_inputs s)) = kMaxPlayers"
proof -
  let ?f = "\<lambda>s. zip (sm_players s) (sm_applied_cmds s)"
  let ?g = "\<lambda>i (p, c). (pop_one p, if pl_active p then popped_cmd p else c)"
  have len: "length (sm_players (fold pop_input is s)) = length (sm_players s)
      \<and> length (sm_applied_cmds (fold pop_input is s)) = length (sm_applied_cmds s)" for "is" s
    by (induction "is" arbitrary: s) (simp_all add: pop_input_closed)
  then show l: "length (sm_players (pop_inputs s)) = kMaxPlayers" "length (sm_applied_cmds (pop_inputs s)) = kMaxPlayers"
    using assms by (simp_all add: pop_inputs_def)
  have "?f (pop_input j t) = (?f t)[j := ?g j (?f t ! j)]" for j t
  proof (cases "j < length (?f t)")
    case True
    then show ?thesis by (simp add: pop_input_closed update_zip)
  next
    case False
    then have "(?f t)[j := xy] = ?f t" for xy by (intro list_update_beyond) linarith
    then show ?thesis by (simp add: pop_input_closed flip: update_zip [where xy = "(_, _)", simplified])
  qed
  from fold_slots [OF this, of kMaxPlayers s] have "?f (pop_inputs s) ! i = ?g i (?f s ! i)"
    using assms by (simp add: pop_inputs_def)
  then show "sm_players (pop_inputs s) ! i = pop_one (sm_players s ! i)"
    "sm_applied_cmds (pop_inputs s) ! i =
       (if pl_active (sm_players s ! i) then popped_cmd (sm_players s ! i) else sm_applied_cmds s ! i)"
    using assms l by simp_all
qed

lemma queued_Nil: "queued p = [] \<longleftrightarrow> pl_ring_count p = 0"
  using length_queued [of p] by (metis length_0_conv)

lemma queued_head:
  assumes "ring_inv p" "0 < pl_ring_count p"
  shows "hd (queued p) = (pl_seqs p ! pl_ring_head p, pl_ring p ! pl_ring_head p)"
  using rb_front_hd [OF _ as_ring_buffer_inv [OF assms(1)]] assms
  by (simp add: queued_def rb_front_def as_ring_buffer_def ring_inv_def)

lemma popped_cmd_queued:
  "ring_inv p \<Longrightarrow> popped_cmd p = (if pl_alive p \<and> queued p \<noteq> [] then snd (hd (queued p)) else default_input)"
  by (simp add: popped_cmd_def queued_Nil queued_head)

lemma pop_one_ring: "ring_inv p \<Longrightarrow> ring_inv (pop_one p)"
proof -
  assume inv: "ring_inv p"
  have "ring_inv (p\<lparr>pl_last_input_seq := v\<rparr>)" for v using inv by (simp add: ring_inv_def)
  then show ?thesis using inv by (simp add: pop_one_def ring_inv_drop)
qed

lemma pop_one_queued:
  assumes "ring_inv p"
  shows "queued (pop_one p) = (if pl_active p \<and> pl_alive p then tl (queued p) else queued p)"
proof -
  have same: "queued (p\<lparr>pl_last_input_seq := v\<rparr>) = queued p \<and> ring_inv (p\<lparr>pl_last_input_seq := v\<rparr>) = ring_inv p" for v
    by (rule queued_cong) simp_all
  have "tl (queued p) = queued p" if "pl_ring_count p = 0" using that by (simp add: queued_Nil [symmetric])
  then show ?thesis using same assms by (simp add: pop_one_def queued_drop)
qed

lemma pop_one_frame [simp]:
  "pl_active (pop_one p) = pl_active p" "pl_team (pop_one p) = pl_team p"
  "pl_position (pop_one p) = pl_position p" "pl_health (pop_one p) = pl_health p"
  "pl_alive (pop_one p) = pl_alive p" "pl_carrying_flag (pop_one p) = pl_carrying_flag p"
  "pl_spawn_index (pop_one p) = pl_spawn_index p" "pl_respawn_timer (pop_one p) = pl_respawn_timer p"
  "pl_fire_cooldown (pop_one p) = pl_fire_cooldown p" "pl_newest_seq (pop_one p) = pl_newest_seq p"
  by (simp_all add: pop_one_def ring_drop_def)

lemma pop_one_ack:
  "ring_inv p \<Longrightarrow> pl_last_input_seq (pop_one p) =
     (if pl_active p \<and> pl_alive p \<and> queued p \<noteq> [] then fst (hd (queued p)) else pl_last_input_seq p)"
  by (simp add: pop_one_def ring_drop_def queued_Nil queued_head)

lemma pop_one_seqs: "ring_inv p \<Longrightarrow> seqs_inv p \<Longrightarrow> seqs_inv (pop_one p)"
  by (cases "queued p") (auto simp: seqs_inv_def pop_one_queued pop_one_ack)

section \<open>Arriving and leaving inputs\<close>

text \<open>What a sequence of received inputs leaves after the sequence-number filter.\<close>

primrec newer :: "u32 \<Rightarrow> (u32 \<times> input_cmd) list \<Rightarrow> (u32 \<times> input_cmd) list" where
  "newer m [] = []"
| "newer m (x # xs) = (if m < fst x then x # newer (fst x) xs else newer m xs)"

text \<open>
  However often inputs are repeated and in whatever order they arrive, the ring of a living player
  holds the last eight of those that were newer than everything before them, in order. Redundant
  copies and late datagrams leave it unchanged.
\<close>

lemma queue_inputs_queued:
  assumes "ring_inv p" "pl_alive p"
  shows "queued (fold (\<lambda>(seq, cmd). queue_input seq cmd) xs p) =
    keep_last kInputRingSize (queued p @ newer (pl_newest_seq p) xs)"
  using assms
proof (induction xs arbitrary: p)
  case Nil
  then show ?case by (simp add: ring_inv_def)
next
  case (Cons x xs)
  obtain seq cmd where x: "x = (seq, cmd)" by fastforce
  let ?q = "queue_input seq cmd p"
  have "ring_inv ?q" "pl_alive ?q" using Cons.prems by (simp_all add: queue_input_ring)
  then have "queued (fold (\<lambda>(seq, cmd). queue_input seq cmd) xs ?q) =
      keep_last kInputRingSize (queued ?q @ newer (pl_newest_seq ?q) xs)"
    by (rule Cons.IH)
  moreover have "keep_last kInputRingSize (keep_last kInputRingSize (queued p @ [x]) @ ys)
      = keep_last kInputRingSize (queued p @ x # ys)" for ys
    by (simp add: keep_last_append)
  ultimately show ?case
    using Cons.prems
    by (cases "pl_newest_seq p < seq") (simp_all add: x queue_input_queued queue_input_newest max_def, auto)
qed

text \<open>
  A tick takes exactly one input from every active living player that has one
  queued, the oldest, and acknowledges its sequence number; a player with an empty ring gets the
  neutral input and keeps its acknowledgement; a dead player's ring is left alone.
\<close>

lemma one_input_per_tick:
  assumes "length (sm_players s) = kMaxPlayers" "length (sm_applied_cmds s) = kMaxPlayers"
    and "i < kMaxPlayers" "ring_inv (sm_players s ! i)" "pl_active (sm_players s ! i)"
    and "p = sm_players s ! i" "q = sm_players (pop_inputs s) ! i"
  shows "case (pl_alive p, queued p) of
      (True, (seq, cmd) # rest) \<Rightarrow>
        sm_applied_cmds (pop_inputs s) ! i = cmd \<and> pl_last_input_seq q = seq \<and> queued q = rest
    | _ \<Rightarrow> sm_applied_cmds (pop_inputs s) ! i = default_input
        \<and> pl_last_input_seq q = pl_last_input_seq p \<and> queued q = queued p"
  using assms pop_inputs_slots [OF assms(1-3)]
  by (auto simp: popped_cmd_queued pop_one_queued pop_one_ack split: list.split prod.split bool.split)

end
