(* ===== verification/Sim_Invariant.thy ===== *)
theory Sim_Invariant
  imports Sim_Inputs
begin

text \<open>
  The invariant of the simulation and its preservation by every phase of the tick: what holds of
  every player slot (\<open>player_inv\<close>), and how flags, carriers and the player count fit together
  (\<open>core_inv\<close>). The last section makes it a statement about all reachable states.
\<close>

section \<open>The invariant\<close>

text \<open>The part of a slot that combat, flags and movement change.\<close>

definition vitals_inv :: "player \<Rightarrow> bool" where
  "vitals_inv p \<longleftrightarrow> unat (pl_spawn_index p) < kMaxPlayers
     \<and> 0 \<le> pl_health p \<and> pl_health p \<le> kMaxHealth \<and> (pl_alive p \<longleftrightarrow> 0 < pl_health p)
     \<and> 0 \<le> pl_fire_cooldown p \<and> pl_fire_cooldown p \<le> kFireCooldownTicks
     \<and> (\<not> pl_alive p \<longrightarrow> 0 < pl_respawn_timer p \<and> pl_respawn_timer p \<le> kRespawnDelayTicks)
     \<and> (pl_carrying_flag p \<longrightarrow> pl_active p \<and> pl_alive p)
     \<and> (pl_active p \<longrightarrow> \<not> aabb_collides (pl_position p))"

definition player_inv :: "player \<Rightarrow> bool" where
  "player_inv p \<longleftrightarrow> ring_inv p \<and> seqs_inv p \<and> (\<not> pl_active p \<longrightarrow> p = default_player) \<and> vitals_inv p"

lemma vitals_cong:
  "pl_active p = pl_active q \<Longrightarrow> pl_spawn_index p = pl_spawn_index q \<Longrightarrow> pl_health p = pl_health q \<Longrightarrow>
   pl_alive p = pl_alive q \<Longrightarrow> pl_fire_cooldown p = pl_fire_cooldown q \<Longrightarrow>
   pl_respawn_timer p = pl_respawn_timer q \<Longrightarrow> pl_carrying_flag p = pl_carrying_flag q \<Longrightarrow>
   pl_position p = pl_position q \<Longrightarrow> vitals_inv p = vitals_inv q"
  by (simp add: vitals_inv_def)

lemma inputs_cong:
  assumes "pl_ring p = pl_ring q" "pl_seqs p = pl_seqs q" "pl_ring_head p = pl_ring_head q"
    "pl_ring_count p = pl_ring_count q" "pl_newest_seq p = pl_newest_seq q" "pl_last_input_seq p = pl_last_input_seq q"
  shows "ring_inv p = ring_inv q" "seqs_inv p = seqs_inv q"
  using queued_cong [OF assms(1-4)] assms(5,6) by (simp_all add: seqs_inv_def)

text \<open>The players that carry flag \<open>fi\<close>: a player only ever carries the flag of the other team.\<close>

definition holders :: "player list \<Rightarrow> nat \<Rightarrow> nat set" where
  "holders ps fi = {i. i < kMaxPlayers \<and> pl_carrying_flag (ps ! i) \<and> enemy_flag_index (pl_team (ps ! i)) = fi}"

definition flag_inv :: "player list \<Rightarrow> nat \<Rightarrow> flag_info \<Rightarrow> bool" where
  "flag_inv ps fi f \<longleftrightarrow>
     holders ps fi = (if fl_state f = Carried then {unat (fl_carrier_id f)} else {})
     \<and> (fl_state f \<noteq> Carried \<longrightarrow> fl_carrier_id f = 0xFF)
     \<and> (fl_state f = AtBase \<longrightarrow> fl_position f = base_of (flag_team fi))"

definition active_set :: "player list \<Rightarrow> nat set" where
  "active_set ps = {i. i < kMaxPlayers \<and> pl_active (ps ! i)}"

definition core_inv :: "player list \<Rightarrow> flag_info list \<Rightarrow> int \<Rightarrow> bool" where
  "core_inv ps fs n \<longleftrightarrow> length ps = kMaxPlayers \<and> length fs = 2
     \<and> (\<forall>i < kMaxPlayers. player_inv (ps ! i)) \<and> (\<forall>fi < 2. flag_inv ps fi (fs ! fi))
     \<and> n = int (card (active_set ps))"

definition sim_inv :: "sim \<Rightarrow> bool" where
  "sim_inv s \<longleftrightarrow> core_inv (sm_players s) (sm_flags s) (sm_player_count s)
     \<and> length (sm_applied_cmds s) = kMaxPlayers \<and> length (sm_player_acks s) = kMaxPlayers
     \<and> length (sm_drop_tick s) = 2 \<and> length (sm_score s) = 2"

lemma flag_indices [simp]:
  "flag_index t < 2" "enemy_flag_index t < 2"
  "1 - flag_index t = enemy_flag_index t" "Suc 0 - flag_index t = enemy_flag_index t"
  "flag_index t \<noteq> enemy_flag_index t" "enemy_flag_index t \<noteq> flag_index t"
  "flag_team (flag_index t) = t" "flag_team (enemy_flag_index t) = enemy_of t"
  by (cases t; simp add: flag_index_def enemy_flag_index_def flag_team_def)+

section \<open>Frame facts\<close>

lemma send_event_frame [simp]:
  "sm_players (send_event c ty w s) = sm_players s" "sm_flags (send_event c ty w s) = sm_flags s"
  "sm_player_count (send_event c ty w s) = sm_player_count s"
  "sm_applied_cmds (send_event c ty w s) = sm_applied_cmds s"
  "sm_player_acks (send_event c ty w s) = sm_player_acks s" "sm_drop_tick (send_event c ty w s) = sm_drop_tick s"
  "sm_score (send_event c ty w s) = sm_score s" "sm_current_tick (send_event c ty w s) = sm_current_tick s"
  "sm_match_over (send_event c ty w s) = sm_match_over s" "sm_inbound (send_event c ty w s) = sm_inbound s"
  "sm_last_ray_hit (send_event c ty w s) = sm_last_ray_hit s"
  by (simp_all add: send_event_def emit_def)

lemma upd_player_frame [simp]:
  "sm_players (upd_player i f s) = (sm_players s)[i := f (sm_players s ! i)]" "sm_flags (upd_player i f s) = sm_flags s"
  "sm_player_count (upd_player i f s) = sm_player_count s"
  "sm_applied_cmds (upd_player i f s) = sm_applied_cmds s"
  "sm_player_acks (upd_player i f s) = sm_player_acks s" "sm_drop_tick (upd_player i f s) = sm_drop_tick s"
  "sm_score (upd_player i f s) = sm_score s" "sm_current_tick (upd_player i f s) = sm_current_tick s"
  "sm_match_over (upd_player i f s) = sm_match_over s" "sm_inbound (upd_player i f s) = sm_inbound s"
  "sm_last_ray_hit (upd_player i f s) = sm_last_ray_hit s"
  by (simp_all add: upd_player_def)

lemma upd_flag_frame [simp]:
  "sm_flags (upd_flag fi f s) = (sm_flags s)[fi := f (sm_flags s ! fi)]" "sm_players (upd_flag fi f s) = sm_players s"
  "sm_player_count (upd_flag fi f s) = sm_player_count s"
  "sm_applied_cmds (upd_flag fi f s) = sm_applied_cmds s"
  "sm_player_acks (upd_flag fi f s) = sm_player_acks s" "sm_drop_tick (upd_flag fi f s) = sm_drop_tick s"
  "sm_score (upd_flag fi f s) = sm_score s" "sm_current_tick (upd_flag fi f s) = sm_current_tick s"
  "sm_match_over (upd_flag fi f s) = sm_match_over s" "sm_inbound (upd_flag fi f s) = sm_inbound s"
  "sm_last_ray_hit (upd_flag fi f s) = sm_last_ray_hit s"
  by (simp_all add: upd_flag_def)

lemma find_player_Some:
  "find_player s pid = Some i \<longleftrightarrow> i = unat pid \<and> i < kMaxPlayers \<and> pl_active (sm_players s ! i)"
  by (auto simp: find_player_def)

section \<open>Updates that keep the core\<close>

lemma holders_update:
  assumes "i < kMaxPlayers" "length ps = kMaxPlayers"
  shows "holders (ps[i := p]) fi =
    (if pl_carrying_flag p \<and> enemy_flag_index (pl_team p) = fi then insert i (holders ps fi) else holders ps fi - {i})"
  using assms by (auto simp: holders_def nth_list_update split: if_splits)

lemma active_set_update:
  assumes "i < kMaxPlayers" "length ps = kMaxPlayers"
  shows "active_set (ps[i := p]) = (if pl_active p then insert i (active_set ps) else active_set ps - {i})"
  using assms by (auto simp: active_set_def nth_list_update split: if_splits)

lemma active_set_same:
  assumes "i < kMaxPlayers" "length ps = kMaxPlayers" "pl_active p = pl_active (ps ! i)"
  shows "active_set (ps[i := p]) = active_set ps"
  using assms by (auto simp: active_set_def nth_list_update)

lemma finite_active_set [simp]: "finite (active_set ps)"
  by (simp add: active_set_def)

lemma core_player:
  "core_inv ps fs n \<Longrightarrow> i < kMaxPlayers \<Longrightarrow> player_inv (ps ! i)"
  by (simp add: core_inv_def)

lemma core_update:
  assumes "core_inv ps fs n" "i < kMaxPlayers" "player_inv p"
    and "pl_active p = pl_active (ps ! i)" "pl_team p = pl_team (ps ! i)" "pl_carrying_flag p = pl_carrying_flag (ps ! i)"
  shows "core_inv (ps[i := p]) fs n"
proof -
  have len: "length ps = kMaxPlayers" using assms(1) by (simp add: core_inv_def)
  have "holders (ps[i := p]) fi = holders ps fi" for fi
    using assms(2,5,6) len by (auto simp: holders_def nth_list_update)
  moreover have "active_set (ps[i := p]) = active_set ps"
    using assms(2,4) len by (auto simp: active_set_def nth_list_update)
  ultimately show ?thesis using assms(1-3) len by (auto simp: core_inv_def flag_inv_def nth_list_update)
qed

lemma core_replace:
  assumes "core_inv ps fs n" "i < kMaxPlayers" "player_inv p" "length fs' = 2"
    and "\<And>fi. fi < 2 \<Longrightarrow> flag_inv (ps[i := p]) fi (fs' ! fi)" "n' = int (card (active_set (ps[i := p])))"
  shows "core_inv (ps[i := p]) fs' n'"
  using assms by (auto simp: core_inv_def nth_list_update)

lemma holders_idle:
  assumes "i < kMaxPlayers" "length ps = kMaxPlayers" "\<not> pl_carrying_flag (ps ! i)" "\<not> pl_carrying_flag p"
  shows "holders (ps[i := p]) fi = holders ps fi"
proof -
  have "i \<notin> holders ps fi" using assms(3) by (simp add: holders_def)
  then show ?thesis using assms by (simp add: holders_update)
qed

lemma inv_upd_player:
  assumes "sim_inv s" "i < kMaxPlayers" "player_inv (f (sm_players s ! i))"
    and "pl_active (f (sm_players s ! i)) = pl_active (sm_players s ! i)"
      "pl_team (f (sm_players s ! i)) = pl_team (sm_players s ! i)"
      "pl_carrying_flag (f (sm_players s ! i)) = pl_carrying_flag (sm_players s ! i)"
  shows "sim_inv (upd_player i f s)"
  using assms core_update by (simp add: sim_inv_def)

lemma inv_send_event [simp]: "sim_inv (send_event c ty w s) = sim_inv s"
  by (simp add: sim_inv_def)

lemma inv_player: "sim_inv s \<Longrightarrow> i < kMaxPlayers \<Longrightarrow> player_inv (sm_players s ! i)"
  by (simp add: sim_inv_def core_inv_def)

lemma inv_flag: "sim_inv s \<Longrightarrow> fi < 2 \<Longrightarrow> flag_inv (sm_players s) fi (sm_flags s ! fi)"
  by (simp add: sim_inv_def core_inv_def)

text \<open>The generic step for a loop over the slots.\<close>

lemma inv_fold:
  assumes "\<And>i s. i \<in> set is \<Longrightarrow> sim_inv s \<Longrightarrow> sim_inv (step i s)" "sim_inv s"
  shows "sim_inv (fold step is s)"
  using assms by (induction "is" arbitrary: s) auto

section \<open>Commands\<close>

lemma spawn_free:
  assumes "k < kMaxPlayers"
  shows "\<not> aabb_collides (spawns_of team ! k)"
proof -
  have "list_all (\<lambda>p. \<not> aabb_collides p) (spawns_of team)" using spawn_points_free by (simp add: spawns_of_def)
  then show ?thesis using assms spawn_counts by (simp add: list_all_length spawns_of_def)
qed

lemma player_inv_default: "player_inv default_player"
  by (simp add: player_inv_def ring_inv_default seqs_inv_def)
    (simp add: vitals_inv_def default_player_def config_defs)


lemma joined_inv:
  assumes "unat si < kMaxPlayers"
  shows "player_inv (default_player\<lparr>pl_active := True, pl_team := team, pl_spawn_index := si,
                  pl_position := spawns_of team ! unat si, pl_health := kMaxHealth, pl_alive := True,
                  pl_carrying_flag := False, pl_respawn_timer := 0, pl_fire_cooldown := 0,
                  pl_ring_head := 0, pl_ring_count := 0, pl_last_input_seq := 0\<rparr>)" (is "player_inv ?p")
proof -
  have "queued ?p = queued default_player \<and> ring_inv ?p = ring_inv default_player"
    by (rule queued_cong) (simp_all add: default_player_def)
  then have "ring_inv ?p" "seqs_inv ?p" by (simp_all add: ring_inv_default seqs_inv_def)
  then show ?thesis using assms spawn_free [OF assms] by (simp add: player_inv_def vitals_inv_def) (simp add: default_player_def config_defs)
qed

lemma inv_join: "sim_inv s \<Longrightarrow> sim_inv (apply_join pid team spawn s)"
proof (cases "sm_match_over s \<or> find_player s pid \<noteq> None \<or> unat pid \<ge> kMaxPlayers")
  case True
  assume "sim_inv s"
  then show ?thesis using True by (auto simp: apply_join_def)
next
  case False
  assume inv: "sim_inv s"
  let ?i = "unat pid" and ?si = "if unat spawn < kMaxPlayers then spawn else 0"
  have i: "?i < kMaxPlayers" and idle: "\<not> pl_active (sm_players s ! ?i)"
    using False by (auto simp: find_player_def)
  then have slot: "sm_players s ! ?i = default_player" using inv_player [OF inv i] by (simp add: player_inv_def)
  have si: "unat ?si < kMaxPlayers" by (simp add: config_defs)
  define p where "p = default_player\<lparr>pl_active := True, pl_team := team, pl_spawn_index := ?si,
                  pl_position := spawns_of team ! unat ?si, pl_health := kMaxHealth, pl_alive := True,
                  pl_carrying_flag := False, pl_respawn_timer := 0, pl_fire_cooldown := 0,
                  pl_ring_head := 0, pl_ring_count := 0, pl_last_input_seq := 0\<rparr>"
  have eq: "apply_join pid team spawn s =
      (upd_player ?i (\<lambda>_. p) s)\<lparr>sm_player_count := sm_player_count s + 1\<rparr>"
    using False unfolding apply_join_def Let_def by (simp add: upd_player_def slot p_def)
  have pinv: "player_inv p" unfolding p_def by (rule joined_inv [OF si])
  have pf: "pl_active p" "\<not> pl_carrying_flag p" by (simp_all add: p_def)
  have core: "core_inv (sm_players s) (sm_flags s) (sm_player_count s)" using inv by (simp add: sim_inv_def)
  then have len: "length (sm_players s) = kMaxPlayers" by (simp add: core_inv_def)
  have nocarry: "\<not> pl_carrying_flag (sm_players s ! ?i)" by (simp add: slot default_player_def)
  have hold: "holders ((sm_players s)[?i := p]) fi = holders (sm_players s) fi" for fi
    using holders_idle [OF i len nocarry pf(2)] .
  have "?i \<notin> active_set (sm_players s)" using idle by (simp add: active_set_def)
  then have "sm_player_count s + 1 = int (card (active_set ((sm_players s)[?i := p])))"
    using core i len pf by (simp add: active_set_update core_inv_def)
  then have "core_inv ((sm_players s)[?i := p]) (sm_flags s) (sm_player_count s + 1)"
    using core by (intro core_replace [OF core i pinv]) (auto simp: core_inv_def flag_inv_def hold)
  then show ?thesis using inv by (simp add: eq sim_inv_def)
qed

text \<open>A player gives up the flag it may carry: on leaving, on death and on capture.\<close>

definition put_down :: "player \<Rightarrow> flag_info \<Rightarrow> flag_info list \<Rightarrow> flag_info list" where
  "put_down p f fs = (if pl_carrying_flag p then fs[enemy_flag_index (pl_team p) := f] else fs)"

lemma core_put_down:
  assumes core: "core_inv ps fs n" and i: "i < kMaxPlayers" and new: "player_inv p'" "\<not> pl_carrying_flag p'"
    and f: "fl_state f \<noteq> Carried" "fl_carrier_id f = 0xFF"
      "fl_state f = AtBase \<Longrightarrow> fl_position f = base_of (enemy_of (pl_team (ps ! i)))"
    and n': "n' = int (card (active_set (ps[i := p'])))"
  shows "core_inv (ps[i := p']) (put_down (ps ! i) f fs) n'"
proof -
  let ?p = "ps ! i" and ?fs = "put_down (ps ! i) f fs"
  have len: "length ps = kMaxPlayers" "length fs = 2" using core by (simp_all add: core_inv_def)
  have old: "flag_inv ps fi (fs ! fi)" if "fi < 2" for fi using core that by (simp add: core_inv_def)
  have hold: "holders (ps[i := p']) fi = holders ps fi - {i}" for fi
    using i len new(2) by (simp add: holders_update)
  have "flag_inv (ps[i := p']) fi (?fs ! fi)" if fi: "fi < 2" for fi
  proof (cases "pl_carrying_flag ?p \<and> fi = enemy_flag_index (pl_team ?p)")
    case True
    have "i \<in> holders ps fi" using True i by (simp add: holders_def)
    then have "holders ps fi = {i}" using old [OF fi] by (auto simp: flag_inv_def split: if_splits)
    then show ?thesis using True len fi f by (simp add: flag_inv_def hold put_down_def)
  next
    case False
    then have "i \<notin> holders ps fi" by (auto simp: holders_def)
    moreover have "?fs ! fi = fs ! fi" using False by (auto simp: put_down_def)
    ultimately show ?thesis using old [OF fi] by (simp add: flag_inv_def hold)
  qed
  then show ?thesis using len n' by (intro core_replace [OF core i new(1)]) (simp_all add: put_down_def)
qed

lemma inv_leave:
  assumes inv: "sim_inv s"
  shows "sim_inv (apply_leave pid s)"
proof (cases "find_player s pid")
  case None
  then show ?thesis using inv by (simp add: apply_leave_def)
next
  case (Some i)
  then have i: "i < kMaxPlayers" and act: "i \<in> active_set (sm_players s)"
    by (auto simp: find_player_Some active_set_def)
  let ?p = "sm_players s ! i" and ?ps = "(sm_players s)[i := default_player]"
  let ?f = "(sm_flags s ! enemy_flag_index (pl_team ?p))
      \<lparr>fl_state := Dropped, fl_position := pl_position ?p, fl_carrier_id := 0xFF\<rparr>"
  have core: "core_inv (sm_players s) (sm_flags s) (sm_player_count s)" using inv by (simp add: sim_inv_def)
  then have len: "length (sm_players s) = kMaxPlayers" by (simp add: core_inv_def)
  have out: "\<not> pl_carrying_flag default_player" "\<not> pl_active default_player" by (simp_all add: default_player_def)
  have "0 < card (active_set (sm_players s))" using act by (auto simp: card_gt_0_iff)
  then have "sm_player_count s - 1 = int (card (active_set ?ps))"
    using core i len out act by (simp add: active_set_update core_inv_def)
  then have "core_inv ?ps (put_down ?p ?f (sm_flags s)) (sm_player_count s - 1)"
    by (intro core_put_down [OF core i player_inv_default out(1)]) simp_all
  then show ?thesis using inv Some
    by (auto simp: apply_leave_def Let_def sim_inv_def drop_flag_def put_down_def)
qed

lemma player_inv_queue: "player_inv p \<Longrightarrow> pl_active p \<Longrightarrow> player_inv (queue_input seq cmd p)"
  using vitals_cong [of "queue_input seq cmd p" p] by (simp add: player_inv_def queue_input_ring queue_input_seqs)

lemma inv_command: "sim_inv s \<Longrightarrow> sim_inv (apply_command cmd s)"
proof -
  assume inv: "sim_inv s"
  have "sim_inv (upd_player i (queue_input seq inp) s)" if "find_player s pid = Some i" for i seq inp pid
    using inv that by (intro inv_upd_player) (auto simp: find_player_Some intro: player_inv_queue inv_player)
  then show ?thesis
    using inv inv_join inv_leave by (simp add: apply_command_def split: inbound_command_type.split option.split)
qed

lemma inv_inbound [simp]: "sim_inv (s\<lparr>sm_inbound := q\<rparr>) = sim_inv s"
  by (simp add: sim_inv_def)

lemma inv_drain: "sim_inv s \<Longrightarrow> sim_inv (drain_inbound s)"
proof (induction s rule: drain_inbound.induct)
  case (1 s)
  then show ?case
    by (subst drain_inbound.simps) (auto simp: inv_command split: option.split prod.split)
qed

section \<open>Inputs and movement\<close>

lemma player_inv_pop: "player_inv p \<Longrightarrow> player_inv (pop_one p)"
proof -
  assume inv: "player_inv p"
  show ?thesis
  proof (cases "pl_active p")
    case True
    then show ?thesis using inv vitals_cong [of "pop_one p" p] by (simp add: player_inv_def pop_one_ring pop_one_seqs)
  next
    case False
    then show ?thesis using inv by (simp add: pop_one_def)
  qed
qed

lemma inv_pop: "sim_inv s \<Longrightarrow> i < kMaxPlayers \<Longrightarrow> sim_inv (pop_input i s)"
  using core_update [of "sm_players s" "sm_flags s" "sm_player_count s" i "pop_one (sm_players s ! i)"]
    player_inv_pop [OF inv_player, of s i]
  by (simp add: pop_input_closed sim_inv_def)

lemma inv_pops: "sim_inv s \<Longrightarrow> sim_inv (pop_inputs s)"
  unfolding pop_inputs_def by (rule inv_fold) (auto simp: inv_pop)

lemma inv_move:
  assumes inv: "sim_inv s" and i: "i < kMaxPlayers"
  shows "sim_inv (move_player i s)"
proof (cases "pl_active (sm_players s ! i) \<and> pl_alive (sm_players s ! i)")
  case False
  then show ?thesis using inv by (auto simp: move_player_def Let_def)
next
  case True
  let ?p = "sm_players s ! i"
  let ?q = "?p\<lparr>pl_position := position (movement_step (default_motion\<lparr>position := pl_position ?p\<rparr>) (sm_applied_cmds s ! i)),
      pl_aim_angle := aim_angle (sm_applied_cmds s ! i)\<rparr>"
  have "ring_inv ?q = ring_inv ?p" "seqs_inv ?q = seqs_inv ?p" by (rule inputs_cong; simp)+
  moreover have "\<not> aabb_collides (pl_position ?q)"
    using inv_player [OF inv i] True by (simp add: player_inv_def vitals_inv_def movement_free)
  ultimately have "player_inv ?q" using inv_player [OF inv i] True by (simp add: player_inv_def vitals_inv_def)
  then show ?thesis using True inv i unfolding move_player_def Let_def by (simp add: inv_upd_player)
qed

lemma inv_moves: "sim_inv s \<Longrightarrow> sim_inv (move_players s)"
  unfolding move_players_def by (rule inv_fold) (auto simp: inv_move)

section \<open>Combat\<close>

lemma ray_march_hit:
  "ray_march ps team sx sy n r = (Some i, r') \<Longrightarrow> i < kMaxPlayers \<and> ray_touches r' team (ps ! i)"
  by (induction n arbitrary: r) (auto simp: Let_def find_Some_iff split: if_splits option.splits)

lemma cast_ray_frame:
  assumes "cast_ray dir origin aim team s = (hit, s')"
  shows "\<exists>v. s' = s\<lparr>sm_last_ray_hit := v\<rparr>"
    "hit = Some e \<Longrightarrow> e < kMaxPlayers \<and> pl_active (sm_players s ! e) \<and> pl_alive (sm_players s ! e)
       \<and> pl_team (sm_players s ! e) \<noteq> team"
  using assms ray_march_hit unfolding cast_ray_def Let_def
  by (auto split: prod.splits) (force simp: ray_touches_def)+

definition killed :: "player \<Rightarrow> player" where
  "killed p = p\<lparr>pl_alive := False, pl_health := 0, pl_respawn_timer := kRespawnDelayTicks, pl_carrying_flag := False\<rparr>"

lemma killed_idle:
  "\<not> pl_carrying_flag p \<Longrightarrow> p\<lparr>pl_alive := False, pl_health := 0, pl_respawn_timer := kRespawnDelayTicks\<rparr> = killed p"
  by (cases p) (simp add: killed_def)

lemma player_inv_killed: "player_inv p \<Longrightarrow> pl_active p \<Longrightarrow> player_inv (killed p)"
  using inputs_cong [of "killed p" p]
  by (simp add: player_inv_def killed_def vitals_inv_def config_defs)

lemma inv_death:
  assumes inv: "sim_inv s" and i: "i < kMaxPlayers" and act: "pl_active (sm_players s ! i)"
  shows "sim_inv (handle_death i s)"
proof -
  let ?p = "sm_players s ! i" and ?ps = "(sm_players s)[i := killed (sm_players s ! i)]"
  let ?f = "(sm_flags s ! enemy_flag_index (pl_team ?p))
      \<lparr>fl_state := Dropped, fl_position := pl_position ?p, fl_carrier_id := 0xFF\<rparr>"
  have core: "core_inv (sm_players s) (sm_flags s) (sm_player_count s)" using inv by (simp add: sim_inv_def)
  then have len: "length (sm_players s) = kMaxPlayers" by (simp add: core_inv_def)
  have "active_set ?ps = active_set (sm_players s)"
    using i len by (intro active_set_same) (simp_all add: killed_def)
  then have "core_inv ?ps (put_down ?p ?f (sm_flags s)) (sm_player_count s)"
    using core by (intro core_put_down [OF core i player_inv_killed [OF inv_player [OF inv i] act]])
      (simp_all add: killed_def core_inv_def)
  moreover have "sm_players (handle_death i s) = ?ps" "sm_flags (handle_death i s) = put_down ?p ?f (sm_flags s)"
    using i len by (auto simp: handle_death_def Let_def drop_flag_def put_down_def killed_idle) (simp add: killed_def)
  moreover have "sm_player_count (handle_death i s) = sm_player_count s"
      "length (sm_applied_cmds (handle_death i s)) = length (sm_applied_cmds s)"
      "length (sm_player_acks (handle_death i s)) = length (sm_player_acks s)"
      "length (sm_drop_tick (handle_death i s)) = length (sm_drop_tick s)"
      "length (sm_score (handle_death i s)) = length (sm_score s)"
    by (simp_all add: handle_death_def Let_def drop_flag_def)
  ultimately show ?thesis using inv by (simp add: sim_inv_def)
qed

text \<open>\<open>handle_death\<close> overwrites the health, so the damage just applied does not matter.\<close>

lemma handle_death_damage:
  "i < length (sm_players s) \<Longrightarrow> handle_death i (upd_player i (\<lambda>v. v\<lparr>pl_health := h v\<rparr>) s) = handle_death i s"
  by (simp add: handle_death_def upd_player_def Let_def)

lemma player_inv_hurt:
  assumes "player_inv p" "pl_active p" "pl_alive p" "kDamagePerShot < pl_health p"
  shows "player_inv (p\<lparr>pl_health := pl_health p - kDamagePerShot\<rparr>)"
  using assms inputs_cong [of "p\<lparr>pl_health := pl_health p - kDamagePerShot\<rparr>" p]
  by (simp add: player_inv_def vitals_inv_def config_defs)

lemma player_inv_cooldown:
  assumes "player_inv p" "pl_active p" "0 \<le> c" "c \<le> kFireCooldownTicks"
  shows "player_inv (p\<lparr>pl_fire_cooldown := c\<rparr>)"
  using assms inputs_cong [of "p\<lparr>pl_fire_cooldown := c\<rparr>" p] by (auto simp: player_inv_def vitals_inv_def)

text \<open>The effect of a shot on the player it hits.\<close>

definition hit_player :: "nat \<Rightarrow> nat \<Rightarrow> sim \<Rightarrow> sim" where
  "hit_player shooter enemy s =
     (if pl_health (sm_players s ! enemy) > kDamagePerShot
      then upd_player enemy (\<lambda>v. v\<lparr>pl_health := pl_health v - kDamagePerShot\<rparr>) s
      else let s = handle_death enemy s
           in send_event TcpBroadcast PlayerKilled (encode_player_killed
                \<lparr>pk_victim_id = word_of_nat enemy, pk_killer_id = word_of_nat shooter,
                 pk_tick = sm_current_tick s\<rparr>) s)"

definition shot_event :: "nat \<Rightarrow> vec2 \<Rightarrow> u16 \<Rightarrow> sim \<Rightarrow> sim" where
  "shot_event i center aim s = send_event UdpEvent ShotFired (encode_shot_fired
     \<lparr>sf_shooter_id = word_of_nat i, sf_origin = center, sf_aim_angle = aim, sf_hit_point = sm_last_ray_hit s\<rparr>) s"

lemma shot_event_frame [simp]: "sm_players (shot_event i c a s) = sm_players s" "sim_inv (shot_event i c a s) = sim_inv s"
  by (simp_all add: shot_event_def)

lemma combat_fire:
  assumes "pl_active (sm_players s ! i)" "pl_alive (sm_players s ! i)" "pl_fire_cooldown (sm_players s ! i) \<le> 0"
    "buttons (sm_applied_cmds s ! i) AND kInputFire \<noteq> 0" "length (sm_players s) = kMaxPlayers"
    and "center = Vec2Fixed (vx (pl_position (sm_players s ! i)) + half_box) (vy (pl_position (sm_players s ! i)) + half_box)"
    and "cast_ray dir center (aim_angle (sm_applied_cmds s ! i)) (pl_team (sm_players s ! i)) s = (hit, s1)"
    and "s2 = upd_player i (\<lambda>p. p\<lparr>pl_fire_cooldown := kFireCooldownTicks\<rparr>)
           (shot_event i center (aim_angle (sm_applied_cmds s ! i)) s1)"
  shows "combat_player dir i s = (case hit of None \<Rightarrow> s2 | Some enemy \<Rightarrow> hit_player i enemy s2)"
proof -
  have frame: "\<exists>v. s1 = s\<lparr>sm_last_ray_hit := v\<rparr>" using cast_ray_frame(1) [OF assms(7)] .
  have e: "e < length (sm_players s2)" if "hit = Some e" for e
    using cast_ray_frame(2) [OF assms(7) that] frame assms(5) by (auto simp: assms(8))
  let ?dmg = "\<lambda>v. if pl_health v > kDamagePerShot then pl_health v - kDamagePerShot else 0"
  have hurt: "upd_player a (\<lambda>v. v\<lparr>pl_health := ?dmg v\<rparr>) s2 = upd_player a (\<lambda>v. v\<lparr>pl_health := pl_health v - kDamagePerShot\<rparr>) s2"
    if "kDamagePerShot < pl_health (sm_players s2 ! a)" for a using that by (simp add: upd_player_def)
  have step: "(let s = upd_player a (\<lambda>v. v\<lparr>pl_health := ?dmg v\<rparr>) s2
       in if pl_health (sm_players s ! a) = 0 then
            let s = handle_death a s
            in send_event TcpBroadcast PlayerKilled (encode_player_killed
                 \<lparr>pk_victim_id = word_of_nat a, pk_killer_id = word_of_nat i, pk_tick = sm_current_tick s\<rparr>) s
          else s) = hit_player i a s2" if "hit = Some a" for a
    using e [OF that] hurt [of a] by (simp add: hit_player_def handle_death_damage [where h = ?dmg] Let_def)
  show ?thesis
    using assms(1-4) step unfolding combat_player_def Let_def assms(6) [symmetric] assms(7) prod.case
    unfolding shot_event_def [symmetric] assms(8) [symmetric]
    by (cases hit) simp_all
qed

lemma inv_hit:
  assumes "sim_inv s" "e < kMaxPlayers" "pl_active (sm_players s ! e)" "pl_alive (sm_players s ! e)"
  shows "sim_inv (hit_player i e s)"
proof -
  have "sim_inv (upd_player e (\<lambda>v. v\<lparr>pl_health := pl_health v - kDamagePerShot\<rparr>) s)"
    if "kDamagePerShot < pl_health (sm_players s ! e)"
    using assms that by (intro inv_upd_player) (simp_all add: player_inv_hurt inv_player)
  then show ?thesis using assms by (simp add: hit_player_def Let_def inv_death)
qed

lemma inv_combat:
  assumes inv: "sim_inv s" and i: "i < kMaxPlayers"
  shows "sim_inv (combat_player dir i s)"
proof -
  let ?p = "sm_players s ! i" and ?cmd = "sm_applied_cmds s ! i"
  consider (idle) "\<not> pl_active ?p \<or> \<not> pl_alive ?p"
    | (cooling) "pl_active ?p" "pl_alive ?p" "0 < pl_fire_cooldown ?p"
    | (quiet) "pl_active ?p" "pl_alive ?p" "pl_fire_cooldown ?p \<le> 0" "buttons ?cmd AND kInputFire = 0"
    | (fire) "pl_active ?p" "pl_alive ?p" "pl_fire_cooldown ?p \<le> 0" "buttons ?cmd AND kInputFire \<noteq> 0"
    by linarith
  then show ?thesis
  proof cases
    case cooling
    have "player_inv (?p\<lparr>pl_fire_cooldown := pl_fire_cooldown ?p - 1\<rparr>)"
      using inv_player [OF inv i] cooling
      by (intro player_inv_cooldown) (auto simp: player_inv_def vitals_inv_def)
    then show ?thesis using cooling inv i
      by (simp add: combat_player_def Let_def inv_upd_player)
  next
    case fire
    let ?center = "Vec2Fixed (vx (pl_position ?p) + half_box) (vy (pl_position ?p) + half_box)"
    have len: "length (sm_players s) = kMaxPlayers" using inv by (simp add: sim_inv_def core_inv_def)
    obtain hit s1 where ray: "cast_ray dir ?center (aim_angle ?cmd) (pl_team ?p) s = (hit, s1)" by fastforce
    obtain v where s1: "s1 = s\<lparr>sm_last_ray_hit := v\<rparr>" using cast_ray_frame(1) [OF ray] by blast
    define s2 where "s2 = upd_player i (\<lambda>p. p\<lparr>pl_fire_cooldown := kFireCooldownTicks\<rparr>)
        (shot_event i ?center (aim_angle ?cmd) s1)"
    have "player_inv (?p\<lparr>pl_fire_cooldown := kFireCooldownTicks\<rparr>)"
      using inv_player [OF inv i] fire by (intro player_inv_cooldown) (auto simp: config_defs)
    moreover have "sim_inv s1" using inv by (simp add: s1 sim_inv_def)
    ultimately have inv2: "sim_inv s2" unfolding s2_def using i by (intro inv_upd_player) (simp_all add: s1)
    have "sim_inv (hit_player i e s2)" if e: "hit = Some e" for e
    proof -
      have "e < kMaxPlayers" "pl_active (sm_players s ! e)" "pl_alive (sm_players s ! e)"
        using cast_ray_frame(2) [OF ray e] by simp_all
      then show ?thesis using inv2 i len
        by (intro inv_hit) (auto simp: s2_def s1 nth_list_update)
    qed
    then show ?thesis
      using combat_fire [OF fire len refl ray s2_def] inv2 by (simp split: option.split)
  qed (use inv in \<open>auto simp: combat_player_def Let_def\<close>)
qed

lemma inv_combats: "sim_inv s \<Longrightarrow> sim_inv (combat dir s)"
  unfolding combat_def by (rule inv_fold) (auto simp: inv_combat)

section \<open>Flags and respawn\<close>

lemma core_set_flag:
  assumes "core_inv ps fs n" "fi < 2" "flag_inv ps fi f"
  shows "core_inv ps (fs[fi := f]) n"
  using assms by (auto simp: core_inv_def nth_list_update)

lemma inv_set_flag:
  assumes "sim_inv s" "fi < 2" "flag_inv (sm_players s) fi (f (sm_flags s ! fi))"
  shows "sim_inv (upd_flag fi f s)"
  using assms core_set_flag by (simp add: sim_inv_def)

lemma inv_reset_flag:
  assumes "sim_inv s" "fi < 2" "fl_state (sm_flags s ! fi) \<noteq> Carried"
  shows "sim_inv (reset_flag fi s)"
  unfolding reset_flag_def using inv_flag [OF assms(1,2)] assms
  by (intro inv_set_flag) (auto simp: flag_inv_def)

lemma inv_follow:
  assumes inv: "sim_inv s" and fi: "fi < 2"
  shows "sim_inv (flag_follow fi s)"
proof -
  have "sim_inv (upd_flag fi (\<lambda>f. f\<lparr>fl_position := v\<rparr>) s)" if "fl_state (sm_flags s ! fi) = Carried" for v
    using inv_flag [OF inv fi] that inv fi by (intro inv_set_flag) (auto simp: flag_inv_def)
  then show ?thesis
    using inv fi by (simp add: flag_follow_def Let_def inv_reset_flag split: option.split)
qed

lemma inv_return: "sim_inv s \<Longrightarrow> sim_inv (flag_return i s)"
  by (simp add: flag_return_def Let_def inv_reset_flag)

lemma player_inv_carry:
  assumes "player_inv p" "pl_active p" "pl_alive p"
  shows "player_inv (p\<lparr>pl_carrying_flag := b\<rparr>)"
  using assms inputs_cong [of "p\<lparr>pl_carrying_flag := b\<rparr>" p] by (auto simp: player_inv_def vitals_inv_def)

lemma inv_pickup:
  assumes inv: "sim_inv s" and i: "i < kMaxPlayers" and p: "pl_active (sm_players s ! i)" "pl_alive (sm_players s ! i)"
  shows "sim_inv (flag_pickup i s)"
proof -
  let ?p = "sm_players s ! i" and ?fi = "enemy_flag_index (pl_team (sm_players s ! i))"
  let ?ps = "(sm_players s)[i := ?p\<lparr>pl_carrying_flag := True\<rparr>]"
  let ?fs = "(sm_flags s)[?fi := (sm_flags s ! ?fi)\<lparr>fl_state := Carried, fl_carrier_id := word_of_nat i\<rparr>]"
  have core: "core_inv (sm_players s) (sm_flags s) (sm_player_count s)" using inv by (simp add: sim_inv_def)
  then have len: "length (sm_players s) = kMaxPlayers" "length (sm_flags s) = 2" by (simp_all add: core_inv_def)
  have core': "core_inv ?ps ?fs (sm_player_count s)"
    if free: "\<not> pl_carrying_flag ?p" "fl_state (sm_flags s ! ?fi) \<noteq> Carried"
  proof (intro core_replace [OF core i])
    show "player_inv (?p\<lparr>pl_carrying_flag := True\<rparr>)" using inv_player [OF inv i] p by (rule player_inv_carry)
    show "sm_player_count s = int (card (active_set ?ps))"
      using core i len by (subst active_set_same) (simp_all add: core_inv_def)
    have none: "i \<notin> holders (sm_players s) fi" for fi using free by (simp add: holders_def)
    have small: "unat (word_of_nat i :: u8) = i" using i by (simp add: unsigned_of_nat config_defs take_bit_nat_eq_self)
    have other: "holders ?ps fi = holders (sm_players s) fi" if "fi \<noteq> ?fi" for fi
      using that i len none [of fi] by (simp add: holders_update)
    show "flag_inv ?ps fi (?fs ! fi)" if fi: "fi < 2" for fi
    proof (cases "fi = ?fi")
      case True
      then show ?thesis using inv_flag [OF inv, of ?fi] free i len small
        by (simp add: flag_inv_def holders_update)
    next
      case False
      then show ?thesis using inv_flag [OF inv fi] by (simp add: flag_inv_def other)
    qed
  qed (use len in simp)
  then show ?thesis using inv by (simp add: flag_pickup_def Let_def sim_inv_def)
qed

lemma inv_capture:
  assumes inv: "sim_inv s" and i: "i < kMaxPlayers" and p: "pl_active (sm_players s ! i)" "pl_alive (sm_players s ! i)"
  shows "sim_inv (flag_capture i s)"
proof -
  let ?p = "sm_players s ! i"
  let ?ps = "(sm_players s)[i := ?p\<lparr>pl_carrying_flag := False\<rparr>]" and ?fi = "enemy_flag_index (pl_team ?p)"
  let ?f = "(sm_flags s ! ?fi)\<lparr>fl_state := AtBase, fl_position := base_of (flag_team ?fi), fl_carrier_id := 0xFF\<rparr>"
  have core: "core_inv (sm_players s) (sm_flags s) (sm_player_count s)" using inv by (simp add: sim_inv_def)
  then have len: "length (sm_players s) = kMaxPlayers" by (simp add: core_inv_def)
  have "core_inv ?ps (put_down ?p ?f (sm_flags s)) (sm_player_count s)"
  proof (rule core_put_down [OF core i player_inv_carry [OF inv_player [OF inv i] p]])
    show "sm_player_count s = int (card (active_set ?ps))"
      using core i len by (subst active_set_same) (simp_all add: core_inv_def)
  qed simp_all
  then show ?thesis using inv
    by (auto simp: flag_capture_def Let_def sim_inv_def put_down_def reset_flag_def)
qed

lemma flag_step_frame:
  "pl_active (sm_players (flag_return i s) ! j) = pl_active (sm_players s ! j)"
  "pl_alive (sm_players (flag_return i s) ! j) = pl_alive (sm_players s ! j)"
  "i < length (sm_players s) \<Longrightarrow> pl_active (sm_players (flag_pickup i s) ! j) = pl_active (sm_players s ! j)"
  "i < length (sm_players s) \<Longrightarrow> pl_alive (sm_players (flag_pickup i s) ! j) = pl_alive (sm_players s ! j)"
  "sm_players (flag_return i s) = sm_players s"
  by (simp_all add: flag_return_def flag_pickup_def reset_flag_def Let_def nth_list_update)

lemma inv_flag_player:
  assumes inv: "sim_inv s" and i: "i < kMaxPlayers"
  shows "sim_inv (flag_player i s)"
proof (cases "pl_active (sm_players s ! i) \<and> pl_alive (sm_players s ! i)")
  case False
  then show ?thesis using inv by (auto simp: flag_player_def Let_def)
next
  case True
  have len: "length (sm_players s) = kMaxPlayers" using inv by (simp add: sim_inv_def core_inv_def)
  have "sim_inv (flag_pickup i (flag_return i s))"
    using inv i True by (intro inv_pickup inv_return) (simp_all add: flag_step_frame)
  then show ?thesis using True i len
    by (simp add: flag_player_def Let_def inv_capture flag_step_frame)
qed

lemma inv_respawn:
  assumes inv: "sim_inv s" and i: "i < kMaxPlayers"
  shows "sim_inv (respawn_player i s)"
proof (cases "\<not> pl_active (sm_players s ! i) \<or> pl_alive (sm_players s ! i)")
  case True
  then show ?thesis using inv by (auto simp: respawn_player_def Let_def)
next
  case dead: False
  let ?p = "sm_players s ! i"
  let ?wait = "?p\<lparr>pl_respawn_timer := pl_respawn_timer ?p - 1\<rparr>"
  let ?home = "?wait\<lparr>pl_alive := True, pl_health := kMaxHealth,
      pl_position := spawns_of (pl_team ?p) ! unat (pl_spawn_index ?p)\<rparr>"
  have len: "length (sm_players s) = kMaxPlayers" using inv by (simp add: sim_inv_def core_inv_def)
  have p: "player_inv ?p" using inv_player [OF inv i] .
  have "player_inv ?wait" if "0 < pl_respawn_timer ?p - 1"
    using p dead that inputs_cong [of ?wait ?p] by (auto simp: player_inv_def vitals_inv_def)
  then have wait: "sim_inv (upd_player i (\<lambda>p. p\<lparr>pl_respawn_timer := pl_respawn_timer p - 1\<rparr>) s)"
    if "0 < pl_respawn_timer ?p - 1" using that inv i by (intro inv_upd_player) simp_all
  have "player_inv ?home"
    using p dead inputs_cong [of ?home ?p] spawn_free by (auto simp: player_inv_def vitals_inv_def config_defs)
  then have "core_inv ((sm_players s)[i := ?home]) (sm_flags s) (sm_player_count s)"
    using inv i by (intro core_update) (simp_all add: sim_inv_def)
  then have revived: "sim_inv (upd_player i (\<lambda>p. p\<lparr>pl_alive := True, pl_health := kMaxHealth,
        pl_position := spawns_of (pl_team ?p) ! unat (pl_spawn_index ?p)\<rparr>)
      (upd_player i (\<lambda>p. p\<lparr>pl_respawn_timer := pl_respawn_timer p - 1\<rparr>) s))"
    using inv i len by (simp add: sim_inv_def)
  show ?thesis
    using dead wait revived i len by (simp add: respawn_player_def Let_def)
qed

lemma inv_flags_phase: "sim_inv s \<Longrightarrow> sim_inv (flags_phase s)"
  unfolding flags_phase_def Let_def
  by (intro inv_fold) (auto simp: inv_follow inv_flag_player inv_respawn)

section \<open>Publishing and the tick\<close>

lemma inv_win_check: "sim_inv s \<Longrightarrow> sim_inv (win_check s)"
  by (simp add: win_check_def Let_def) (simp add: sim_inv_def)

lemma length_collect_acks: "length (collect_acks s) = length (sm_player_acks s)"
proof -
  have "length (fold (\<lambda>i acks. acks[i := f i]) is acks) = length acks" for f :: "nat \<Rightarrow> u32" and "is" acks
    by (induction "is" arbitrary: acks) simp_all
  then show ?thesis by (simp add: collect_acks_def)
qed

lemma inv_publish: "sim_inv s \<Longrightarrow> sim_inv (publish s)"
  by (simp add: publish_def Let_def sim_inv_def emit_def length_collect_acks)

lemma inv_tick: "sim_inv s \<Longrightarrow> sim_inv (tick dir s)"
proof -
  assume "sim_inv s"
  then have "sim_inv (publish (win_check (flags_phase (combat dir (move_players (pop_inputs (drain_inbound s)))))))"
    by (intro inv_publish inv_win_check inv_flags_phase inv_combats inv_moves inv_pops inv_drain)
  then show ?thesis by (simp add: tick_def Let_def sim_inv_def)
qed

text \<open>
  A run of the server: from the constructor, the network thread pushes commands and pops events
  at any time, the simulation thread ticks. \<open>dir\<close> is fixed for the run.
\<close>

inductive sim_reachable :: "ray_direction \<Rightarrow> sim \<Rightarrow> bool" for dir where
  start: "sim_reachable dir (Sim InboundQueue OutboundQueue)"
| ticked: "sim_reachable dir s \<Longrightarrow> sim_reachable dir (tick dir s)"
| pushed: "sim_reachable dir s \<Longrightarrow> sim_reachable dir (s\<lparr>sm_inbound := inbound_push cmd (sm_inbound s)\<rparr>)"
| popped: "sim_reachable dir s \<Longrightarrow> outbound_pop (sm_outbound s) = Some (ev, q) \<Longrightarrow>
    sim_reachable dir (s\<lparr>sm_outbound := q\<rparr>)"
| configured: "sim_reachable dir s \<Longrightarrow>
    sim_reachable dir (set_wake_fd fd (set_tick_rate t (set_snapshot_rate r (set_delta_snapshots d s))))"

lemma inv_start: "sim_inv (Sim InboundQueue OutboundQueue)"
proof -
  let ?ps = "replicate kMaxPlayers default_player"
  have "holders ?ps fi = {}" "active_set ?ps = {}" for fi
    by (auto simp: holders_def active_set_def) (simp_all add: default_player_def)
  then have "core_inv ?ps (sm_flags (Sim InboundQueue OutboundQueue)) 0"
    by (auto simp: core_inv_def player_inv_default Sim_def flag_inv_def default_flag_info_def
        less_2_cases_iff base_of_def flag_team_def)
  then show ?thesis by (simp add: sim_inv_def) (simp add: Sim_def)
qed

lemma reachable_inv: "sim_reachable dir s \<Longrightarrow> sim_inv s"
  by (induction rule: sim_reachable.induct)
    (simp_all add: inv_start inv_tick, simp_all add: sim_inv_def set_wake_fd_def set_tick_rate_def
      set_snapshot_rate_def set_delta_snapshots_def)

section \<open>Only commands change the roster\<close>

definition roster :: "sim \<Rightarrow> (bool \<times> team \<times> u8) list" where
  "roster s = map (\<lambda>p. (pl_active p, pl_team p, pl_spawn_index p)) (sm_players s)"

lemma map_update_same: "g (f (xs ! i)) = g (xs ! i) \<Longrightarrow> map g (xs[i := f (xs ! i)]) = map g xs"
  by (cases "i < length xs") (simp_all add: map_update list_update_same_conv list_update_beyond)

lemma roster_upd [simp]:
  assumes "\<And>p. pl_active (f p) = pl_active p" "\<And>p. pl_team (f p) = pl_team p" "\<And>p. pl_spawn_index (f p) = pl_spawn_index p"
  shows "roster (upd_player i f s) = roster s"
  using assms by (simp add: roster_def map_update_same)

lemma roster_frame [simp]:
  "roster (send_event c ty w s) = roster s" "roster (upd_flag fi g s) = roster s" "roster (drop_flag fi v s) = roster s"
  "roster (reset_flag fi s) = roster s" "roster (s\<lparr>sm_score := sc\<rparr>) = roster s"
  "roster (s\<lparr>sm_applied_cmds := ac\<rparr>) = roster s" "roster (s\<lparr>sm_last_ray_hit := v\<rparr>) = roster s"
  "roster (s\<lparr>sm_match_over := b\<rparr>) = roster s"
  by (simp_all add: roster_def drop_flag_def reset_flag_def)

lemma roster_fold: "(\<And>i s. roster (step i s) = roster s) \<Longrightarrow> roster (fold step is s) = roster s"
  by (induction "is" arbitrary: s) simp_all

lemma roster_death: "roster (handle_death i s) = roster s"
  by (simp add: handle_death_def Let_def)

lemma roster_cast_ray: "cast_ray dir c a t s = (hit, s') \<Longrightarrow> roster s' = roster s"
  by (auto dest!: cast_ray_frame(1))

lemma roster_combat: "roster (combat_player dir i s) = roster s"
  by (simp add: combat_player_def Let_def roster_death roster_cast_ray split: prod.split option.split)

lemma roster_phases:
  "roster ((publish (win_check (flags_phase (combat dir (move_players (pop_inputs s))))))\<lparr>sm_current_tick := t\<rparr>) = roster s"
proof -
  have "roster (pop_inputs s) = roster s" for s
    unfolding pop_inputs_def by (rule roster_fold) (simp add: pop_input_def Let_def ring_drop_def)
  moreover have "roster (move_players s) = roster s" for s
    unfolding move_players_def by (rule roster_fold) (simp add: move_player_def Let_def)
  moreover have "roster (combat dir s) = roster s" for s
    unfolding combat_def by (rule roster_fold) (rule roster_combat)
  moreover have "roster (flags_phase s) = roster s" for s
  proof -
    have "roster (flag_follow i s) = roster s" "roster (flag_player i s) = roster s"
      "roster (respawn_player i s) = roster s" for i s
      by (simp_all add: flag_follow_def flag_player_def respawn_player_def Let_def flag_return_def
          flag_pickup_def flag_capture_def split: option.split)
    then show ?thesis unfolding flags_phase_def Let_def by (simp add: roster_fold)
  qed
  moreover have "roster (win_check s) = roster s" "roster (publish s) = roster s"
    "roster (s\<lparr>sm_current_tick := t\<rparr>) = roster s" for s t
    by (simp_all add: win_check_def Let_def publish_def emit_def) (simp_all add: roster_def)
  ultimately show ?thesis by simp
qed

lemma roster_tick: "roster (tick dir s) = roster (drain_inbound s)"
  by (simp add: tick_def Let_def roster_phases)

lemma roster_active:
  assumes "roster s = roster s'" "i < length (sm_players s')"
  shows "pl_active (sm_players s ! i) = pl_active (sm_players s' ! i)"
proof -
  have "length (sm_players s) = length (sm_players s')" using assms(1) unfolding roster_def by (rule map_eq_imp_length_eq)
  then have "roster s ! i = roster s' ! i \<Longrightarrow> ?thesis" using assms(2) by (simp add: roster_def)
  then show ?thesis using assms(1) by simp
qed

section \<open>Properties\<close>

text \<open>
  C9 (safety): in every reachable state of the server, whatever commands the clients send and
  whatever directions the shots take, no active player overlaps a wall or leaves the map.
\<close>

theorem players_never_in_walls:
  assumes "sim_reachable dir s" "i < kMaxPlayers" "pl_active (sm_players s ! i)"
  shows "\<not> aabb_collides (pl_position (sm_players s ! i))
    \<and> 0 \<le> vx (pl_position (sm_players s ! i)) \<and> vx (pl_position (sm_players s ! i)) + kPlayerSizePx * kFixedScale \<le> kMapWidthPx * kFixedScale
    \<and> 0 \<le> vy (pl_position (sm_players s ! i)) \<and> vy (pl_position (sm_players s ! i)) + kPlayerSizePx * kFixedScale \<le> kMapHeightPx * kFixedScale"
proof -
  have free: "\<not> aabb_collides (pl_position (sm_players s ! i))"
    using inv_player [OF reachable_inv [OF assms(1)] assms(2)] assms(3) by (simp add: player_inv_def vitals_inv_def)
  then show ?thesis using free_in_map [OF free] by (simp add: config_defs)
qed

definition join_cmd :: "u8 \<Rightarrow> team \<Rightarrow> inbound_command" where
  "join_cmd pid team = default_inbound_command\<lparr>ic_type := CmdPlayerJoined, ic_player_id := pid, ic_team := team\<rparr>"

definition joined_state :: sim where
  "joined_state = (Sim InboundQueue OutboundQueue)\<lparr>sm_inbound := inbound_push (join_cmd 0 Red) InboundQueue\<rparr>"

lemma joined_reachable: "sim_reachable dir joined_state"
  using sim_reachable.pushed [OF sim_reachable.start] by (simp add: joined_state_def Sim_def)

lemma drain_joined: "pl_active (sm_players (drain_inbound joined_state) ! 0)"
  by (simp add: joined_state_def drain_inbound.simps inbound_pop_def inbound_push_def InboundQueue_def
      apply_command_def join_cmd_def apply_join_def default_inbound_command_def Sim_def find_player_def
      default_player_def Let_def config_defs)


lemma joined_active: "pl_active (sm_players (tick dir joined_state) ! 0)"
proof -
  have "sim_inv (drain_inbound joined_state)" using reachable_inv [OF joined_reachable] by (rule inv_drain)
  then have "0 < length (sm_players (drain_inbound joined_state))" by (simp add: sim_inv_def core_inv_def config_defs)
  then show ?thesis using roster_active [OF roster_tick [of dir joined_state]] drain_joined by simp
qed

lemma joined_tick_reachable: "sim_reachable dir (tick dir joined_state)"
  by (rule sim_reachable.ticked [OF joined_reachable])

theorem players_never_in_walls_witness:
  "\<not> aabb_collides (pl_position (sm_players (tick (\<lambda>_. (1024, 0)) joined_state) ! 0))"
proof -
  have "0 < kMaxPlayers" by (simp add: config_defs)
  from players_never_in_walls [OF joined_tick_reachable this joined_active] show ?thesis by blast
qed

text \<open>
  C8 (invariant): in every reachable state each flag has the carrier it says it has. A carried
  flag has exactly one carrier, an active living player of the other team whose id is the
  flag's carrier id; a flag at base or on the ground has none, its carrier id is 255, and at base it
  stands on its own base.
\<close>

theorem flags_have_their_carriers:
  assumes "sim_reachable dir s" "f = sm_flags s ! flag_index team"
    and "carries = (\<lambda>i. i < kMaxPlayers \<and> pl_carrying_flag (sm_players s ! i) \<and> pl_team (sm_players s ! i) \<noteq> team)"
  shows "(if fl_state f = Carried
          then \<forall>i. carries i \<longleftrightarrow> i = unat (fl_carrier_id f)
          else (\<forall>i. \<not> carries i) \<and> fl_carrier_id f = 0xFF)
    \<and> (\<forall>i. carries i \<longrightarrow> pl_active (sm_players s ! i) \<and> pl_alive (sm_players s ! i))
    \<and> (fl_state f = AtBase \<longrightarrow> fl_position f = base_of team)"
proof -
  have inv: "sim_inv s" using assms(1) by (rule reachable_inv)
  have other: "enemy_flag_index t = flag_index team \<longleftrightarrow> t \<noteq> team" for t
    by (cases t; cases team) (simp_all add: enemy_flag_index_def flag_index_def)
  have "holders (sm_players s) (flag_index team) = Collect carries"
    unfolding holders_def assms(3) other by auto
  moreover have "flag_inv (sm_players s) (flag_index team) f" using inv_flag [OF inv] by (simp add: assms(2))
  ultimately have f: "Collect carries = (if fl_state f = Carried then {unat (fl_carrier_id f)} else {})"
    "fl_state f \<noteq> Carried \<longrightarrow> fl_carrier_id f = 0xFF" "fl_state f = AtBase \<longrightarrow> fl_position f = base_of team"
    by (simp_all add: flag_inv_def)
  have "\<forall>i. carries i \<longrightarrow> pl_active (sm_players s ! i) \<and> pl_alive (sm_players s ! i)"
    using inv_player [OF inv] by (auto simp: assms(3) player_inv_def vitals_inv_def)
  then show ?thesis using f by (auto simp: set_eq_iff split: if_splits)
qed

theorem flags_have_their_carriers_witness:
  "\<exists>f. f = sm_flags (Sim InboundQueue OutboundQueue) ! flag_index Red
     \<and> (fl_state f = AtBase \<longrightarrow> fl_position f = base_of Red)"
  using flags_have_their_carriers [OF sim_reachable.start refl refl] by blast

text \<open>
  C36 (bounds): in every reachable state health is between 0 and 100 and positive exactly for the
  living, the fire cooldown is between 0 and 10 ticks, a dead player waits between 1 and 90 ticks, an
  inactive slot is in its initial state, and the player count is the number of active slots.
\<close>

theorem player_vitals_bounded:
  assumes "sim_reachable dir s" "i < kMaxPlayers" "p = sm_players s ! i"
  shows "0 \<le> pl_health p \<and> pl_health p \<le> kMaxHealth \<and> (pl_alive p \<longleftrightarrow> 0 < pl_health p)
    \<and> 0 \<le> pl_fire_cooldown p \<and> pl_fire_cooldown p \<le> kFireCooldownTicks
    \<and> (\<not> pl_alive p \<longrightarrow> 0 < pl_respawn_timer p \<and> pl_respawn_timer p \<le> kRespawnDelayTicks)
    \<and> (\<not> pl_active p \<longrightarrow> p = default_player)
    \<and> sm_player_count s = int (card {j. j < kMaxPlayers \<and> pl_active (sm_players s ! j)})"
proof -
  have inv: "sim_inv s" using assms(1) by (rule reachable_inv)
  then have "sm_player_count s = int (card (active_set (sm_players s)))" by (simp add: sim_inv_def core_inv_def)
  then show ?thesis using inv_player [OF inv assms(2)]
    by (auto simp: assms(3) player_inv_def vitals_inv_def active_set_def)
qed

theorem player_vitals_bounded_witness:
  "pl_health (sm_players (tick (\<lambda>_. (1024, 0)) joined_state) ! 0) \<le> kMaxHealth"
proof -
  have "0 < kMaxPlayers" by (simp add: config_defs)
  from player_vitals_bounded [OF joined_tick_reachable this refl] show ?thesis by blast
qed

end
