(* ===== verification/Sim_Publish.thy ===== *)
theory Sim_Publish
  imports Sim_Invariant
begin

text \<open>
  What the simulation hands to the network thread: the bytes of every event, the snapshot that
  \<open>publish\<close> builds from the state, the rhythm of keyframes, and the end of the match.
\<close>

section \<open>The bytes of an event\<close>

lemma unat_small_u16: "n \<le> 512 \<Longrightarrow> unat (word_of_nat n :: u16) = n"
  by (simp add: unsigned_of_nat take_bit_nat_eq_self)

lemma writer_result:
  assumes "emits enc bs" "cap \<le> length buf" "length bs \<le> cap"
  shows "bw_pos (after enc (ByteWriter buf cap)) = length bs"
    "take (length bs) (bw_buf (after enc (ByteWriter buf cap))) = bs"
    "length (bw_buf (after enc (ByteWriter buf cap))) = length buf"
proof -
  let ?w = "ByteWriter buf cap"
  have wf: "writer_wf ?w" "\<not> bw_overflow ?w" "bw_pos ?w = 0" "written ?w = []" "bw_cap ?w = cap" "bw_buf ?w = buf"
    using assms(2) by (simp_all add: ByteWriter_def writer_wf_def written_def)
  have "written (after enc ?w) = bs" "writer_wf (after enc ?w)" "same_frame ?w (after enc ?w)"
    using assms(1,3) wf by (simp_all add: emits_def)
  then show "bw_pos (after enc ?w) = length bs" "take (length bs) (bw_buf (after enc ?w)) = bs"
    "length (bw_buf (after enc ?w)) = length buf"
    using length_written [of "after enc ?w"] wf by (auto simp: written_def same_frame_def)
qed

lemma event_bytes_set:
  "event_bytes (ev\<lparr>payload_data := d, payload_size := n\<rparr>) = take (unat n) d"
  "event_bytes (ev\<lparr>payload_data := d, payload_size := n, oe_acks := a, oe_tick := t\<rparr>) = take (unat n) d"
  by (simp_all add: event_bytes_def)

lemma event_bytes_ser:
  assumes "emits enc bs" "length bs \<le> 96" "length (payload_data ev) = kPayloadBytes"
  shows "event_bytes (ser_event ev ty enc) = message_type_byte ty # bs"
proof -
  let ?data = "(payload_data ev)[0 := message_type_byte ty]"
  have hd: "take 1 ?data = [message_type_byte ty]"
    using assms(3) by (cases "payload_data ev") (simp_all add: config_defs)
  have "96 \<le> length (drop 1 ?data)" using assms(3) by (simp add: config_defs)
  note w = writer_result [OF assms(1) this assms(2)]
  have "event_bytes (ser_event ev ty enc)
      = take (1 + length bs) ([message_type_byte ty] @ bw_buf (after enc (ByteWriter (drop 1 ?data) 96)))"
  proof -
    have "unat (word_of_nat (1 + length bs) :: u16) = 1 + length bs" using assms(2) by (intro unat_small_u16) simp
    then show ?thesis unfolding ser_event_def Let_def event_bytes_set by (simp only: hd w(1))
  qed
  then show ?thesis using w(2) by simp
qed

section \<open>The published snapshot\<close>

lemma active_ids_props:
  "set (active_ids s) = {i. i < kMaxPlayers \<and> pl_active (sm_players s ! i)}"
  "sorted_wrt (<) (active_ids s)" "length (active_ids s) \<le> kMaxPlayers"
proof -
  show "set (active_ids s) = {i. i < kMaxPlayers \<and> pl_active (sm_players s ! i)}" by (auto simp: active_ids_def)
  show "sorted_wrt (<) (active_ids s)" by (simp add: active_ids_def sorted_wrt_filter)
  show "length (active_ids s) \<le> kMaxPlayers"
    using length_filter_le [of _ "[0..<kMaxPlayers]"] by (simp add: active_ids_def)
qed

lemma count_word: "unat (word_of_nat (length (active_ids s)) :: u8) = length (active_ids s)"
  using active_ids_props(3) [of s] by (simp add: unsigned_of_nat take_bit_nat_eq_self config_defs)

lemma id_word: "i < kMaxPlayers \<Longrightarrow> unat (word_of_nat i :: u8) = i"
  by (simp add: unsigned_of_nat take_bit_nat_eq_self config_defs)

lemma wf_make_snapshot: "wf_snapshot (make_snapshot s)"
  using active_ids_props(3) [of s] count_word [of s]
  by (simp add: wf_snapshot_def make_snapshot_def) (simp add: default_snapshot_def)

lemma published_players:
  "take (unat (player_count (make_snapshot s))) (snap_players (make_snapshot s))
   = map (\<lambda>i. publish_player i (sm_players s ! i)) (active_ids s)"
proof -
  let ?es = "map (\<lambda>i. publish_player i (sm_players s ! i)) (active_ids s)"
  have "length ?es \<le> length (snap_players default_snapshot)"
    using active_ids_props(3) [of s] by (simp add: default_snapshot_def)
  from update_range_0 [OF this] show ?thesis using count_word [of s] by (simp add: make_snapshot_def)
qed

lemma publish_player_id [simp]: "ps_id (publish_player i p) = word_of_nat i"
  by (simp add: publish_player_def)

lemma word_of_nat_inj: "i < kMaxPlayers \<Longrightarrow> j < kMaxPlayers \<Longrightarrow> (word_of_nat i :: u8) = word_of_nat j \<longleftrightarrow> i = j"
  using id_word by metis

lemma find_map: "List.find P (map f xs) = map_option f (List.find (P \<circ> f) xs)"
  by (induction xs) auto

lemma find_distinct:
  "\<forall>x \<in> set xs. P x \<longleftrightarrow> x = y \<Longrightarrow> List.find P xs = (if y \<in> set xs then Some y else None)"
  by (induction xs) auto

lemma find_published:
  assumes "i < kMaxPlayers"
  shows "find_snap_player (make_snapshot s) (word_of_nat i)
    = (if pl_active (sm_players s ! i) then Some (publish_player i (sm_players s ! i)) else None)"
proof -
  have "\<forall>j \<in> set (active_ids s). (word_of_nat j :: u8) = word_of_nat i \<longleftrightarrow> j = i"
    using assms word_of_nat_inj by (auto simp: active_ids_props(1))
  then have "List.find (\<lambda>j. (word_of_nat j :: u8) = word_of_nat i) (active_ids s)
      = (if i \<in> set (active_ids s) then Some i else None)" by (rule find_distinct)
  then show ?thesis
    using assms by (simp add: find_snap_player_def published_players find_map comp_def active_ids_props(1))
qed

lemma event_bytes_snapshot:
  assumes "wf_snapshot snap"
  shows "event_bytes (snapshot_event s snap) =
    (if publish_keyframe s then wire_world_snapshot snap else wire_delta_snapshot snap (sm_prev_published s))"
proof -
  let ?bs = "if publish_keyframe s then wire_world_snapshot snap else wire_delta_snapshot snap (sm_prev_published s)"
  let ?enc = "if publish_keyframe s then encode_world_snapshot snap else encode_delta_snapshot snap (sm_prev_published s)"
  have e: "emits ?enc ?bs" using world_snapshot.enc_emits [OF assms] emits_delta_snapshot by simp
  have len: "length ?bs \<le> 512"
    using assms length_delta_image [of snap "sm_prev_published s"]
    by (simp add: length_snapshot_image wf_snapshot_def config_defs)
  have buf: "512 \<le> length (payload_data default_outbound_event)" "length (payload_data default_outbound_event) = 512"
    by (simp_all add: default_outbound_event_def config_defs)
  note w = writer_result [OF e buf(1) len]
  have "event_bytes (snapshot_event s snap) = take (length ?bs) (bw_buf (after ?enc (ByteWriter (payload_data default_outbound_event) 512)))"
  proof -
    have "payload_data (default_outbound_event\<lparr>oe_type := ty\<rparr>) = payload_data default_outbound_event" for ty by simp
    then show ?thesis
      unfolding snapshot_event_def Let_def event_bytes_set by (simp only: w(1) buf(2) unat_small_u16 [OF len])
  qed
  then show ?thesis using w(2) by simp
qed

section \<open>What the phases leave alone\<close>

text \<open>The clock and the publishing state; only \<open>win_check\<close>, \<open>publish\<close> and the end of the tick change them.\<close>

definition clockwork :: "sim \<Rightarrow> u32 \<times> bool \<times> bool \<times> u32 \<times> world_snapshot \<times> bool \<times> int \<times> int" where
  "clockwork s = (sm_current_tick s, sm_match_over s, sm_have_published s, sm_snapshots_published s,
     sm_prev_published s, sm_delta_snapshots s, sm_tick_hz s, sm_snapshot_hz s)"

lemma clockwork_basic [simp]:
  "clockwork (upd_player i f s) = clockwork s" "clockwork (upd_flag fi g s) = clockwork s"
  "clockwork (send_event c ty w s) = clockwork s" "clockwork (drop_flag fi v s) = clockwork s"
  "clockwork (reset_flag fi s) = clockwork s" "clockwork (s\<lparr>sm_score := sc\<rparr>) = clockwork s"
  "clockwork (s\<lparr>sm_applied_cmds := ac\<rparr>) = clockwork s" "clockwork (s\<lparr>sm_last_ray_hit := v\<rparr>) = clockwork s"
  "clockwork (s\<lparr>sm_inbound := q\<rparr>) = clockwork s" "clockwork (s\<lparr>sm_player_count := n\<rparr>) = clockwork s"
  by (simp_all add: clockwork_def upd_player_def upd_flag_def send_event_def emit_def drop_flag_def reset_flag_def)

lemma clockwork_fold: "(\<And>i s. clockwork (step i s) = clockwork s) \<Longrightarrow> clockwork (fold step is s) = clockwork s"
  by (induction "is" arbitrary: s) simp_all

lemma clockwork_drain: "clockwork (drain_inbound s) = clockwork s"
proof (induction s rule: drain_inbound.induct)
  case (1 s)
  have "clockwork (apply_command cmd s) = clockwork s" for cmd s
    by (simp add: apply_command_def apply_join_def apply_leave_def Let_def split: inbound_command_type.split option.split)
  then show ?case using 1 by (subst drain_inbound.simps) (auto split: option.split prod.split)
qed

lemma clockwork_combat: "clockwork (combat_player dir i s) = clockwork s"
proof -
  have "clockwork (handle_death e s) = clockwork s" for e s by (simp add: handle_death_def Let_def)
  moreover have "clockwork s' = clockwork s" if "cast_ray dir c a t s = (hit, s')" for c a t hit s'
    using cast_ray_frame(1) [OF that] by auto
  ultimately show ?thesis by (simp add: combat_player_def Let_def split: prod.split option.split)
qed

definition before_win_check :: "ray_direction \<Rightarrow> sim \<Rightarrow> sim" where
  "before_win_check dir s = flags_phase (combat dir (move_players (pop_inputs (drain_inbound s))))"

lemma tick_phases: "tick dir s = (let t = publish (win_check (before_win_check dir s))
    in t\<lparr>sm_current_tick := sm_current_tick t + 1\<rparr>)"
  by (simp add: tick_def before_win_check_def Let_def)

lemma clockwork_after_drain: "clockwork (flags_phase (combat dir (move_players (pop_inputs s)))) = clockwork s"
proof -
  have "clockwork (pop_inputs s) = clockwork s" "clockwork (move_players s) = clockwork s"
    "clockwork (combat dir s) = clockwork s" for s
    unfolding pop_inputs_def move_players_def combat_def
    by (rule clockwork_fold; simp add: pop_input_def move_player_def Let_def clockwork_combat)+
  moreover have "clockwork (flag_follow i s) = clockwork s" "clockwork (flag_player i s) = clockwork s"
    "clockwork (respawn_player i s) = clockwork s" for i s
    by (simp_all add: flag_follow_def flag_player_def respawn_player_def Let_def flag_return_def
        flag_pickup_def flag_capture_def split: option.split)
  ultimately show ?thesis by (simp add: flags_phase_def Let_def clockwork_fold)
qed

lemma clockwork_phases: "clockwork (before_win_check dir s) = clockwork s"
  by (simp add: before_win_check_def clockwork_after_drain clockwork_drain)

lemma clockwork_publish:
  "sm_current_tick (publish s) = sm_current_tick s" "sm_match_over (publish s) = sm_match_over s"
  "sm_score (publish s) = sm_score s" "sm_players (publish s) = sm_players s" "sm_flags (publish s) = sm_flags s"
  by (simp_all add: publish_def Let_def emit_def)

lemma win_check_frame:
  "sm_current_tick (win_check s) = sm_current_tick s" "sm_score (win_check s) = sm_score s"
  by (simp_all add: win_check_def Let_def)

lemma win_check_over:
  "sm_match_over (win_check s) \<longleftrightarrow> sm_match_over s \<or> unat (sm_score s ! 0) \<ge> kScoreToWin
     \<or> unat (sm_score s ! 1) \<ge> kScoreToWin \<or> sm_current_tick s \<ge> match_limit_ticks"
  by (simp add: win_check_def Let_def)

lemma collect_acks_nth:
  assumes "i < kMaxPlayers" "pl_active (sm_players s ! i)" "length (sm_player_acks s) = kMaxPlayers"
  shows "collect_acks s ! i = pl_last_input_seq (sm_players s ! i)"
proof -
  have "fold (\<lambda>i acks. acks[i := f i]) js acks ! i = (if i \<in> set js then f i else acks ! i)"
    if "i < length acks" for f :: "nat \<Rightarrow> u32" and js acks
    using that by (induction js arbitrary: acks) auto
  then show ?thesis using assms by (simp add: collect_acks_def active_ids_props(1))
qed

lemma win_check_clockwork:
  "publish_due (win_check s) = publish_due s" "publish_keyframe (win_check s) = publish_keyframe s"
  "sm_prev_published (win_check s) = sm_prev_published s"
  by (simp_all add: win_check_def publish_due_def publish_keyframe_def send_event_def emit_def Let_def)

lemma phases_clockwork:
  "publish_due (before_win_check dir s) = publish_due s" "publish_keyframe (before_win_check dir s) = publish_keyframe s"
  "sm_prev_published (before_win_check dir s) = sm_prev_published s" "sm_current_tick (before_win_check dir s) = sm_current_tick s"
  using clockwork_phases [of dir s] by (simp_all add: publish_due_def publish_keyframe_def clockwork_def)

text \<open>What \<open>publish\<close> does to the state of the publication and to the queue.\<close>

lemma publish_due_event:
  assumes "publish_due s" "length (sm_player_acks s) = kMaxPlayers"
  shows "\<exists>evs ev. out_items (sm_outbound (publish s)) = evs @ [ev]
    \<and> oe_type ev = (if publish_keyframe s then UdpSnapshot else UdpDeltaSnapshot)
    \<and> event_bytes ev = (if publish_keyframe s then wire_world_snapshot (make_snapshot s)
        else wire_delta_snapshot (make_snapshot s) (sm_prev_published s))
    \<and> oe_tick ev = sm_current_tick s
    \<and> (\<forall>i < kMaxPlayers. pl_active (sm_players s ! i) \<longrightarrow> oe_acks ev ! i = pl_last_input_seq (sm_players s ! i))"
proof -
  let ?s = "s\<lparr>sm_player_acks := collect_acks s, sm_snapshot := make_snapshot s\<rparr>"
  have same: "publish_due ?s = publish_due s" "publish_keyframe ?s = publish_keyframe s" by (simp_all add: publish_due_def publish_keyframe_def)
  have "out_items (sm_outbound (publish s)) = out_items (sm_outbound s) @ [snapshot_event ?s (make_snapshot s)]"
    using assms(1) by (simp add: publish_def Let_def same emit_def outbound_push_def)
  moreover have "oe_acks (snapshot_event ?s (make_snapshot s)) ! i = pl_last_input_seq (sm_players s ! i)"
    if "i < kMaxPlayers" "pl_active (sm_players s ! i)" for i
    using collect_acks_nth [OF that assms(2)] that by (simp add: snapshot_event_def Let_def)
  ultimately show ?thesis
    using event_bytes_snapshot [OF wf_make_snapshot, of ?s s] same
    by (intro exI [of _ "out_items (sm_outbound s)"] exI [of _ "snapshot_event ?s (make_snapshot s)"])
      (simp add: snapshot_event_def Let_def)
qed

lemma publish_effect:
  "sm_snapshot (publish s) = make_snapshot s"
  "sm_prev_published (publish s) = (if publish_due s then make_snapshot s else sm_prev_published s)"
  by (simp_all add: publish_def publish_due_def Let_def emit_def)

text \<open>The fields of the snapshot built from a state of the simulation.\<close>

lemma make_snapshot_player:
  assumes "sim_inv s" "i < kMaxPlayers" "p = sm_players s ! i"
  shows "case find_snap_player (make_snapshot s) (word_of_nat i) of
      None \<Rightarrow> \<not> pl_active p
    | Some ps \<Rightarrow> pl_active p \<and> ps_team ps = pl_team p \<and> position (ps_motion ps) = pl_position p
        \<and> ps_aim_angle ps = pl_aim_angle p \<and> int (unat (ps_health ps)) = pl_health p
        \<and> ps_alive ps = pl_alive p \<and> ps_carrying_flag ps = pl_carrying_flag p"
proof -
  have "0 \<le> pl_health p" "pl_health p \<le> 100"
    using inv_player [OF assms(1,2)] by (simp_all add: assms(3) player_inv_def vitals_inv_def config_defs)
  then have health: "int (unat (word_of_int (pl_health p) :: u8)) = pl_health p"
    by (simp add: unsigned_of_int take_bit_int_eq_self)
  show ?thesis
    using find_published [OF assms(2), of s] health
    by (simp add: assms(3)) (simp add: publish_player_def default_motion_def)
qed

lemma seconds_left_exact: "int (unat (seconds_left t)) = max 0 (kMatchTimeLimitSec - int (unat t div 30))"
proof -
  have "int (unat (word_of_int (if r > 0 then r else 0) :: u16)) = max 0 r" if "r \<le> 600" for r :: int
    using that by (simp add: unsigned_of_int take_bit_int_eq_self max_def)
  then show ?thesis unfolding seconds_left_def Let_def by (simp only: config_defs nat_numeral)
qed

section \<open>Properties\<close>

text \<open>
  C32 (functional): what a tick publishes is the world at the end of that tick. The snapshot lists the
  ids of exactly the active players, in order and once each, every one of them with its team,
  position, aim, health and status after the tick, and the flags, scores and clock of that state; it
  fits the wire format. When a snapshot is due, the last event of the tick carries the bytes of this
  very snapshot (in full for a keyframe, otherwise as the delta to the one published before), the
  tick's number and the acknowledged input of every active player, and it becomes the baseline of the
  next delta; when none is due, the baseline stays.
\<close>

theorem snapshot_shows_the_world:
  assumes "sim_inv s" "t = tick dir s" "snap = sm_snapshot t"
  shows "wf_snapshot snap
    \<and> map ps_id (take (unat (player_count snap)) (snap_players snap))
        = map word_of_nat (filter (\<lambda>i. pl_active (sm_players t ! i)) [0..<kMaxPlayers])
    \<and> (\<forall>i < kMaxPlayers. case find_snap_player snap (word_of_nat i) of
         None \<Rightarrow> \<not> pl_active (sm_players t ! i)
       | Some ps \<Rightarrow> pl_active (sm_players t ! i) \<and> ps_team ps = pl_team (sm_players t ! i)
           \<and> position (ps_motion ps) = pl_position (sm_players t ! i)
           \<and> ps_aim_angle ps = pl_aim_angle (sm_players t ! i) \<and> int (unat (ps_health ps)) = pl_health (sm_players t ! i)
           \<and> ps_alive ps = pl_alive (sm_players t ! i) \<and> ps_carrying_flag ps = pl_carrying_flag (sm_players t ! i))
    \<and> flag_state_red snap = fl_state (sm_flags t ! 0) \<and> flag_state_blue snap = fl_state (sm_flags t ! 1)
    \<and> flag_carrier_red snap = fl_carrier_id (sm_flags t ! 0) \<and> flag_carrier_blue snap = fl_carrier_id (sm_flags t ! 1)
    \<and> score_red snap = sm_score t ! 0 \<and> score_blue snap = sm_score t ! 1
    \<and> snap_tick snap = sm_current_tick s
    \<and> int (unat (seconds_remaining snap)) = max 0 (kMatchTimeLimitSec - int (unat (sm_current_tick s) div 30))
    \<and> (if publish_due s then sm_prev_published t = snap
         \<and> (\<exists>evs ev. out_items (sm_outbound t) = evs @ [ev]
             \<and> oe_type ev = (if publish_keyframe s then UdpSnapshot else UdpDeltaSnapshot)
             \<and> event_bytes ev = (if publish_keyframe s then wire_world_snapshot snap else wire_delta_snapshot snap (sm_prev_published s))
             \<and> oe_tick ev = sm_current_tick s
             \<and> (\<forall>i < kMaxPlayers. pl_active (sm_players t ! i) \<longrightarrow> oe_acks ev ! i = pl_last_input_seq (sm_players t ! i)))
       else sm_prev_published t = sm_prev_published s)"
proof -
  define u where "u = win_check (before_win_check dir s)"
  have "sim_inv u" unfolding u_def before_win_check_def using assms(1)
    by (intro inv_win_check inv_flags_phase inv_combats inv_moves inv_pops inv_drain)
  then have inv: "sim_inv u" "length (sm_player_acks u) = kMaxPlayers" by (simp_all add: sim_inv_def)
  have u: "publish_due u = publish_due s" "publish_keyframe u = publish_keyframe s" "sm_prev_published u = sm_prev_published s"
      "sm_current_tick u = sm_current_tick s"
    by (simp_all add: u_def win_check_clockwork win_check_frame phases_clockwork)
  have t: "sm_players t = sm_players u" "sm_flags t = sm_flags u" "sm_score t = sm_score u" "sm_outbound t = sm_outbound (publish u)"
      "sm_prev_published t = sm_prev_published (publish u)" "snap = make_snapshot u"
    by (simp_all add: assms(2,3) tick_phases Let_def u_def [symmetric] clockwork_publish publish_effect)
  have "map ps_id (take (unat (player_count snap)) (snap_players snap))
      = map word_of_nat (filter (\<lambda>i. pl_active (sm_players t ! i)) [0..<kMaxPlayers])"
    unfolding t published_players by (simp add: active_ids_def)
  moreover have "snap_tick snap = sm_current_tick s" "seconds_remaining snap = seconds_left (sm_current_tick s)"
      "flag_state_red snap = fl_state (sm_flags t ! 0)" "flag_state_blue snap = fl_state (sm_flags t ! 1)"
      "flag_carrier_red snap = fl_carrier_id (sm_flags t ! 0)" "flag_carrier_blue snap = fl_carrier_id (sm_flags t ! 1)"
      "score_red snap = sm_score t ! 0" "score_blue snap = sm_score t ! 1"
    unfolding t by (simp_all add: make_snapshot_def u(4))
  moreover have "sm_prev_published t = (if publish_due s then snap else sm_prev_published s)" unfolding t by (simp add: publish_effect u)
  ultimately show ?thesis
    using wf_make_snapshot [of u] make_snapshot_player [OF inv(1) _ refl] publish_due_event [OF _ inv(2)] seconds_left_exact
    unfolding t u by simp
qed

text \<open>The first tick after a player has joined: a keyframe that shows the player.\<close>

theorem snapshot_shows_the_world_witness:
  "let t = tick (\<lambda>_. (1024, 0)) joined_state in
     (\<exists>ps. find_snap_player (sm_snapshot t) 0 = Some ps \<and> position (ps_motion ps) = pl_position (sm_players t ! 0))
     \<and> event_bytes (last (out_items (sm_outbound t))) = wire_world_snapshot (sm_snapshot t)"
proof -
  let ?t = "tick (\<lambda>_. (1024, 0)) joined_state"
  have zero: "0 < kMaxPlayers" by (simp add: config_defs)
  have due: "publish_due joined_state" "publish_keyframe joined_state"
    by (simp_all add: joined_state_def Sim_def publish_due_def publish_keyframe_def)
  note w = snapshot_shows_the_world [OF reachable_inv [OF joined_reachable] refl refl, of "\<lambda>_. (1024, 0)"]
  have "case find_snap_player (sm_snapshot ?t) (word_of_nat 0) of None \<Rightarrow> \<not> pl_active (sm_players ?t ! 0)
     | Some ps \<Rightarrow> position (ps_motion ps) = pl_position (sm_players ?t ! 0)"
    using w zero by (auto split: option.splits)
  then have "\<exists>ps. find_snap_player (sm_snapshot ?t) 0 = Some ps \<and> position (ps_motion ps) = pl_position (sm_players ?t ! 0)"
    using joined_active [of "\<lambda>_. (1024, 0)"] by (auto split: option.splits)
  moreover have "\<exists>evs ev. out_items (sm_outbound ?t) = evs @ [ev] \<and> event_bytes ev = wire_world_snapshot (sm_snapshot ?t)"
    using w due by auto
  ultimately show ?thesis by (auto simp: Let_def)
qed

text \<open>
  C34 (liveness): the match ends. A tick ends it as soon as a team has three captures or the clock
  has run 18000 ticks (ten minutes), never otherwise, and an ended match stays ended.
\<close>

theorem match_ends_in_time:
  "sm_match_over (tick dir s) \<longleftrightarrow>
     sm_match_over s \<or> unat (sm_score (tick dir s) ! 0) \<ge> kScoreToWin
     \<or> unat (sm_score (tick dir s) ! 1) \<ge> kScoreToWin \<or> 18000 \<le> sm_current_tick s"
proof -
  have "sm_current_tick (before_win_check dir s) = sm_current_tick s" "sm_match_over (before_win_check dir s) = sm_match_over s"
    using clockwork_phases [of dir s] by (simp_all add: clockwork_def)
  moreover have "match_limit_ticks = 18000" by (simp add: match_limit_ticks_def config_defs)
  ultimately show ?thesis
    by (simp add: tick_phases Let_def clockwork_publish win_check_over win_check_frame)
qed

end
