(* ===== verification/Net_Util.thy ===== *)
theory Net_Util
  imports Game_Types Byte_Buffer
begin

text \<open>
  \<open>shared/net_util.cpp\<close>: extraction of one TCP frame from an accumulation buffer, and the loop
  that hands a buffer to a non-blocking socket.

  \<open>recv_framed\<close> is the code's function on the buffered bytes; its three kinds of return value
  (0, \<open>SIZE_MAX\<close>, the frame size with the out parameters set) are a datatype. The operating system's
  \<open>send\<close> is a parameter of \<open>send_all\<close>: a function on a kernel state, with its documented
  behaviour as the assumptions of the locale \<open>stream_socket\<close>.
\<close>

section \<open>Non-blocking mode\<close>

text \<open>
  \<open>set_nonblocking\<close>: \<open>getfl\<close> is what \<open>fcntl(fd, F_GETFL)\<close> returned, \<open>setfl\<close> answers \<open>F_SETFL\<close>, and the
  flag \<open>O_NONBLOCK\<close> is a constant of the platform.
\<close>

definition set_nonblocking :: "int \<Rightarrow> int \<Rightarrow> (int \<Rightarrow> int) \<Rightarrow> bool" where
  "set_nonblocking o_nonblock getfl setfl = (if getfl < 0 then False else setfl (getfl OR o_nonblock) = 0)"

section \<open>Framing\<close>

datatype frame_result =
    Incomplete
  | Oversize
  | Frame (frame_type: u8) (frame_payload: "u8 list") (frame_bytes: nat)

definition recv_framed :: "u8 list \<Rightarrow> frame_result" where
  "recv_framed buf =
     (if length buf < kTcpFrameHeaderBytes then Incomplete
      else
        let payload_len = unat (push_bit 8 (ucast (buf ! 0)) OR ucast (buf ! 1) :: u16) in
        if payload_len > kTcpFrameCapBytes then Oversize
        else if length buf < kTcpFrameHeaderBytes + payload_len then Incomplete
        else Frame (buf ! 2) (take payload_len (drop kTcpFrameHeaderBytes buf))
               (kTcpFrameHeaderBytes + payload_len))"

text \<open>The frame image that \<open>recv_framed\<close> accepts: big-endian length, type byte, payload.\<close>

definition frame_image :: "u8 \<Rightarrow> u8 list \<Rightarrow> u8 list" where
  "frame_image ty payload =
     (let n = word_of_nat (length payload) :: u16
      in ucast (drop_bit 8 n) # ucast n # ty # payload)"

lemma length_frame_image [simp]: "length (frame_image ty payload) = 3 + length payload"
  by (simp add: frame_image_def Let_def)

lemma frame_len_join:
  "length payload \<le> 4096 \<Longrightarrow>
   unat (push_bit 8 (ucast (frame_image ty payload ! 0)) OR ucast (frame_image ty payload ! 1) :: u16) = length payload"
proof -
  assume "length payload \<le> 4096"
  then have "unat (word_of_nat (length payload) :: u16) = length payload"
    by (simp add: unsigned_of_nat take_bit_nat_eq_self)
  then show ?thesis unfolding frame_image_def Let_def nth_Cons_0 One_nat_def nth_Cons_Suc be16_join .
qed

lemma recv_framed_image:
  assumes "length payload \<le> kTcpFrameCapBytes"
  shows "recv_framed (frame_image ty payload @ rest) = Frame ty payload (3 + length payload)"
proof -
  have n: "unat (push_bit 8 (ucast ((frame_image ty payload @ rest) ! 0)) OR ucast ((frame_image ty payload @ rest) ! 1) :: u16)
      = length payload"
    using frame_len_join [of payload ty] assms by (simp add: nth_append config_defs)
  show ?thesis
    using assms unfolding recv_framed_def Let_def n
    by (simp add: config_defs nth_append) (simp add: frame_image_def Let_def)
qed

text \<open>A strict prefix of a frame is always reported as incomplete, never as a frame or an error.\<close>

lemma recv_framed_prefix:
  assumes "length payload \<le> kTcpFrameCapBytes" "frame_image ty payload = buf @ ext" "ext \<noteq> []"
  shows "recv_framed buf = Incomplete"
proof (cases "length buf < 3")
  case True
  then show ?thesis by (simp add: recv_framed_def config_defs)
next
  case False
  then have nth: "buf ! 0 = frame_image ty payload ! 0" "buf ! 1 = frame_image ty payload ! 1"
    by (auto simp: assms(2) nth_append)
  have n: "unat (push_bit 8 (ucast (buf ! 0)) OR ucast (buf ! 1) :: u16) = length payload"
    unfolding nth using assms(1) by (intro frame_len_join) (simp add: config_defs)
  have "length buf + length ext = 3 + length payload"
    using arg_cong [OF assms(2), of length] by simp
  then have "length buf < 3 + length payload" using assms(3) by (cases ext) auto
  then show ?thesis using assms(1) unfolding recv_framed_def Let_def n by (simp add: config_defs)
qed

lemma recv_framed_FrameD:
  assumes "recv_framed buf = Frame ty payload n"
  shows "n = 3 + length payload" "length payload \<le> kTcpFrameCapBytes" "n \<le> length buf"
    "buf = frame_image ty payload @ drop n buf"
proof -
  let ?len = "push_bit 8 (ucast (buf ! 0)) OR ucast (buf ! 1) :: u16"
  have buf: "3 \<le> length buf" "unat ?len \<le> 4096" "3 + unat ?len \<le> length buf"
    and out: "ty = buf ! 2" "payload = take (unat ?len) (drop 3 buf)" "n = 3 + unat ?len"
    using assms by (auto simp: recv_framed_def Let_def config_defs split: if_splits)
  have len: "length payload = unat ?len" using buf out by simp
  show "n = 3 + length payload" "length payload \<le> kTcpFrameCapBytes" "n \<le> length buf"
    using buf out len by (simp_all add: config_defs)
  have hi: "ucast (drop_bit 8 (push_bit 8 (ucast a) OR ucast b :: u16)) = (a :: u8)"
    and lo: "ucast (push_bit 8 (ucast a) OR ucast b :: u16) = (b :: u8)" for a b
    by (rule bit_word_eqI; auto simp: bit_simps dest: bit_imp_le_length)+
  have split: "buf = buf ! 0 # buf ! 1 # buf ! 2 # drop 3 buf"
    using buf(1) by (metis Cons_nth_drop_Suc Suc_1 Suc_le_eq drop0 numeral_3_eq_3 One_nat_def
        less_trans zero_less_Suc lessI)
  have img: "frame_image ty payload = buf ! 0 # buf ! 1 # buf ! 2 # payload"
    unfolding frame_image_def Let_def len of_nat_unat ucast_id hi lo out(1) ..
  have "payload @ drop n buf = drop 3 buf"
    unfolding out using append_take_drop_id [of "unat ?len" "drop 3 buf"] by (simp add: add.commute)
  then show "buf = frame_image ty payload @ drop n buf" unfolding img using split by simp
qed

lemma recv_framed_measure: "recv_framed buf = Frame ty payload n \<Longrightarrow> length (drop n buf) < length buf"
  using recv_framed_FrameD(1,3) [of buf ty payload n] by simp

text \<open>An answer other than \<open>Incomplete\<close> does not change when more bytes arrive.\<close>

lemma recv_framed_stable:
  assumes "recv_framed buf \<noteq> Incomplete"
  shows "recv_framed (buf @ ext) = recv_framed buf"
proof -
  have "3 \<le> length buf" using assms by (auto simp: recv_framed_def config_defs split: if_splits)
  then have nth: "(buf @ ext) ! 0 = buf ! 0" "(buf @ ext) ! 1 = buf ! 1" "(buf @ ext) ! 2 = buf ! 2"
    by (auto simp: nth_append)
  show ?thesis using assms unfolding recv_framed_def Let_def nth by (auto simp: config_defs split: if_splits)
qed

section \<open>Draining a stream\<close>

text \<open>
  A reference for the loops that extract frames from an accumulation buffer (\<open>dispatch_frames\<close> of
  the client, \<open>serve_frames\<close> of the server): the frames in order, the bytes left, and whether an
  oversize header was met. It translates no code by itself; the loops are related to it.
\<close>

function drain_frames :: "u8 list \<Rightarrow> (u8 \<times> u8 list) list \<times> u8 list \<times> bool" where
  "drain_frames buf =
     (case recv_framed buf of
        Incomplete \<Rightarrow> ([], buf, False)
      | Oversize \<Rightarrow> ([], buf, True)
      | Frame ty payload n \<Rightarrow>
          (case drain_frames (drop n buf) of (fs, rest, bad) \<Rightarrow> ((ty, payload) # fs, rest, bad)))"
  by pat_completeness auto
termination
  by (relation "measure length") (auto dest!: recv_framed_measure)

declare drain_frames.simps [simp del]

lemma drain_frames_cases [simp]:
  "recv_framed buf = Incomplete \<Longrightarrow> drain_frames buf = ([], buf, False)"
  "recv_framed buf = Oversize \<Longrightarrow> drain_frames buf = ([], buf, True)"
  "recv_framed buf = Frame ty payload n \<Longrightarrow>
     drain_frames buf = (case drain_frames (drop n buf) of (fs, rest, bad) \<Rightarrow> ((ty, payload) # fs, rest, bad))"
  by (simp_all add: drain_frames.simps [of buf])

lemma drain_frames_append:
  assumes "drain_frames buf = (fs, rest, False)"
  shows "drain_frames (buf @ ext) = (case drain_frames (rest @ ext) of (gs, r, bad) \<Rightarrow> (fs @ gs, r, bad))"
  using assms
proof (induction buf arbitrary: fs rest rule: drain_frames.induct)
  case (1 buf)
  show ?case
  proof (cases "recv_framed buf")
    case Incomplete
    then show ?thesis using "1.prems" by auto
  next
    case Oversize
    then show ?thesis using "1.prems" by simp
  next
    case (Frame ty payload n)
    then obtain gs where gs: "drain_frames (drop n buf) = (gs, rest, False)" "fs = (ty, payload) # gs"
      using "1.prems" by (auto split: prod.splits)
    have "recv_framed (buf @ ext) = Frame ty payload n" using recv_framed_stable Frame by simp
    moreover have "drop n (buf @ ext) = drop n buf @ ext" using recv_framed_FrameD(3) [OF Frame] by simp
    ultimately show ?thesis
      using "1.IH" [OF Frame gs(1)] gs(2) by (simp split: prod.splits)
  qed
qed

lemma drain_frames_images:
  assumes "\<And>ty payload. (ty, payload) \<in> set ms \<Longrightarrow> length payload \<le> kTcpFrameCapBytes"
  shows "drain_frames (concat (map (\<lambda>(ty, payload). frame_image ty payload) ms)) = (ms, [], False)"
  using assms
proof (induction ms)
  case Nil
  show ?case by (simp add: recv_framed_def config_defs)
next
  case (Cons m ms)
  obtain ty payload where m: "m = (ty, payload)" by fastforce
  let ?rest = "concat (map (\<lambda>(ty, payload). frame_image ty payload) ms)"
  have "recv_framed (frame_image ty payload @ ?rest) = Frame ty payload (3 + length payload)"
    using Cons.prems m by (intro recv_framed_image) auto
  moreover have "drain_frames ?rest = (ms, [], False)"
    using Cons.prems by (intro Cons.IH) auto
  ultimately show ?case by (simp add: m)
qed

text \<open>The same reference over the chunks of a stream, fed one by one as \<open>recv\<close> delivers them.\<close>

primrec feed :: "u8 list \<Rightarrow> u8 list list \<Rightarrow> (u8 \<times> u8 list) list \<times> u8 list \<times> bool" where
  "feed acc [] = ([], acc, False)"
| "feed acc (chunk # chunks) =
     (case drain_frames (acc @ chunk) of (fs, rest, bad) \<Rightarrow>
        if bad then (fs, rest, True)
        else case feed rest chunks of (gs, r, b) \<Rightarrow> (fs @ gs, r, b))"

lemma drained_rest: "drain_frames buf = (fs, rest, False) \<Longrightarrow> drain_frames rest = ([], rest, False)"
proof (induction buf arbitrary: fs rule: drain_frames.induct)
  case (1 buf)
  then show ?case
    by (cases "recv_framed buf") (auto split: prod.splits)
qed

lemma drain_bad_append:
  "drain_frames buf = (fs, rest, True) \<Longrightarrow> drain_frames (buf @ ext) = (fs, rest @ ext, True)"
proof (induction buf arbitrary: fs rest rule: drain_frames.induct)
  case (1 buf)
  show ?case
  proof (cases "recv_framed buf")
    case Incomplete
    then show ?thesis using "1.prems" by simp
  next
    case Oversize
    then have "recv_framed (buf @ ext) = Oversize" by (simp add: recv_framed_stable)
    then show ?thesis using "1.prems" Oversize
      by simp
  next
    case (Frame ty payload n)
    then obtain gs where gs: "drain_frames (drop n buf) = (gs, rest, True)" "fs = (ty, payload) # gs"
      using "1.prems" by (auto split: prod.splits)
    have "recv_framed (buf @ ext) = Frame ty payload n" using recv_framed_stable Frame by simp
    moreover have "drop n (buf @ ext) = drop n buf @ ext" using recv_framed_FrameD(3) [OF Frame] by simp
    ultimately show ?thesis
      using "1.IH" [OF Frame gs(1)] gs(2) by simp
  qed
qed

text \<open>The frames found and the verdict do not depend on how the stream is cut into chunks.\<close>

lemma feed_chunks:
  assumes "drain_frames acc = ([], acc, False)" "drain_frames (acc @ concat chunks) = (fs, rest, bad)"
  shows "fst (feed acc chunks) = fs \<and> snd (snd (feed acc chunks)) = bad
    \<and> (\<not> bad \<longrightarrow> fst (snd (feed acc chunks)) = rest)"
  using assms
proof (induction chunks arbitrary: acc fs rest bad)
  case Nil
  then show ?case by simp
next
  case (Cons chunk chunks)
  obtain gs r b where d: "drain_frames (acc @ chunk) = (gs, r, b)" by (metis prod_cases3)
  show ?case
  proof (cases b)
    case True
    then have "drain_frames (acc @ concat (chunk # chunks)) = (gs, r @ concat chunks, True)"
      using drain_bad_append [of "acc @ chunk" gs r "concat chunks"] d by simp
    then show ?thesis using Cons.prems(2) d True by simp
  next
    case False
    obtain hs r' b' where w: "drain_frames (r @ concat chunks) = (hs, r', b')" by (metis prod_cases3)
    have "drain_frames (acc @ concat (chunk # chunks)) = (gs @ hs, r', b')"
      using drain_frames_append [of "acc @ chunk" gs r "concat chunks"] d False w by simp
    then have eq: "fs = gs @ hs" "rest = r'" "bad = b'" using Cons.prems(2) by simp_all
    have "fst (feed r chunks) = hs \<and> snd (snd (feed r chunks)) = b' \<and> (\<not> b' \<longrightarrow> fst (snd (feed r chunks)) = r')"
      using drained_rest [of "acc @ chunk" gs r] d False w eq by (intro Cons.IH) auto
    then show ?thesis using d False eq by (auto split: prod.splits)
  qed
qed

text \<open>The bytes of a valid stream received so far: some whole frames and a part of the next one.\<close>

lemma stream_cut:
  assumes "\<forall>(ty, payload) \<in> set ms. length payload \<le> kTcpFrameCapBytes" "recv_framed partial = Incomplete"
    and "xs @ ys = concat (map (\<lambda>(ty, payload). frame_image ty payload) ms) @ partial"
  shows "\<exists>k r. drain_frames xs = (take k ms, r, False) \<and> r @ ys = concat (map (\<lambda>(ty, payload). frame_image ty payload) (drop k ms)) @ partial
    \<and> (length r \<le> length partial \<or> (\<exists>(ty, payload) \<in> set ms. length r \<le> 3 + length payload))"
  using assms(1,3)
proof (induction ms arbitrary: xs)
  case Nil
  then have xs: "xs @ ys = partial" by simp
  then have "recv_framed xs = Incomplete" using recv_framed_stable [of xs ys] assms(2) by auto
  then show ?case using xs by (intro exI [of _ 0] exI [of _ xs]) auto
next
  case (Cons m ms)
  obtain ty payload where m: "m = (ty, payload)" by fastforce
  let ?img = "frame_image ty payload" and ?tail = "concat (map (\<lambda>(ty, payload). frame_image ty payload) ms) @ partial"
  have len: "length payload \<le> kTcpFrameCapBytes" using Cons.prems(1) m by simp
  have eq: "xs @ ys = ?img @ ?tail" using Cons.prems(2) m by simp
  from eq have "\<exists>us. xs = ?img @ us \<and> us @ ys = ?tail \<or> xs @ us = ?img \<and> ys = us @ ?tail" unfolding append_eq_append_conv2 .
  then consider (part) us where "?img = xs @ us" "us \<noteq> []" | (whole) us where "xs = ?img @ us" "us @ ys = ?tail"
    by (metis append_Nil append_Nil2)
  then show ?case
  proof cases
    case part
    then have "recv_framed xs = Incomplete" using recv_framed_prefix [OF len] by blast
    moreover have "length xs \<le> 3 + length payload" using arg_cong [OF part(1), of length] by simp
    ultimately show ?thesis using Cons.prems(2) m by (intro exI [of _ 0] exI [of _ xs]) auto
  next
    case whole
    from Cons.IH [OF _ whole(2)] Cons.prems(1) obtain k r where k: "drain_frames us = (take k ms, r, False)"
        "r @ ys = concat (map (\<lambda>(ty, payload). frame_image ty payload) (drop k ms)) @ partial"
        "length r \<le> length partial \<or> (\<exists>(ty, payload) \<in> set ms. length r \<le> 3 + length payload)" by auto
    have "drain_frames xs = (m # take k ms, r, False)" using recv_framed_image [OF len, of ty us] k(1) by (simp add: whole(1) m)
    then show ?thesis using k(2,3) by (intro exI [of _ "Suc k"] exI [of _ r]) auto
  qed
qed

text \<open>
  Outcomes of one \<open>recv\<close> or \<open>recvfrom\<close>: data, end of stream, \<open>EAGAIN\<close>/\<open>EWOULDBLOCK\<close>, \<open>EINTR\<close>,
  another error. The receive loops of client and server take the list of outcomes they meet; a list
  that ends stands for \<open>EAGAIN\<close>.
\<close>

datatype recv_outcome = RecvBytes "u8 list" | RecvClosed | RecvAgain | RecvInterrupted | RecvFailed

section \<open>Sending a buffer\<close>

text \<open>
  The answers of the \<open>send\<close> system call: a byte count, \<open>EAGAIN\<close>/\<open>EWOULDBLOCK\<close>, \<open>EINTR\<close>, or another
  error. The kernel is a state \<open>'k\<close>. The loop repeats on \<open>EINTR\<close> without limit, so it is a partial
  function; \<open>None\<close> means that it never returns.
\<close>

datatype send_result = Sent nat | WouldBlock | Interrupted | SendError

partial_function (option) send_loop ::
  "('k \<Rightarrow> u8 list \<Rightarrow> send_result \<times> 'k) \<Rightarrow> u8 list \<Rightarrow> nat \<Rightarrow> 'k \<Rightarrow> (int \<times> 'k) option" where
  "send_loop sock_send buf sent k =
     (if sent < length buf then
        (case sock_send k (drop sent buf) of (res, k') \<Rightarrow>
           (case res of
              Sent n \<Rightarrow>
                if n > 0 then send_loop sock_send buf (sent + n) k'
                else Some (if sent > 0 then int sent else -1, k')
            | WouldBlock \<Rightarrow> Some (int sent, k')
            | Interrupted \<Rightarrow> send_loop sock_send buf sent k'
            | SendError \<Rightarrow> Some (if sent > 0 then int sent else -1, k')))
      else Some (int sent, k))"

definition send_all :: "('k \<Rightarrow> u8 list \<Rightarrow> send_result \<times> 'k) \<Rightarrow> u8 list \<Rightarrow> 'k \<Rightarrow> (int \<times> 'k) option" where
  "send_all sock_send buf k = send_loop sock_send buf 0 k"

text \<open>
  The calls of \<open>send\<close> one after the other: the bytes sent and the kernel's state before call \<open>n\<close>. A
  call that takes nothing leaves the offset where it is.
\<close>

definition send_step :: "('k \<Rightarrow> u8 list \<Rightarrow> send_result \<times> 'k) \<Rightarrow> u8 list \<Rightarrow> nat \<times> 'k \<Rightarrow> nat \<times> 'k" where
  "send_step sock_send buf = (\<lambda>(sent, k).
     case sock_send k (drop sent buf) of (res, k') \<Rightarrow> (case res of Sent n \<Rightarrow> sent + n | _ \<Rightarrow> sent, k'))"

definition send_answer :: "('k \<Rightarrow> u8 list \<Rightarrow> send_result \<times> 'k) \<Rightarrow> u8 list \<Rightarrow> nat \<times> 'k \<Rightarrow> send_result" where
  "send_answer sock_send buf = (\<lambda>(sent, k). fst (sock_send k (drop sent buf)))"

lemma send_loop_interrupted:
  assumes "\<forall>j < n. send_answer sock_send buf ((send_step sock_send buf ^^ j) (sent, k)) = Interrupted" "sent < length buf"
  shows "\<exists>k'. (send_step sock_send buf ^^ n) (sent, k) = (sent, k') \<and> send_loop sock_send buf sent k = send_loop sock_send buf sent k'"
  using assms(1)
proof (induction n)
  case (Suc n)
  then obtain k1 where k1: "(send_step sock_send buf ^^ n) (sent, k) = (sent, k1)" "send_loop sock_send buf sent k = send_loop sock_send buf sent k1"
    by auto
  obtain k2 where call: "sock_send k1 (drop sent buf) = (Interrupted, k2)"
    using Suc.prems [rule_format, of n] k1(1) by (cases "sock_send k1 (drop sent buf)") (simp add: send_answer_def)
  then show ?case using k1 assms(2) by (simp add: send_step_def send_loop.simps [of sock_send buf sent k1])
qed simp

text \<open>The loop fails to return only if from some call on every call is interrupted.\<close>

lemma send_loop_diverges:
  assumes "send_loop sock_send buf sent k = None"
  shows "\<exists>n. \<forall>j \<ge> n. send_answer sock_send buf ((send_step sock_send buf ^^ j) (sent, k)) = Interrupted"
  using assms
proof (induction "length buf - sent" arbitrary: sent k rule: less_induct)
  case less
  let ?step = "send_step sock_send buf" and ?ans = "send_answer sock_send buf"
  have len: "sent < length buf" using less.prems by (rule_tac ccontr) (simp add: send_loop.simps [of sock_send buf sent k])
  show ?case
  proof (cases "\<forall>j. ?ans ((?step ^^ j) (sent, k)) = Interrupted")
    case True
    then show ?thesis by blast
  next
    case False
    define m where "m = (LEAST j. ?ans ((?step ^^ j) (sent, k)) \<noteq> Interrupted)"
    have m: "?ans ((?step ^^ m) (sent, k)) \<noteq> Interrupted" "\<forall>j < m. ?ans ((?step ^^ j) (sent, k)) = Interrupted"
      using False LeastI_ex [of "\<lambda>j. ?ans ((?step ^^ j) (sent, k)) \<noteq> Interrupted"] not_less_Least unfolding m_def by blast+
    then obtain k1 where k1: "(?step ^^ m) (sent, k) = (sent, k1)" "send_loop sock_send buf sent k1 = None"
      using send_loop_interrupted [OF m(2) len] less.prems by auto
    obtain res k2 where call: "sock_send k1 (drop sent buf) = (res, k2)" by fastforce
    have "res \<noteq> Interrupted" using m(1) k1(1) call by (simp add: send_answer_def)
    then obtain n where n: "res = Sent n" "0 < n" "send_loop sock_send buf (sent + n) k2 = None"
      using k1(2) call len by (cases res) (auto simp: send_loop.simps [of sock_send buf sent k1] split: if_splits)
    have "length buf - (sent + n) < length buf - sent" using n(2) len by simp
    from less.hyps [OF this n(3)] obtain N where N: "\<forall>j \<ge> N. ?ans ((?step ^^ j) (sent + n, k2)) = Interrupted" by blast
    have "(?step ^^ Suc m) (sent, k) = (sent + n, k2)" using k1(1) call n(1) by (simp add: send_step_def)
    then have "?ans ((?step ^^ (j + Suc m)) (sent, k)) = Interrupted" if "N \<le> j" for j
      using N that by (simp only: funpow_add comp_apply)
    then have "\<forall>j \<ge> N + Suc m. ?ans ((?step ^^ j) (sent, k)) = Interrupted"
      by (metis add_le_imp_le_right le_add_diff_inverse2 add_leD2)
    then show ?thesis by blast
  qed
qed

text \<open>
  What POSIX documents for a stream socket: a positive answer is the number of leading bytes taken
  over, no other answer takes any. Nothing bounds how often a call is interrupted.
\<close>

locale stream_socket =
  fixes sock_send :: "'k \<Rightarrow> u8 list \<Rightarrow> send_result \<times> 'k"
    and accepted :: "'k \<Rightarrow> u8 list"
  assumes sent_takes: "sock_send k data = (Sent n, k') \<Longrightarrow> n \<le> length data \<and> accepted k' = accepted k @ take n data"
    and others_take_nothing: "sock_send k data = (res, k') \<Longrightarrow> (\<forall>n. res \<noteq> Sent n) \<Longrightarrow> accepted k' = accepted k"
begin

lemma step_accepted:
  assumes "sent \<le> length buf" "accepted k = base @ take sent buf" "send_step sock_send buf (sent, k) = (sent', k')"
  shows "sent' \<le> length buf \<and> accepted k' = base @ take sent' buf"
proof -
  obtain res k1 where call: "sock_send k (drop sent buf) = (res, k1)" by fastforce
  show ?thesis
  proof (cases "\<exists>n. res = Sent n")
    case True
    then obtain n where n: "res = Sent n" by blast
    then have "n \<le> length buf - sent" "accepted k1 = accepted k @ take n (drop sent buf)"
      using sent_takes [of k "drop sent buf" n k1] call by simp_all
    then show ?thesis using assms call n by (auto simp: send_step_def take_add)
  next
    case False
    then have "accepted k1 = accepted k" "sent' = sent" "k' = k1"
      using others_take_nothing [OF call] assms(3) call by (auto simp: send_step_def split: send_result.splits)
    then show ?thesis using assms by simp
  qed
qed

text \<open>
  When the loop returns, the bytes it counts are those the socket took, and it stopped short of the
  end only because the last call reported a full buffer or failed.
\<close>

lemma send_loop_returns:
  assumes "send_loop sock_send buf sent k = Some (r, k')" "sent \<le> length buf" "accepted k = base @ take sent buf"
  shows "-1 \<le> r \<and> r \<le> int (length buf) \<and> accepted k' = base @ take (nat r) buf
    \<and> (r < int (length buf) \<longrightarrow> (\<exists>k1 res. sock_send k1 (drop (nat r) buf) = (res, k') \<and> accepted k1 = base @ take (nat r) buf
         \<and> (res = WouldBlock \<and> 0 \<le> r \<or> (res = SendError \<or> res = Sent 0) \<and> r \<noteq> 0)))"
proof -
  let ?Q = "\<lambda>(r, k'). -1 \<le> r \<and> r \<le> int (length buf) \<and> accepted k' = base @ take (nat r) buf
    \<and> (r < int (length buf) \<longrightarrow> (\<exists>k1 res. sock_send k1 (drop (nat r) buf) = (res, k') \<and> accepted k1 = base @ take (nat r) buf
         \<and> (res = WouldBlock \<and> 0 \<le> r \<or> (res = SendError \<or> res = Sent 0) \<and> r \<noteq> 0)))"
  let ?P = "\<lambda>f b sent k y. f = sock_send \<longrightarrow> b = buf \<longrightarrow> sent \<le> length buf \<longrightarrow> accepted k = base @ take sent buf \<longrightarrow> ?Q y"
  have "?P sock_send buf sent k (r, k')"
  proof (rule send_loop.raw_induct [where P = ?P, OF _ assms(1)], intro impI)
    fix loop f b sent k y
    assume ih: "\<And>f b sent k y. loop f b sent k = Some y \<Longrightarrow> ?P f b sent k y"
      and body: "(if sent < length b then
        (case f k (drop sent b) of (res, k') \<Rightarrow>
           (case res of
              Sent n \<Rightarrow>
                if n > 0 then loop f b (sent + n) k'
                else Some (if sent > 0 then int sent else -1, k')
            | WouldBlock \<Rightarrow> Some (int sent, k')
            | Interrupted \<Rightarrow> loop f b sent k'
            | SendError \<Rightarrow> Some (if sent > 0 then int sent else -1, k')))
      else Some (int sent, k)) = Some y"
      and eqs: "f = sock_send" "b = buf" and pre: "sent \<le> length buf" "accepted k = base @ take sent buf"
    obtain res k1 where call: "sock_send k (drop sent buf) = (res, k1)" by fastforce
    have step: "send_step sock_send buf (sent, k) = (case res of Sent n \<Rightarrow> sent + n | _ \<Rightarrow> sent, k1)" by (simp add: send_step_def call)
    note acc = step_accepted [OF pre step]
    show "?Q y"
    proof (cases "sent < length buf")
      case False
      then show ?thesis using body pre by (auto simp: eqs)
    next
      case True
      have again: "?Q y" if "loop sock_send buf sent' k1 = Some y" "sent' = (case res of Sent n \<Rightarrow> sent + n | _ \<Rightarrow> sent)" for sent'
        using ih [OF that(1)] acc that(2) by simp
      show ?thesis
      proof (cases res)
        case (Sent n)
        then show ?thesis using body True call again acc pre
          by (cases "n = 0") (auto simp: eqs intro!: exI [of _ k] exI [of _ "Sent 0"] split: if_splits)
      next
        case Interrupted
        then show ?thesis using body True call again by (simp add: eqs)
      qed (use body True call acc pre in \<open>auto simp: eqs intro!: exI [of _ k] exI [of _ res] split: if_splits\<close>)
    qed
  qed
  then show ?thesis using assms(2,3) by simp
qed

lemma send_all_outcome:
  "case send_all sock_send buf k of
     Some (r, k') \<Rightarrow> -1 \<le> r \<and> r \<le> int (length buf) \<and> accepted k' = accepted k @ take (nat r) buf
       \<and> (r < int (length buf) \<longrightarrow> (\<exists>k1 res. sock_send k1 (drop (nat r) buf) = (res, k') \<and> accepted k1 = accepted k @ take (nat r) buf
            \<and> (res = WouldBlock \<and> 0 \<le> r \<or> (res = SendError \<or> res = Sent 0) \<and> r \<noteq> 0)))
   | None \<Rightarrow> \<exists>n. \<forall>j \<ge> n. send_answer sock_send buf ((send_step sock_send buf ^^ j) (0, k)) = Interrupted"
proof (cases "send_loop sock_send buf 0 k")
  case None
  then show ?thesis using send_loop_diverges [OF None] by (simp add: send_all_def)
next
  case (Some rk)
  obtain r k' where rk: "rk = (r, k')" by fastforce
  have "send_loop sock_send buf 0 k = Some (r, k')" using Some rk by simp
  from send_loop_returns [OF this, of "accepted k"] show ?thesis using Some rk by (simp add: send_all_def)
qed

end

text \<open>
  A kernel that fulfils the contract: a send buffer with some room, and a number of signals that
  will interrupt the next calls.
\<close>

record sock_kernel =
  sk_accepted :: "u8 list"
  sk_room :: nat
  sk_signals :: nat

definition buffered_send :: "sock_kernel \<Rightarrow> u8 list \<Rightarrow> send_result \<times> sock_kernel" where
  "buffered_send k data =
     (if sk_signals k > 0 then (Interrupted, k\<lparr>sk_signals := sk_signals k - 1\<rparr>)
      else if sk_room k = 0 then (WouldBlock, k)
      else let n = min (sk_room k) (length data)
           in (Sent n, k\<lparr>sk_accepted := sk_accepted k @ take n data, sk_room := sk_room k - n\<rparr>))"

interpretation buffered: stream_socket buffered_send sk_accepted
  by unfold_locales (auto simp: buffered_send_def Let_def split: if_splits)

section \<open>Properties\<close>

text \<open>
  A header that announces more than 4096 payload bytes is refused at once, before any
  of its payload is buffered, and later bytes do not change the verdict.
\<close>

lemma oversize_frame_refused:
  assumes "kTcpFrameCapBytes < 256 * unat a + unat b"
  shows "recv_framed (a # b # ty # rest) = Oversize"
proof -
  have "unat (push_bit 8 (ucast a) OR ucast b :: u16) = 256 * unat a + unat b"
  proof -
    have "(push_bit 8 (ucast a) OR ucast b :: u16) = push_bit 8 (ucast a) + ucast b"
      by (rule disjunctive_add [symmetric]) (auto simp: bit_simps dest: bit_imp_le_length)
    moreover have "unat a < 256" "unat b < 256" using unsigned_less [of a] unsigned_less [of b] by auto
    ultimately show ?thesis
      by (simp add: unat_word_ariths push_bit_eq_mult unsigned_ucast_eq take_bit_eq_mod)
  qed
  then show ?thesis using assms unfolding recv_framed_def Let_def by (simp add: config_defs)
qed

text \<open>
  C37 (termination): \<open>send_all\<close> on a stream socket that behaves as documented. It returns unless from
  some call on every call of \<open>send\<close> is interrupted by a signal. Its result tells exactly what was
  sent, \<open>r\<close> bytes from the front of the buffer, or none for -1, and it gives up before the end only
  when the last call, on the bytes that remain, found the socket's buffer full or failed; -1 means
  that the first transfer failed.
\<close>

theorem send_all_reports_progress:
  assumes "stream_socket sock_send accepted"
  shows "case send_all sock_send buf k of
     Some (r, k') \<Rightarrow> -1 \<le> r \<and> r \<le> int (length buf) \<and> accepted k' = accepted k @ take (nat r) buf
       \<and> (r < int (length buf) \<longrightarrow> (\<exists>k1 res. sock_send k1 (drop (nat r) buf) = (res, k') \<and> accepted k1 = accepted k @ take (nat r) buf
            \<and> (res = WouldBlock \<and> 0 \<le> r \<or> (res = SendError \<or> res = Sent 0) \<and> r \<noteq> 0)))
   | None \<Rightarrow> \<exists>n. \<forall>j \<ge> n. send_answer sock_send buf ((send_step sock_send buf ^^ j) (0, k)) = Interrupted"
  using assms by (rule stream_socket.send_all_outcome)

theorem send_all_reports_progress_witness:
  "\<exists>r k'. send_all buffered_send [1, 2, 3] \<lparr>sk_accepted = [], sk_room = 2, sk_signals = 1\<rparr> = Some (r, k')
     \<and> r = 2 \<and> sk_accepted k' = [1, 2]"
proof -
  let ?k = "\<lparr>sk_accepted = [], sk_room = 2, sk_signals = 1\<rparr>"
  have "send_all buffered_send [1, 2, 3] ?k = Some (2, \<lparr>sk_accepted = [1, 2], sk_room = 0, sk_signals = 0\<rparr>)"
    by (simp add: send_all_def send_loop.simps buffered_send_def)
  then show ?thesis using send_all_reports_progress [OF buffered.stream_socket_axioms, of "[1, 2, 3]" ?k] by auto
qed

end
