(* ===== verification/Net_Client.thy ===== *)
theory Net_Client
  imports Net_Util Delta_Snapshot
begin

text \<open>
  \<open>client/net_client.h\<close> and \<open>client/net_client.cpp\<close>: the client's connection state, its handshake,
  and the dispatch of everything it receives into the snapshot and event queues.

  The operating system is an input: what \<open>recv\<close>, \<open>recvfrom\<close>, \<open>poll\<close> and \<open>clock_gettime\<close> returned is
  an argument (a list of outcomes, a time), what is handed to \<open>send_all\<close> and \<open>sendto\<close> is appended to
  the fields \<open>nc_tcp_sent\<close> and \<open>nc_udp_sent\<close>. Logging is left out.
\<close>

section \<open>State\<close>

definition kUdpHelloResendMs :: u32 where "kUdpHelloResendMs = 200"
definition kHeartbeatIntervalSec :: u32 where "kHeartbeatIntervalSec = 1"

datatype net_client_state = NcDisconnected | NcWaitingJoinAccept | NcRejected | NcInLobby | NcInGame

datatype game_event =
    EvLobbyState msg_lobby_state
  | EvGameStart msg_game_start
  | EvPlayerKilled msg_player_killed
  | EvPlayerRespawned msg_player_respawned
  | EvFlagPickedUp msg_flag_event
  | EvFlagDropped msg_flag_dropped
  | EvFlagReturned msg_flag_event
  | EvFlagCaptured msg_flag_event
  | EvMatchEnd msg_match_end
  | EvShotFired msg_shot_fired

record net_client =
  nc_tcp_fd :: int
  nc_udp_fd :: int
  nc_server_ipv4 :: u32
  nc_server_udp_port :: u16
  nc_state :: net_client_state
  nc_player_id :: u8
  nc_session_token :: u32
  nc_join_reject_reason :: join_reject_reason
  nc_lobby_state :: msg_lobby_state
  nc_game_start :: msg_game_start
  nc_first_snapshot_received :: bool
  nc_last_snapshot_cache :: world_snapshot
  nc_have_last_snapshot :: bool
  nc_last_udp_hello_sent_ms :: u32
  nc_last_heartbeat_sent_ms :: u32
  nc_tcp_rx_buf :: "u8 list"
  nc_pending_snapshots :: "world_snapshot list"
  nc_pending_events :: "game_event list"
  nc_tcp_sent :: "u8 list list"
  nc_udp_sent :: "u8 list list"

definition NetClient :: net_client where
  "NetClient = \<lparr>nc_tcp_fd = -1, nc_udp_fd = -1, nc_server_ipv4 = 0, nc_server_udp_port = 0,
     nc_state = NcDisconnected, nc_player_id = 0, nc_session_token = 0, nc_join_reject_reason = RejectFull,
     nc_lobby_state = default_lobby_state, nc_game_start = default_game_start,
     nc_first_snapshot_received = False, nc_last_snapshot_cache = default_snapshot,
     nc_have_last_snapshot = False, nc_last_udp_hello_sent_ms = 0, nc_last_heartbeat_sent_ms = 0,
     nc_tcp_rx_buf = [], nc_pending_snapshots = [], nc_pending_events = [], nc_tcp_sent = [], nc_udp_sent = []\<rparr>"

definition disconnect :: "net_client \<Rightarrow> net_client" where
  "disconnect nc =
     (let nc = (if nc_tcp_fd nc \<ge> 0 then nc\<lparr>nc_tcp_fd := -1\<rparr> else nc);
          nc = (if nc_udp_fd nc \<ge> 0 then nc\<lparr>nc_udp_fd := -1\<rparr> else nc)
      in nc\<lparr>nc_state := NcDisconnected\<rparr>)"

section \<open>Sending\<close>

definition send_tcp_frame :: "message_type \<Rightarrow> u8 list \<Rightarrow> net_client \<Rightarrow> net_client" where
  "send_tcp_frame ty payload nc =
     (if nc_tcp_fd nc < 0 then nc
      else
        let len = length payload;
            frame = word_of_nat (len div 256) # word_of_nat len # message_type_byte ty # payload
        in nc\<lparr>nc_tcp_sent := nc_tcp_sent nc @ [frame]\<rparr>)"

definition send_udp_hello :: "u32 \<Rightarrow> net_client \<Rightarrow> net_client" where
  "send_udp_hello now nc =
     (if nc_udp_fd nc < 0 then nc
      else
        let w = ByteWriter (replicate (kUdpHeaderBytes + 8) 0) (kUdpHeaderBytes + 8);
            w = after (encode_udp_header \<lparr>uh_magic = kMagic, uh_version = kProtocolVersion,
                         uh_type = message_type_byte UdpHello, uh_tick = 0\<rparr>) w;
            w = after (encode_udp_hello \<lparr>hello_player_id = nc_player_id nc, hello_session_token = nc_session_token nc\<rparr>) w
        in nc\<lparr>nc_udp_sent := nc_udp_sent nc @ [written w], nc_last_udp_hello_sent_ms := now\<rparr>)"

definition send_input :: "u32 \<Rightarrow> input_cmd list \<Rightarrow> u8 \<Rightarrow> net_client \<Rightarrow> net_client" where
  "send_input base_seq inputs count nc =
     (if nc_udp_fd nc < 0 then nc
      else
        let count = (if unat count > kInputRedundancy then word_of_nat kInputRedundancy else count);
            msg = \<lparr>pi_player_id = nc_player_id nc, pi_session_token = nc_session_token nc, pi_base_seq = base_seq,
                   pi_count = count,
                   pi_inputs = update_range (replicate kInputRedundancy default_input) 0 (map (\<lambda>i. inputs ! i) [0..<unat count])\<rparr>;
            cap = kUdpHeaderBytes + 4 + 4 + 4 + 1 + kInputRedundancy * 3;
            w = ByteWriter (replicate cap 0) cap;
            w = after (encode_udp_header \<lparr>uh_magic = kMagic, uh_version = kProtocolVersion,
                         uh_type = message_type_byte PlayerInput, uh_tick = base_seq\<rparr>) w;
            w = after (encode_player_input msg) w
        in if bw_overflow w then nc
           else nc\<lparr>nc_udp_sent := nc_udp_sent nc @ [written w]\<rparr>)"

definition send_start_request :: "net_client \<Rightarrow> net_client" where
  "send_start_request nc = send_tcp_frame StartRequest (sent_bytes 1 (encode_start_request ())) nc"

definition maybe_resend_udp_hello :: "u32 \<Rightarrow> net_client \<Rightarrow> net_client" where
  "maybe_resend_udp_hello now nc =
     (if nc_first_snapshot_received nc then nc
      else if nc_state nc \<noteq> NcInLobby \<and> nc_state nc \<noteq> NcInGame then nc
      else if now - nc_last_udp_hello_sent_ms nc \<ge> kUdpHelloResendMs then send_udp_hello now nc
      else nc)"

definition maybe_send_heartbeat :: "u32 \<Rightarrow> net_client \<Rightarrow> net_client" where
  "maybe_send_heartbeat now nc =
     (if nc_tcp_fd nc < 0 then nc
      else if now - nc_last_heartbeat_sent_ms nc < kHeartbeatIntervalSec * 1000 then nc
      else (send_tcp_frame Heartbeat (sent_bytes 1 (encode_heartbeat ())) nc)\<lparr>nc_last_heartbeat_sent_ms := now\<rparr>)"

section \<open>Receiving\<close>

text \<open>\<open>decode(r, msg) && r.ok()\<close> on a fresh reader over the payload.\<close>

definition decoded :: "(byte_reader, 'm option) state \<Rightarrow> u8 list \<Rightarrow> 'm option" where
  "decoded dec payload =
     (case run_state dec (ByteReader payload (length payload)) of
        (Some m, r) \<Rightarrow> (if br_underflow r then None else Some m)
      | (None, r) \<Rightarrow> None)"

definition push_event :: "game_event \<Rightarrow> net_client \<Rightarrow> net_client" where
  "push_event ev nc = nc\<lparr>nc_pending_events := nc_pending_events nc @ [ev]\<rparr>"

definition push_decoded :: "('m \<Rightarrow> game_event) \<Rightarrow> 'm option \<Rightarrow> net_client \<Rightarrow> net_client" where
  "push_decoded mk res nc = (case res of None \<Rightarrow> nc | Some m \<Rightarrow> push_event (mk m) nc)"

definition dispatch_tcp_frame :: "u8 \<Rightarrow> u8 list \<Rightarrow> net_client \<Rightarrow> net_client" where
  "dispatch_tcp_frame ty payload nc =
     (if ty = message_type_byte LobbyState then
        (case decoded decode_lobby_state payload of
           None \<Rightarrow> nc
         | Some m \<Rightarrow> push_event (EvLobbyState m) (nc\<lparr>nc_lobby_state := m\<rparr>))
      else if ty = message_type_byte GameStart then
        (case decoded decode_game_start payload of
           None \<Rightarrow> nc
         | Some m \<Rightarrow> push_event (EvGameStart m) (nc\<lparr>nc_game_start := m, nc_state := NcInGame\<rparr>))
      else if ty = message_type_byte PlayerKilled then push_decoded EvPlayerKilled (decoded decode_player_killed payload) nc
      else if ty = message_type_byte PlayerRespawned then push_decoded EvPlayerRespawned (decoded decode_player_respawned payload) nc
      else if ty = message_type_byte FlagPickedUp then push_decoded EvFlagPickedUp (decoded decode_flag_picked_up payload) nc
      else if ty = message_type_byte FlagDropped then push_decoded EvFlagDropped (decoded decode_flag_dropped payload) nc
      else if ty = message_type_byte FlagReturned then push_decoded EvFlagReturned (decoded decode_flag_returned payload) nc
      else if ty = message_type_byte FlagCaptured then push_decoded EvFlagCaptured (decoded decode_flag_captured payload) nc
      else if ty = message_type_byte MatchEnd then push_decoded EvMatchEnd (decoded decode_match_end payload) nc
      else nc)"

definition dispatch_udp_payload :: "u8 \<Rightarrow> u32 \<Rightarrow> u8 list \<Rightarrow> net_client \<Rightarrow> net_client" where
  "dispatch_udp_payload ty tick payload nc =
     (if ty = message_type_byte WorldSnapshot then
        (case decoded decode_world_snapshot payload of
           None \<Rightarrow> nc
         | Some snap \<Rightarrow> nc\<lparr>nc_last_snapshot_cache := snap, nc_have_last_snapshot := True,
             nc_first_snapshot_received := True, nc_pending_snapshots := nc_pending_snapshots nc @ [snap]\<rparr>)
      else if ty = message_type_byte DeltaSnapshot then
        (if \<not> nc_have_last_snapshot nc then nc
         else case received (decode_delta_snapshot tick (nc_last_snapshot_cache nc)) payload of
           None \<Rightarrow> nc\<lparr>nc_have_last_snapshot := False\<rparr>
         | Some snap \<Rightarrow> nc\<lparr>nc_last_snapshot_cache := snap, nc_first_snapshot_received := True,
             nc_pending_snapshots := nc_pending_snapshots nc @ [snap]\<rparr>)
      else if ty = message_type_byte ShotFired then push_decoded EvShotFired (decoded decode_shot_fired payload) nc
      else nc)"

text \<open>One datagram of \<open>drain_udp\<close>.\<close>

definition handle_datagram :: "u8 list \<Rightarrow> net_client \<Rightarrow> net_client" where
  "handle_datagram buf nc =
     (if length buf < kUdpHeaderBytes then nc
      else case decoded decode_udp_header buf of
        None \<Rightarrow> nc
      | Some hdr \<Rightarrow> dispatch_udp_payload (uh_type hdr) (uh_tick hdr) (drop kUdpHeaderBytes buf) nc)"

primrec drain_udp :: "recv_outcome list \<Rightarrow> net_client \<Rightarrow> net_client" where
  "drain_udp [] nc = nc"
| "drain_udp (r # rs) nc =
     (case r of
        RecvBytes buf \<Rightarrow> drain_udp rs (handle_datagram buf nc)
      | RecvClosed \<Rightarrow> drain_udp rs (handle_datagram [] nc)
      | RecvInterrupted \<Rightarrow> drain_udp rs nc
      | RecvAgain \<Rightarrow> nc
      | RecvFailed \<Rightarrow> nc)"

text \<open>The first loop of \<open>drain_tcp\<close>: the flag says whether it ran to \<open>EAGAIN\<close> (false after a disconnect).\<close>

primrec recv_tcp :: "recv_outcome list \<Rightarrow> net_client \<Rightarrow> bool \<times> net_client" where
  "recv_tcp [] nc = (True, nc)"
| "recv_tcp (r # rs) nc =
     (case r of
        RecvBytes buf \<Rightarrow> recv_tcp rs (nc\<lparr>nc_tcp_rx_buf := nc_tcp_rx_buf nc @ buf\<rparr>)
      | RecvClosed \<Rightarrow> (False, disconnect nc)
      | RecvAgain \<Rightarrow> (True, nc)
      | RecvInterrupted \<Rightarrow> recv_tcp rs nc
      | RecvFailed \<Rightarrow> (False, disconnect nc))"

text \<open>Dispatching a frame neither reads nor writes the accumulation buffer.\<close>

lemma push_decoded_buf:
  "push_decoded mk res (nc\<lparr>nc_tcp_rx_buf := b\<rparr>) = (push_decoded mk res nc)\<lparr>nc_tcp_rx_buf := b\<rparr>"
  "nc_tcp_rx_buf (push_decoded mk res nc) = nc_tcp_rx_buf nc"
  by (cases res; simp add: push_decoded_def push_event_def)+

lemma dispatch_tcp_rx_buf [simp]: "nc_tcp_rx_buf (dispatch_tcp_frame ty payload nc) = nc_tcp_rx_buf nc"
  unfolding dispatch_tcp_frame_def if_distrib [where f = nc_tcp_rx_buf] push_decoded_buf push_event_def
  by (cases "decoded decode_lobby_state payload"; cases "decoded decode_game_start payload"; simp only: option.case) simp_all

lemma dispatch_buf_commute:
  "dispatch_tcp_frame ty payload (nc\<lparr>nc_tcp_rx_buf := b\<rparr>) = (dispatch_tcp_frame ty payload nc)\<lparr>nc_tcp_rx_buf := b\<rparr>"
  unfolding dispatch_tcp_frame_def if_distrib [where f = "\<lambda>n. n\<lparr>nc_tcp_rx_buf := b\<rparr>"] push_decoded_buf push_event_def
  by (cases "decoded decode_lobby_state payload"; cases "decoded decode_game_start payload"; simp only: option.case) simp_all

lemma rx_buf_same: "nc_tcp_rx_buf nc = b \<Longrightarrow> nc\<lparr>nc_tcp_rx_buf := b\<rparr> = nc"
  by (cases nc) simp

text \<open>The second loop: dispatch every complete frame, then erase it from the buffer.\<close>

function dispatch_frames :: "net_client \<Rightarrow> net_client" where
  "dispatch_frames nc =
     (case recv_framed (nc_tcp_rx_buf nc) of
        Oversize \<Rightarrow> disconnect nc
      | Incomplete \<Rightarrow> nc
      | Frame ty payload consumed \<Rightarrow>
          let nc = dispatch_tcp_frame ty payload nc
          in dispatch_frames (nc\<lparr>nc_tcp_rx_buf := drop consumed (nc_tcp_rx_buf nc)\<rparr>))"
  by pat_completeness auto
termination
  by (relation "measure (\<lambda>nc. length (nc_tcp_rx_buf nc))") (auto dest!: recv_framed_measure)

declare dispatch_frames.simps [simp del]

definition drain_tcp :: "recv_outcome list \<Rightarrow> net_client \<Rightarrow> net_client" where
  "drain_tcp rs nc = (case recv_tcp rs nc of (ok, nc) \<Rightarrow> if ok then dispatch_frames nc else nc)"

definition client_poll :: "recv_outcome list \<Rightarrow> recv_outcome list \<Rightarrow> u32 \<Rightarrow> u32 \<Rightarrow> net_client \<Rightarrow> net_client" where
  "client_poll tcp udp now1 now2 nc =
     (let nc = (if nc_tcp_fd nc \<ge> 0 then drain_tcp tcp nc else nc);
          nc = (if nc_udp_fd nc \<ge> 0 then drain_udp udp nc else nc);
          nc = maybe_resend_udp_hello now1 nc
      in maybe_send_heartbeat now2 nc)"

definition take_snapshots :: "net_client \<Rightarrow> world_snapshot list \<times> net_client" where
  "take_snapshots nc = (nc_pending_snapshots nc, nc\<lparr>nc_pending_snapshots := []\<rparr>)"

definition take_events :: "net_client \<Rightarrow> game_event list \<times> net_client" where
  "take_events nc = (nc_pending_events nc, nc\<lparr>nc_pending_events := []\<rparr>)"

definition is_host :: "net_client \<Rightarrow> bool" where
  "is_host nc \<longleftrightarrow> nc_state nc \<noteq> NcDisconnected \<and> nc_state nc \<noteq> NcRejected
     \<and> nc_player_id nc = ls_host_id (nc_lobby_state nc)"

section \<open>Handshake\<close>

text \<open>
  \<open>wait_for_tcp_frame\<close>: each element is what one \<open>poll\<close> with the following \<open>recv\<close> brought; the
  list ends when the deadline has passed. The result is the frame, if one arrived.
\<close>

datatype wait_outcome = WaitBytes "u8 list" | WaitNothing | WaitFailed

primrec wait_rest :: "wait_outcome list \<Rightarrow> u8 list \<Rightarrow> (u8 \<times> u8 list) option \<times> u8 list" where
  "wait_rest [] buf =
     (case recv_framed buf of
        Frame ty payload consumed \<Rightarrow> (Some (ty, payload), drop consumed buf)
      | _ \<Rightarrow> (None, buf))"
| "wait_rest (w # ws) buf =
     (case recv_framed buf of
        Frame ty payload consumed \<Rightarrow> (Some (ty, payload), drop consumed buf)
      | Oversize \<Rightarrow> (None, buf)
      | Incomplete \<Rightarrow>
          (case w of
             WaitBytes bs \<Rightarrow> wait_rest ws (buf @ bs)
           | WaitNothing \<Rightarrow> wait_rest ws buf
           | WaitFailed \<Rightarrow> (None, buf)))"

definition wait_for_tcp_frame :: "wait_outcome list \<Rightarrow> net_client \<Rightarrow> (u8 \<times> u8 list) option \<times> net_client" where
  "wait_for_tcp_frame ws nc =
     (case wait_rest ws (nc_tcp_rx_buf nc) of (res, buf) \<Rightarrow> (res, nc\<lparr>nc_tcp_rx_buf := buf\<rparr>))"

text \<open>The handshake after both sockets are open: \<open>connect_and_join\<close> from the encoding of the join on.\<close>

definition join_server :: "u8 list \<Rightarrow> wait_outcome list \<Rightarrow> net_client \<Rightarrow> bool \<times> net_client" where
  "join_server name ws nc =
     (let nc = send_tcp_frame JoinLobby (sent_bytes 16 (encode_join_lobby \<lparr>jl_name = snprintf_name name\<rparr>)) nc;
          nc = nc\<lparr>nc_state := NcWaitingJoinAccept\<rparr>;
          (frame, nc) = wait_for_tcp_frame ws nc
      in case frame of
           None \<Rightarrow> (False, disconnect nc)
         | Some (ty, payload) \<Rightarrow>
             if ty = message_type_byte JoinAccept then
               (case decoded decode_join_accept payload of
                  None \<Rightarrow> (False, disconnect nc)
                | Some m \<Rightarrow> (True, nc\<lparr>nc_player_id := ja_player_id m, nc_session_token := ja_session_token m,
                    nc_server_udp_port := ja_udp_port m, nc_state := NcInLobby\<rparr>))
             else if ty = message_type_byte JoinReject then
               let reason = (case received decode_join_reject payload of None \<Rightarrow> RejectFull | Some m \<Rightarrow> jr_reason m)
               in (False, (disconnect (nc\<lparr>nc_join_reject_reason := reason\<rparr>))\<lparr>nc_state := NcRejected\<rparr>)
             else (False, disconnect nc))"

text \<open>The system calls of \<open>connect_and_join\<close>: the resolved address and the two descriptors, or a failure.\<close>

datatype connect_env = ResolveFailed | TcpSocketFailed u32 | TcpConnectFailed u32 | UdpSocketFailed u32 int
  | UdpBindFailed u32 int | Connected u32 int int

definition connect_and_join :: "connect_env \<Rightarrow> u8 list \<Rightarrow> wait_outcome list \<Rightarrow> net_client \<Rightarrow> bool \<times> net_client" where
  "connect_and_join env name ws nc =
     (let nc = (disconnect nc)\<lparr>nc_state := NcDisconnected\<rparr> in
      case env of
        ResolveFailed \<Rightarrow> (False, nc)
      | TcpSocketFailed ip \<Rightarrow> (False, nc\<lparr>nc_server_ipv4 := ip, nc_tcp_fd := -1\<rparr>)
      | TcpConnectFailed ip \<Rightarrow> (False, disconnect (nc\<lparr>nc_server_ipv4 := ip\<rparr>))
      | UdpSocketFailed ip tcp \<Rightarrow> (False, disconnect (nc\<lparr>nc_server_ipv4 := ip, nc_tcp_fd := tcp, nc_udp_fd := -1\<rparr>))
      | UdpBindFailed ip tcp \<Rightarrow> (False, disconnect (nc\<lparr>nc_server_ipv4 := ip, nc_tcp_fd := tcp\<rparr>))
      | Connected ip tcp udp \<Rightarrow>
          join_server name ws (nc\<lparr>nc_server_ipv4 := ip, nc_tcp_fd := tcp, nc_udp_fd := udp\<rparr>))"

section \<open>Frames in, events out\<close>

definition dispatch_all :: "(u8 \<times> u8 list) list \<Rightarrow> net_client \<Rightarrow> net_client" where
  "dispatch_all fs nc = fold (\<lambda>(ty, payload). dispatch_tcp_frame ty payload) fs nc"

lemma dispatch_all_buf: "dispatch_all fs (nc\<lparr>nc_tcp_rx_buf := b\<rparr>) = (dispatch_all fs nc)\<lparr>nc_tcp_rx_buf := b\<rparr>"
  by (induction fs arbitrary: nc) (auto simp: dispatch_all_def dispatch_buf_commute)

lemma dispatch_all_rx_buf: "nc_tcp_rx_buf (dispatch_all fs nc) = nc_tcp_rx_buf nc"
  by (induction fs arbitrary: nc) (auto simp: dispatch_all_def)

text \<open>The dispatch loop is the generic draining loop with a dispatch per frame.\<close>

lemma dispatch_frames_drain:
  assumes "drain_frames (nc_tcp_rx_buf nc) = (fs, rest, bad)"
  shows "dispatch_frames nc =
    (let nc = (dispatch_all fs nc)\<lparr>nc_tcp_rx_buf := rest\<rparr> in if bad then disconnect nc else nc)"
  using assms
proof (induction nc arbitrary: fs rest rule: dispatch_frames.induct)
  case (1 nc)
  note unfold = dispatch_frames.simps [of nc]
  show ?case
  proof (cases "recv_framed (nc_tcp_rx_buf nc)")
    case Incomplete
    then show ?thesis using "1.prems" by (simp add: unfold dispatch_all_def)
  next
    case Oversize
    then show ?thesis using "1.prems" by (simp add: unfold dispatch_all_def rx_buf_same)
  next
    case (Frame ty payload n)
    let ?nc = "dispatch_tcp_frame ty payload nc"
    let ?next = "?nc\<lparr>nc_tcp_rx_buf := drop n (nc_tcp_rx_buf nc)\<rparr>"
    obtain gs where gs: "drain_frames (drop n (nc_tcp_rx_buf nc)) = (gs, rest, bad)" "fs = (ty, payload) # gs"
      using "1.prems" Frame by (auto split: prod.splits)
    have "dispatch_frames ?next = (let nc = (dispatch_all gs ?next)\<lparr>nc_tcp_rx_buf := rest\<rparr> in if bad then disconnect nc else nc)"
      using "1.IH" [OF Frame refl, of gs rest] gs(1) by simp
    moreover have "(dispatch_all gs ?next)\<lparr>nc_tcp_rx_buf := rest\<rparr> = (dispatch_all fs nc)\<lparr>nc_tcp_rx_buf := rest\<rparr>"
      unfolding dispatch_all_buf gs(2) by (simp add: dispatch_all_def)
    ultimately show ?thesis using Frame by (simp add: unfold)
  qed
qed

text \<open>Several polls, each bringing one chunk of the stream.\<close>

lemma drain_tcp_chunks:
  assumes "feed (nc_tcp_rx_buf nc) chunks = (fs, rest, False)" "drain_frames (nc_tcp_rx_buf nc) = ([], nc_tcp_rx_buf nc, False)"
  shows "fold (\<lambda>chunk. drain_tcp [RecvBytes chunk]) chunks nc = (dispatch_all fs nc)\<lparr>nc_tcp_rx_buf := rest\<rparr>"
  using assms
proof (induction chunks arbitrary: nc fs)
  case Nil
  then show ?case by (simp add: dispatch_all_def)
next
  case (Cons chunk chunks)
  obtain gs r bad where d: "drain_frames (nc_tcp_rx_buf nc @ chunk) = (gs, r, bad)" by (metis prod_cases3)
  have ok: "\<not> bad" using Cons.prems(1) d by (auto split: if_splits)
  then obtain hs where hs: "feed r chunks = (hs, rest, False)" "fs = gs @ hs"
    using Cons.prems(1) d by (auto split: prod.splits)
  let ?nc = "(dispatch_all gs nc)\<lparr>nc_tcp_rx_buf := r\<rparr>"
  have step: "drain_tcp [RecvBytes chunk] nc = ?nc"
    using dispatch_frames_drain [of "nc\<lparr>nc_tcp_rx_buf := nc_tcp_rx_buf nc @ chunk\<rparr>" gs r bad] d ok
    by (simp add: drain_tcp_def dispatch_all_buf)
  have "fold (\<lambda>chunk. drain_tcp [RecvBytes chunk]) chunks ?nc = (dispatch_all hs ?nc)\<lparr>nc_tcp_rx_buf := rest\<rparr>"
    using hs(1) drained_rest d ok by (intro Cons.IH) auto
  also have "\<dots> = (dispatch_all fs nc)\<lparr>nc_tcp_rx_buf := rest\<rparr>"
    unfolding dispatch_all_buf hs(2) by (simp add: dispatch_all_def)
  finally show ?case by (simp add: step)
qed

section \<open>Properties\<close>

text \<open>
  C33 (equivalence): what the client does with the server's event stream depends on the frames only.
  Whatever way the network cuts the stream into chunks and over however many polls they arrive,
  the client dispatches exactly the sent frames, in order, and keeps an incomplete tail.
\<close>

theorem client_events_independent_of_chunks:
  assumes "\<forall>(ty, payload) \<in> set ms. length payload \<le> kTcpFrameCapBytes"
    and "concat chunks = concat (map (\<lambda>(ty, payload). frame_image ty payload) ms) @ partial"
    and "recv_framed partial = Incomplete" "nc_tcp_rx_buf nc = []"
  shows "fold (\<lambda>chunk. drain_tcp [RecvBytes chunk]) chunks nc
    = (fold (\<lambda>(ty, payload). dispatch_tcp_frame ty payload) ms nc)\<lparr>nc_tcp_rx_buf := partial\<rparr>"
proof -
  have "drain_frames [] = ([], [], False)" by (simp add: recv_framed_def config_defs)
  moreover have "feed [] chunks = (ms, partial, False)"
  proof -
    let ?all = "concat (map (\<lambda>(ty, payload). frame_image ty payload) ms)"
    have "drain_frames ?all = (ms, [], False)" using assms(1) by (intro drain_frames_images) auto
    then have "drain_frames ([] @ concat chunks) = (ms, partial, False)"
      using drain_frames_append [of ?all ms "[]" partial] assms(2,3) by simp
    then show ?thesis
      using feed_chunks [OF \<open>drain_frames [] = ([], [], False)\<close>, of chunks ms partial False] by (metis prod.collapse)
  qed
  ultimately show ?thesis
    using drain_tcp_chunks [of nc chunks ms partial] assms(4) by (simp add: dispatch_all_def)
qed

theorem client_events_independent_of_chunks_witness:
  "fold (\<lambda>chunk. drain_tcp [RecvBytes chunk]) [[0, 0], [18]] NetClient = NetClient\<lparr>nc_tcp_rx_buf := []\<rparr>"
proof -
  have "fold (\<lambda>chunk. drain_tcp [RecvBytes chunk]) [[0, 0], [18]] NetClient
    = (fold (\<lambda>(ty, payload). dispatch_tcp_frame ty payload) [(18, [])] NetClient)\<lparr>nc_tcp_rx_buf := []\<rparr>"
    by (rule client_events_independent_of_chunks)
      (simp_all add: frame_image_def recv_framed_def config_defs NetClient_def)
  then show ?thesis by (simp add: dispatch_tcp_frame_def)
qed

end
