(* ===== verification/Client_Registry.thy ===== *)
theory Client_Registry
  imports Game_Types
begin

text \<open>
  \<open>server/client_registry.h\<close> and \<open>server/client_registry.cpp\<close>: the network thread's table of
  connected clients. The vector \<open>storage_\<close> is a list; a removed entry stays in place with the
  descriptor -1, so a slot's index is its player id for ever. A pointer to an entry is its index.
\<close>

section \<open>State\<close>

type_synonym udp_addr = "u32 \<times> u16"

record client_entry =
  ce_player_id :: u8
  ce_tcp_fd :: int
  ce_name :: "u8 list"
  ce_udp_addr :: udp_addr
  ce_has_udp_addr :: bool
  ce_session_token :: u32
  ce_last_input_tick :: u32
  ce_pending_out :: "u8 list"

definition default_client_entry :: client_entry where
  "default_client_entry = \<lparr>ce_player_id = 0, ce_tcp_fd = -1, ce_name = [], ce_udp_addr = (0, 0),
     ce_has_udp_addr = False, ce_session_token = 0, ce_last_input_tick = 0, ce_pending_out = []\<rparr>"

definition kFreeFd :: int where "kFreeFd = -1"

type_synonym client_registry = "client_entry list"

definition ClientRegistry :: client_registry where
  "ClientRegistry = []"

section \<open>Operations\<close>

definition live_count :: "client_registry \<Rightarrow> nat" where
  "live_count reg = length (filter (\<lambda>e. ce_tcp_fd e \<noteq> kFreeFd) reg)"

text \<open>The loop of \<open>add\<close> from the candidate id on: skip slots in use, take the first that is free or new.\<close>

function add_from :: "nat \<Rightarrow> int \<Rightarrow> u8 list \<Rightarrow> client_registry \<Rightarrow> nat option \<times> client_registry" where
  "add_from i fd name reg =
     (if i < length reg \<and> ce_tcp_fd (reg ! i) \<noteq> kFreeFd then add_from (i + 1) fd name reg
      else if \<not> i < length reg \<and> length reg \<ge> kMaxPlayers then (None, reg)
      else
        let slot = (if i < length reg then i else length reg);
            reg = (if i < length reg then reg else reg @ [default_client_entry])
        in if live_count reg \<ge> kMaxPlayers then (None, reg)
           else (Some slot, reg[slot := default_client_entry\<lparr>ce_player_id := word_of_nat i, ce_tcp_fd := fd, ce_name := name\<rparr>]))"
  by pat_completeness auto
termination
  by (relation "measure (\<lambda>(i, fd, name, reg). length reg - i)") auto

declare add_from.simps [simp del]

definition registry_add :: "int \<Rightarrow> u8 list \<Rightarrow> client_registry \<Rightarrow> nat option \<times> client_registry" where
  "registry_add fd name reg = add_from 0 fd name reg"

definition registry_remove :: "u8 \<Rightarrow> client_registry \<Rightarrow> client_registry" where
  "registry_remove pid reg =
     (if unat pid < length reg \<and> ce_tcp_fd (reg ! unat pid) \<noteq> kFreeFd
      then reg[unat pid := default_client_entry\<lparr>ce_tcp_fd := kFreeFd\<rparr>] else reg)"

definition find_by_id :: "client_registry \<Rightarrow> u8 \<Rightarrow> nat option" where
  "find_by_id reg pid =
     (if unat pid < length reg \<and> ce_tcp_fd (reg ! unat pid) \<noteq> kFreeFd then Some (unat pid) else None)"

definition find_by_fd :: "client_registry \<Rightarrow> int \<Rightarrow> nat option" where
  "find_by_fd reg fd = List.find (\<lambda>i. ce_tcp_fd (reg ! i) = fd) [0..<length reg]"

text \<open>The slots \<open>for_each_live\<close> visits, in order.\<close>

definition live_slots :: "client_registry \<Rightarrow> nat list" where
  "live_slots reg = filter (\<lambda>i. ce_tcp_fd (reg ! i) \<ge> 0) [0..<length reg]"

section \<open>Invariant\<close>

definition reg_inv :: "client_registry \<Rightarrow> bool" where
  "reg_inv reg \<longleftrightarrow> length reg \<le> kMaxPlayers
     \<and> (\<forall>i < length reg. ce_tcp_fd (reg ! i) = -1 \<or> 0 \<le> ce_tcp_fd (reg ! i) \<and> ce_player_id (reg ! i) = word_of_nat i)"

lemma slot_word: "i < kMaxPlayers \<Longrightarrow> unat (word_of_nat i :: u8) = i"
  by (simp add: unsigned_of_nat take_bit_nat_eq_self config_defs)

lemma live_count_lt:
  assumes "i < length reg" "ce_tcp_fd (reg ! i) = kFreeFd" "length reg \<le> kMaxPlayers"
  shows "live_count reg < kMaxPlayers"
  using assms by (metis (mono_tags, lifting) length_filter_less live_count_def nth_mem order_less_le_trans)

text \<open>
  \<open>add\<close> in closed form: the slot it takes is the first that is not in use, or a new one at the end,
  and it fails only when ten clients are connected.
\<close>

definition first_free :: "nat \<Rightarrow> client_registry \<Rightarrow> nat" where
  "first_free i reg = (case List.find (\<lambda>j. ce_tcp_fd (reg ! j) = kFreeFd) [i..<length reg] of
     Some j \<Rightarrow> j | None \<Rightarrow> max i (length reg))"

definition fresh_entry :: "nat \<Rightarrow> int \<Rightarrow> u8 list \<Rightarrow> client_entry" where
  "fresh_entry i fd name = default_client_entry\<lparr>ce_player_id := word_of_nat i, ce_tcp_fd := fd, ce_name := name\<rparr>"

lemma add_from_closed:
  assumes "length reg \<le> kMaxPlayers" "i \<le> length reg" "k = first_free i reg"
  shows "add_from i fd name reg =
    (if k \<ge> kMaxPlayers then (None, reg)
     else (Some k, if k < length reg then reg[k := fresh_entry k fd name] else reg @ [fresh_entry k fd name]))"
  using assms
proof (induction i fd name reg arbitrary: k rule: add_from.induct)
  case (1 i fd name reg)
  consider (used) "i < length reg" "ce_tcp_fd (reg ! i) \<noteq> kFreeFd" | (free) "i < length reg" "ce_tcp_fd (reg ! i) = kFreeFd"
    | (new) "i = length reg" using "1.prems" by linarith
  then show ?case
  proof cases
    case used
    then have "first_free i reg = first_free (i + 1) reg"
      by (simp add: first_free_def upt_conv_Cons max_def)
    then show ?thesis using "1.IH" used "1.prems" by (simp add: add_from.simps [of i])
  next
    case free
    then have k: "k = i" using "1.prems" by (simp add: first_free_def upt_conv_Cons)
    then show ?thesis using free "1.prems" live_count_lt [of i reg]
      by (simp add: add_from.simps [of i] fresh_entry_def not_le)
  next
    case new
    then have k: "k = length reg" using "1.prems" by (simp add: first_free_def)
    have "live_count (reg @ [default_client_entry]) < kMaxPlayers" if "length reg < kMaxPlayers"
      using that live_count_lt [of "length reg" "reg @ [default_client_entry]"]
      by (simp add: default_client_entry_def kFreeFd_def)
    then show ?thesis using k "1.prems"
      unfolding new add_from.simps [of "length reg"]
      by (cases "length reg < kMaxPlayers") (simp_all add: fresh_entry_def not_le Let_def)
  qed
qed

lemma first_free_spec:
  assumes "k = first_free 0 reg"
  shows "k \<le> length reg" "\<forall>j < k. ce_tcp_fd (reg ! j) \<noteq> kFreeFd" "k < length reg \<Longrightarrow> ce_tcp_fd (reg ! k) = kFreeFd"
  using assms unfolding first_free_def
  by (auto simp: find_None_iff find_Some_iff split: option.splits)

lemma registry_add_closed:
  assumes "reg_inv reg" "k = first_free 0 reg"
  shows "registry_add fd name reg =
    (if k \<ge> kMaxPlayers then (None, reg)
     else (Some k, if k < length reg then reg[k := fresh_entry k fd name] else reg @ [fresh_entry k fd name]))"
  unfolding registry_add_def using assms by (intro add_from_closed) (auto simp: reg_inv_def)

lemma reg_inv_start: "reg_inv ClientRegistry"
  by (simp add: reg_inv_def ClientRegistry_def)

lemma reg_inv_add:
  assumes "reg_inv reg" "0 \<le> fd"
  shows "reg_inv (snd (registry_add fd name reg))"
  using assms first_free_spec(1) [OF refl, of reg]
  by (auto simp: registry_add_closed [OF assms(1) refl] reg_inv_def nth_list_update nth_append fresh_entry_def less_Suc_eq)

lemma reg_inv_remove: "reg_inv reg \<Longrightarrow> reg_inv (registry_remove pid reg)"
  by (auto simp: registry_remove_def reg_inv_def nth_list_update kFreeFd_def)

text \<open>Changing other fields of an entry keeps the invariant.\<close>

lemma reg_inv_update:
  assumes "reg_inv reg" "ce_tcp_fd (f (reg ! i)) = ce_tcp_fd (reg ! i)" "ce_player_id (f (reg ! i)) = ce_player_id (reg ! i)"
  shows "reg_inv (reg[i := f (reg ! i)])"
proof (cases "i < length reg")
  case True
  then show ?thesis using assms by (auto simp: reg_inv_def nth_list_update)
next
  case False
  then show ?thesis using assms by (simp add: list_update_beyond)
qed

inductive reg_reachable :: "client_registry \<Rightarrow> bool" where
  start: "reg_reachable ClientRegistry"
| added: "reg_reachable reg \<Longrightarrow> 0 \<le> fd \<Longrightarrow> reg_reachable (snd (registry_add fd name reg))"
| removed: "reg_reachable reg \<Longrightarrow> reg_reachable (registry_remove pid reg)"
| edited: "reg_reachable reg \<Longrightarrow> ce_tcp_fd (f (reg ! i)) = ce_tcp_fd (reg ! i) \<Longrightarrow>
    ce_player_id (f (reg ! i)) = ce_player_id (reg ! i) \<Longrightarrow> reg_reachable (reg[i := f (reg ! i)])"
| closed: "reg_reachable reg \<Longrightarrow> reg_reachable (reg[i := (reg ! i)\<lparr>ce_tcp_fd := kFreeFd\<rparr>])"

lemma reg_inv_closed: "reg_inv reg \<Longrightarrow> reg_inv (reg[i := (reg ! i)\<lparr>ce_tcp_fd := kFreeFd\<rparr>])"
  by (cases "i < length reg") (auto simp: reg_inv_def nth_list_update list_update_beyond kFreeFd_def)

lemma reg_reachable_inv: "reg_reachable reg \<Longrightarrow> reg_inv reg"
  by (induction rule: reg_reachable.induct)
    (simp_all add: reg_inv_start reg_inv_add reg_inv_remove reg_inv_update reg_inv_closed)

section \<open>Properties\<close>

text \<open>
  Registering a client gives it the lowest id that is not in use and leaves every
  other client's entry, and so every other id, as it was; it is refused exactly when ten clients
  are connected. A lookup by the new id or by its descriptor finds it.
\<close>

lemma registration_takes_lowest_free_id:
  assumes "reg_reachable reg" "0 \<le> fd" "\<forall>e \<in> set reg. ce_tcp_fd e \<noteq> fd"
    and "registry_add fd name reg = (res, reg')"
  shows "case res of
      None \<Rightarrow> reg' = reg \<and> live_count reg = kMaxPlayers
    | Some k \<Rightarrow> k < kMaxPlayers \<and> (\<forall>j < k. find_by_id reg (word_of_nat j) = Some j)
        \<and> find_by_id reg (word_of_nat k) = None
        \<and> find_by_id reg' (word_of_nat k) = Some k \<and> find_by_fd reg' fd = Some k
        \<and> ce_player_id (reg' ! k) = word_of_nat k \<and> ce_name (reg' ! k) = name
        \<and> (\<forall>j < length reg. j \<noteq> k \<longrightarrow> reg' ! j = reg ! j)"
proof -
  have inv: "reg_inv reg" using reg_reachable_inv [OF assms(1)] .
  let ?k = "first_free 0 reg"
  note spec = first_free_spec [OF refl, of reg]
  note add = registry_add_closed [OF inv refl, of fd name]
  have len: "length reg \<le> kMaxPlayers" using inv by (simp add: reg_inv_def)
  show ?thesis
  proof (cases "?k \<ge> kMaxPlayers")
    case True
    then have "length reg = kMaxPlayers" "\<forall>j < length reg. ce_tcp_fd (reg ! j) \<noteq> kFreeFd"
      using spec len by auto
    then have "live_count reg = kMaxPlayers" by (auto simp: live_count_def filter_True all_set_conv_all_nth)
    then show ?thesis using True add assms(4) by simp
  next
    case False
    then have k: "?k < kMaxPlayers" by simp
    have eq: "res = Some ?k" "reg' = (if ?k < length reg then reg[?k := fresh_entry ?k fd name] else reg @ [fresh_entry ?k fd name])"
      using False add assms(4) by simp_all
    have at_k: "reg' ! ?k = fresh_entry ?k fd name" "?k < length reg'"
      and other: "\<forall>j < length reg. j \<noteq> ?k \<longrightarrow> reg' ! j = reg ! j"
      and below: "length reg' = max (length reg) (Suc ?k)"
      using eq(2) spec(1) by (auto simp: nth_append max_def)
    have before: "find_by_id reg (word_of_nat j) = Some j" if "j < ?k" for j
      using that spec k slot_word [of j] by (simp add: find_by_id_def)
    have none: "find_by_id reg (word_of_nat ?k) = None" using spec(3) slot_word [OF k] by (auto simp: find_by_id_def)
    have found: "find_by_id reg' (word_of_nat ?k) = Some ?k"
      using at_k slot_word [OF k] assms(2) by (simp add: find_by_id_def fresh_entry_def kFreeFd_def)
    have early: "\<forall>j < ?k. ce_tcp_fd (reg' ! j) \<noteq> fd"
      using other spec(1) assms(3) by (simp add: nth_mem)
    have "ce_tcp_fd (reg' ! ?k) = fd" by (simp add: at_k fresh_entry_def)
    then have "find_by_fd reg' fd = Some ?k"
      unfolding find_by_fd_def find_Some_iff using at_k(2) early by (intro exI [of _ ?k]) simp
    then show ?thesis
      using k before none found at_k other by (simp add: eq(1) fresh_entry_def)
  qed
qed

end
