(* ===== verification/Broadcast.thy ===== *)
theory Broadcast
  imports Client_Registry Protocol_Codecs
begin

text \<open>
  \<open>server/broadcast.cpp\<close>: fan-out of a TCP event into the clients' output buffers, and of a snapshot
  as one datagram per client with the client's own acknowledgement patched in.

  The datagram buffer is reused between recipients, as in the code; the lemmas show that no
  recipient sees another one's patch. A system call \<open>sendto\<close> is an element of the result list: the
  address and the bytes handed to it.
\<close>

section \<open>Operations\<close>

definition append_pending :: "u8 list \<Rightarrow> client_entry \<Rightarrow> client_entry" where
  "append_pending payload e = e\<lparr>ce_pending_out := ce_pending_out e @ payload\<rparr>"

definition broadcast_one :: "u8 list \<Rightarrow> nat \<Rightarrow> int \<times> client_registry \<Rightarrow> int \<times> client_registry" where
  "broadcast_one payload i = (\<lambda>(reached, reg).
     case find_by_id reg (ce_player_id (reg ! i)) of
       None \<Rightarrow> (reached, reg)
     | Some j \<Rightarrow> (reached + 1, reg[j := append_pending payload (reg ! j)]))"

definition broadcast_tcp_event :: "u8 list \<Rightarrow> client_registry \<Rightarrow> int \<times> client_registry" where
  "broadcast_tcp_event payload reg = fold (broadcast_one payload) (live_slots reg) (0, reg)"

definition kDatagramBytes :: nat where "kDatagramBytes = 600"

text \<open>The eight header bytes as the function writes them.\<close>

definition snapshot_header :: "u32 \<Rightarrow> u8 \<Rightarrow> u8 list" where
  "snapshot_header tick udp_msg_type =
     [ucast (drop_bit 8 kMagic), ucast (kMagic AND 0xFF), kProtocolVersion, udp_msg_type,
      ucast (drop_bit 24 tick), ucast (drop_bit 16 tick), ucast (drop_bit 8 tick), ucast tick]"

definition patch_ack :: "u32 \<Rightarrow> u8 list \<Rightarrow> u8 list" where
  "patch_ack ack dgram =
     dgram[kUdpHeaderBytes + 0 := ucast (drop_bit 24 ack), kUdpHeaderBytes + 1 := ucast (drop_bit 16 ack),
           kUdpHeaderBytes + 2 := ucast (drop_bit 8 ack), kUdpHeaderBytes + 3 := ucast ack]"

definition send_one :: "client_registry \<Rightarrow> u32 list \<Rightarrow> nat \<Rightarrow> u8 list \<times> (udp_addr \<times> u8 list) list
    \<Rightarrow> u8 list \<times> (udp_addr \<times> u8 list) list" where
  "send_one reg acks i = (\<lambda>(dgram, out).
     if \<not> ce_has_udp_addr (reg ! i) then (dgram, out)
     else case find_by_id reg (ce_player_id (reg ! i)) of
       None \<Rightarrow> (dgram, out)
     | Some j \<Rightarrow>
         let dgram = patch_ack (acks ! unat (ce_player_id (reg ! j))) dgram
         in (dgram, out @ [(ce_udp_addr (reg ! j), dgram)]))"

definition send_udp_snapshots ::
    "client_registry \<Rightarrow> int \<Rightarrow> u8 list \<Rightarrow> u32 list \<Rightarrow> u32 \<Rightarrow> u8 \<Rightarrow> (udp_addr \<times> u8 list) list" where
  "send_udp_snapshots reg udp_fd body acks tick udp_msg_type =
     (if udp_fd < 0 \<or> length body < 4 then []
      else if kUdpHeaderBytes + length body > kDatagramBytes then []
      else
        let dgram = snapshot_header tick udp_msg_type @ body
        in snd (fold (send_one reg acks) (live_slots reg) (dgram, [])))"

section \<open>Fan-out of events\<close>

lemma live_slots_props:
  "set (live_slots reg) = {i. i < length reg \<and> 0 \<le> ce_tcp_fd (reg ! i)}" "distinct (live_slots reg)"
  by (auto simp: live_slots_def)

lemma find_live:
  assumes "reg_inv reg" "i < length reg" "0 \<le> ce_tcp_fd (reg ! i)"
  shows "find_by_id reg (ce_player_id (reg ! i)) = Some i" "unat (ce_player_id (reg ! i)) = i"
proof -
  have "ce_player_id (reg ! i) = word_of_nat i" "i < kMaxPlayers"
    using assms by (auto simp: reg_inv_def)
  then show "unat (ce_player_id (reg ! i)) = i" by (simp add: slot_word)
  then show "find_by_id reg (ce_player_id (reg ! i)) = Some i" using assms by (simp add: find_by_id_def kFreeFd_def)
qed

lemma reg_inv_pending: "reg_inv reg \<Longrightarrow> reg_inv (reg[i := append_pending payload (reg ! i)])"
  by (rule reg_inv_update) (simp_all add: append_pending_def)

lemma broadcast_loop:
  assumes "reg_inv reg" "distinct is" "\<forall>i \<in> set is. i < length reg \<and> 0 \<le> ce_tcp_fd (reg ! i)"
  shows "fst (fold (broadcast_one payload) is (n, reg)) = n + int (length is)
    \<and> length (snd (fold (broadcast_one payload) is (n, reg))) = length reg
    \<and> (\<forall>j < length reg. snd (fold (broadcast_one payload) is (n, reg)) ! j
         = (if j \<in> set is then append_pending payload (reg ! j) else reg ! j))"
  using assms
proof (induction "is" arbitrary: n reg)
  case Nil
  then show ?case by simp
next
  case (Cons i "is")
  let ?reg = "reg[i := append_pending payload (reg ! i)]"
  have i: "i < length reg" "0 \<le> ce_tcp_fd (reg ! i)" using Cons.prems by simp_all
  have step: "broadcast_one payload i (n, reg) = (n + 1, ?reg)"
    using find_live(1) [OF Cons.prems(1) i] by (simp add: broadcast_one_def)
  have "\<forall>j \<in> set is. j < length ?reg \<and> 0 \<le> ce_tcp_fd (?reg ! j)"
    using Cons.prems by (auto simp: nth_list_update append_pending_def)
  from Cons.IH [OF reg_inv_pending [OF Cons.prems(1)] _ this, of "n + 1"] Cons.prems(2) i
  show ?case by (auto simp: step nth_list_update)
qed

lemma broadcast_entries:
  assumes "reg_inv reg"
  shows "fst (broadcast_tcp_event payload reg) = int (length (live_slots reg))"
    "length (snd (broadcast_tcp_event payload reg)) = length reg"
    "i < length reg \<Longrightarrow> snd (broadcast_tcp_event payload reg) ! i =
       (if 0 \<le> ce_tcp_fd (reg ! i) then append_pending payload (reg ! i) else reg ! i)"
  using broadcast_loop [OF assms live_slots_props(2), of reg payload 0]
  by (auto simp: live_slots_props(1) broadcast_tcp_event_def)

section \<open>Snapshots\<close>

lemma header_image:
  "snapshot_header tick ty = wire_udp_header \<lparr>uh_magic = kMagic, uh_version = kProtocolVersion, uh_type = ty, uh_tick = tick\<rparr>"
  by (simp add: snapshot_header_def wire_udp_header_def be16_def be32_def)

lemma length_header [simp]: "length (snapshot_header tick ty) = 8"
  by (simp add: snapshot_header_def)

lemma patch_ack_body:
  assumes "length hdr = 8" "4 \<le> length body"
  shows "patch_ack ack (hdr @ body) = hdr @ be32 ack @ drop 4 body"
proof -
  obtain a b c d rest where "body = a # b # c # d # rest"
    using assms(2) by (auto simp: numeral_eq_Suc Suc_le_length_iff)
  then show ?thesis
    using assms(1) by (simp add: patch_ack_def be32_def list_update_append kUdpHeaderBytes_def numeral_eq_Suc)
qed

lemma patch_twice: "4 \<le> length body \<Longrightarrow> length (be32 ack @ drop 4 body) = length body \<and> drop 4 (be32 ack @ drop 4 body) = drop 4 body"
  by simp

definition recipients :: "client_registry \<Rightarrow> nat list" where
  "recipients reg = filter (\<lambda>i. ce_has_udp_addr (reg ! i)) (live_slots reg)"

lemma send_loop_result:
  assumes "reg_inv reg" "\<forall>i \<in> set is. i < length reg \<and> 0 \<le> ce_tcp_fd (reg ! i)" "4 \<le> length body" "length hdr = 8"
  shows "snd (fold (send_one reg acks) is (hdr @ body, out)) =
    out @ map (\<lambda>i. (ce_udp_addr (reg ! i), hdr @ be32 (acks ! i) @ drop 4 body))
            (filter (\<lambda>i. ce_has_udp_addr (reg ! i)) is)"
  using assms(2,3)
proof (induction "is" arbitrary: body out)
  case Nil
  then show ?case by simp
next
  case (Cons i "is")
  have i: "i < length reg" "0 \<le> ce_tcp_fd (reg ! i)" using Cons.prems(1) by simp_all
  note live = find_live [OF assms(1) i]
  let ?body = "be32 (acks ! i) @ drop 4 body"
  show ?case
  proof (cases "ce_has_udp_addr (reg ! i)")
    case False
    then show ?thesis using Cons by (simp add: send_one_def)
  next
    case True
    have "send_one reg acks i (hdr @ body, out) = (hdr @ ?body, out @ [(ce_udp_addr (reg ! i), hdr @ ?body)])"
      using True live patch_ack_body [OF assms(4) Cons.prems(2)] by (simp add: send_one_def Let_def)
    moreover have "4 \<le> length ?body" "drop 4 ?body = drop 4 body" using Cons.prems(2) by simp_all
    ultimately show ?thesis using Cons.IH [of ?body] Cons.prems True by simp
  qed
qed

section \<open>Properties\<close>

text \<open>
  Broadcasting an event appends its bytes exactly once to the output buffer of
  every connected client, changes nothing else, and returns the number of connected clients.
\<close>

lemma broadcast_reaches_every_client:
  assumes "reg_reachable reg" "broadcast_tcp_event payload reg = (reached, reg')"
  shows "reached = int (card {i. i < length reg \<and> 0 \<le> ce_tcp_fd (reg ! i)}) \<and> length reg' = length reg
    \<and> (\<forall>i < length reg. reg' ! i = (if 0 \<le> ce_tcp_fd (reg ! i)
         then (reg ! i)\<lparr>ce_pending_out := ce_pending_out (reg ! i) @ payload\<rparr> else reg ! i))"
proof -
  have "card (set (live_slots reg)) = length (live_slots reg)"
    using live_slots_props(2) by (rule distinct_card)
  then show ?thesis
    using broadcast_entries [OF reg_reachable_inv [OF assms(1)], where payload = payload] assms(2)
    by (simp add: live_slots_props(1) append_pending_def)
qed

text \<open>
  A snapshot goes out as one datagram to every connected client with a known UDP
  address: the eight header bytes, the client's own acknowledgement, and the rest of the body. No
  client receives another client's acknowledgement.
\<close>

lemma snapshot_datagram_per_client:
  assumes "reg_reachable reg" "0 \<le> udp_fd" "4 \<le> length body" "length body \<le> 592"
  shows "send_udp_snapshots reg udp_fd body acks tick ty =
    map (\<lambda>i. (ce_udp_addr (reg ! i),
              wire_udp_header \<lparr>uh_magic = kMagic, uh_version = kProtocolVersion, uh_type = ty, uh_tick = tick\<rparr>
              @ be32 (acks ! i) @ drop 4 body))
      (filter (\<lambda>i. 0 \<le> ce_tcp_fd (reg ! i) \<and> ce_has_udp_addr (reg ! i)) [0..<length reg])"
  using send_loop_result [OF reg_reachable_inv [OF assms(1)], of "live_slots reg" body "snapshot_header tick ty" acks "[]"] assms
  by (simp add: send_udp_snapshots_def Let_def live_slots_props(1) header_image [symmetric] kUdpHeaderBytes_def
      kDatagramBytes_def)
    (simp add: live_slots_def conj_commute)

end
