(* ===== verification/Lobby.thy ===== *)
theory Lobby
  imports Game_Types "HOL-Library.Multiset"
begin

text \<open>
  \<open>server/lobby.h\<close> and \<open>server/lobby.cpp\<close>: the roster before a match, the host, and the team
  assignment. The random shuffle of the C++ library is the parameter \<open>shuffle\<close>; what is known of it
  is that it permutes its argument.
\<close>

section \<open>State and operations\<close>

datatype join_result = JoinOk | JoinFull | JoinInProgress

record lobby =
  lb_player_ids :: "u8 list"
  lb_host_id :: u8
  lb_in_progress :: bool

definition Lobby :: lobby where
  "Lobby = \<lparr>lb_player_ids = [], lb_host_id = 0, lb_in_progress = False\<rparr>"

definition add_player :: "u8 \<Rightarrow> lobby \<Rightarrow> join_result \<times> lobby" where
  "add_player pid l =
     (if lb_in_progress l then (JoinInProgress, l)
      else if length (lb_player_ids l) \<ge> kMaxPlayers \<or> pid \<in> set (lb_player_ids l) then (JoinFull, l)
      else
        let l = l\<lparr>lb_player_ids := lb_player_ids l @ [pid]\<rparr>;
            l = (if length (lb_player_ids l) = 1 then l\<lparr>lb_host_id := pid\<rparr> else l)
        in (JoinOk, l))"

text \<open>\<open>*std::min_element\<close> of a non-empty vector.\<close>

definition min_element :: "u8 list \<Rightarrow> u8" where
  "min_element ids = foldl min (hd ids) (tl ids)"

definition promote_host :: "lobby \<Rightarrow> lobby" where
  "promote_host l =
     (if lb_player_ids l = [] then l\<lparr>lb_host_id := 0\<rparr> else l\<lparr>lb_host_id := min_element (lb_player_ids l)\<rparr>)"

definition remove_player :: "u8 \<Rightarrow> lobby \<Rightarrow> lobby" where
  "remove_player pid l =
     (if pid \<notin> set (lb_player_ids l) then l
      else
        let was_host = (pid = lb_host_id l);
            l = l\<lparr>lb_player_ids := remove1 pid (lb_player_ids l)\<rparr>
        in if was_host \<and> lb_player_ids l \<noteq> [] \<and> \<not> lb_in_progress l then promote_host l
           else if was_host \<and> lb_in_progress l then
             l\<lparr>lb_host_id := (if lb_player_ids l = [] then 0 else min_element (lb_player_ids l))\<rparr>
           else l)"

definition can_issue_start :: "u8 \<Rightarrow> lobby \<Rightarrow> bool" where
  "can_issue_start pid l \<longleftrightarrow> \<not> lb_in_progress l \<and> pid = lb_host_id l"

definition begin_match :: "lobby \<Rightarrow> bool \<times> lobby" where
  "begin_match l =
     (if lb_in_progress l \<or> length (lb_player_ids l) < 2 then (False, l)
      else (True, l\<lparr>lb_in_progress := True\<rparr>))"

definition end_match :: "lobby \<Rightarrow> lobby" where
  "end_match l = l\<lparr>lb_in_progress := False\<rparr>"

definition deal_one :: "u8 list \<Rightarrow> nat \<Rightarrow> u8 list \<times> u8 list \<Rightarrow> u8 list \<times> u8 list" where
  "deal_one shuffled i = (\<lambda>(red, blue).
     if i mod 2 = 0 then (red @ [shuffled ! i], blue) else (red, blue @ [shuffled ! i]))"

definition assign_teams :: "(u8 list \<Rightarrow> u8 list) \<Rightarrow> lobby \<Rightarrow> u8 list \<times> u8 list" where
  "assign_teams shuffle l =
     (let shuffled = shuffle (lb_player_ids l)
      in fold (deal_one shuffled) [0..<length shuffled] ([], []))"

section \<open>Invariant\<close>

definition lobby_inv :: "lobby \<Rightarrow> bool" where
  "lobby_inv l \<longleftrightarrow> distinct (lb_player_ids l) \<and> length (lb_player_ids l) \<le> kMaxPlayers
     \<and> (lb_player_ids l \<noteq> [] \<longrightarrow> lb_host_id l \<in> set (lb_player_ids l))"

lemma foldl_min: "foldl min x xs \<in> insert x (set xs) \<and> (\<forall>y \<in> insert x (set xs). foldl min x xs \<le> y)"
  for x :: "'a :: linorder"
proof (induction xs arbitrary: x)
  case Nil
  then show ?case by simp
next
  case (Cons a xs)
  from Cons [of "min x a"] show ?case by (auto simp: min_def split: if_splits)
qed

lemma min_element_spec:
  assumes "ids \<noteq> []"
  shows "min_element ids \<in> set ids" "\<forall>pid \<in> set ids. min_element ids \<le> pid"
  using foldl_min [of "hd ids" "tl ids"] assms by (cases ids; simp add: min_element_def)+

lemma lobby_inv_start: "lobby_inv Lobby"
  by (simp add: lobby_inv_def Lobby_def)

lemma lobby_inv_add: "lobby_inv l \<Longrightarrow> lobby_inv (snd (add_player pid l))"
  by (auto simp: lobby_inv_def add_player_def Let_def)

lemma lobby_inv_remove: "lobby_inv l \<Longrightarrow> lobby_inv (remove_player pid l)"
proof -
  assume inv: "lobby_inv l"
  let ?ids = "remove1 pid (lb_player_ids l)"
  have "length ?ids \<le> kMaxPlayers" using inv by (auto simp: lobby_inv_def length_remove1)
  moreover have "distinct ?ids" using inv by (simp add: lobby_inv_def)
  moreover have "lb_host_id l \<in> set ?ids" if "?ids \<noteq> []" "pid \<noteq> lb_host_id l"
    using inv that by (cases "lb_player_ids l = []") (auto simp: lobby_inv_def in_set_remove1)
  ultimately show ?thesis
    using inv min_element_spec(1) [of ?ids]
    by (auto simp: remove_player_def promote_host_def Let_def lobby_inv_def)
qed

lemma lobby_inv_match: "lobby_inv l \<Longrightarrow> lobby_inv (snd (begin_match l))" "lobby_inv l \<Longrightarrow> lobby_inv (end_match l)"
  by (simp_all add: lobby_inv_def begin_match_def end_match_def)

inductive lobby_reachable :: "lobby \<Rightarrow> bool" where
  start: "lobby_reachable Lobby"
| added: "lobby_reachable l \<Longrightarrow> lobby_reachable (snd (add_player pid l))"
| removed: "lobby_reachable l \<Longrightarrow> lobby_reachable (remove_player pid l)"
| begun: "lobby_reachable l \<Longrightarrow> lobby_reachable (snd (begin_match l))"
| ended: "lobby_reachable l \<Longrightarrow> lobby_reachable (end_match l)"

lemma lobby_reachable_inv: "lobby_reachable l \<Longrightarrow> lobby_inv l"
  by (induction rule: lobby_reachable.induct)
    (simp_all add: lobby_inv_start lobby_inv_add lobby_inv_remove lobby_inv_match)

section \<open>Dealing\<close>

lemma deal_prefix:
  "n \<le> length xs \<Longrightarrow> case fold (deal_one xs) [0..<n] ([], []) of (red, blue) \<Rightarrow>
     mset red + mset blue = mset (take n xs) \<and> length red = (n + 1) div 2 \<and> length blue = n div 2"
proof (induction n)
  case 0
  then show ?case by simp
next
  case (Suc n)
  obtain red blue where rb: "fold (deal_one xs) [0..<n] ([], []) = (red, blue)" by fastforce
  then have ih: "mset red + mset blue = mset (take n xs)" "length red = (n + 1) div 2" "length blue = n div 2"
    using Suc by simp_all
  have "take (Suc n) xs = take n xs @ [xs ! n]" using Suc.prems by (simp add: take_Suc_conv_app_nth)
  moreover have "fold (deal_one xs) [0..<Suc n] ([], []) =
      (if even n then (red @ [xs ! n], blue) else (red, blue @ [xs ! n]))"
    using rb by (simp add: deal_one_def even_iff_mod_2_eq_zero)
  moreover have "even n \<Longrightarrow> (n + 1) div 2 = n div 2" "odd n \<Longrightarrow> (n + 1) div 2 = Suc (n div 2)" by simp_all
  ultimately show ?case using ih by (cases "even n") simp_all
qed

section \<open>Properties\<close>

text \<open>
  In every state the lobby can reach the roster has at most ten distinct players and,
  unless it is empty, the host is one of them; so exactly one connected player may start a match
  while none is running.
\<close>

lemma lobby_always_has_a_host:
  assumes "lobby_reachable l" "lb_player_ids l \<noteq> []"
  shows "distinct (lb_player_ids l) \<and> length (lb_player_ids l) \<le> kMaxPlayers
    \<and> lb_host_id l \<in> set (lb_player_ids l)
    \<and> (\<not> lb_in_progress l \<longrightarrow> (\<exists>!pid. pid \<in> set (lb_player_ids l) \<and> can_issue_start pid l))"
  using lobby_reachable_inv [OF assms(1)] assms(2) by (auto simp: lobby_inv_def can_issue_start_def)

text \<open>
  For every shuffle that permutes the roster, team assignment deals every player
  to exactly one team and the sizes differ by at most one.
\<close>

lemma teams_balanced:
  assumes "mset (shuffle (lb_player_ids l)) = mset (lb_player_ids l)" "assign_teams shuffle l = (red, blue)"
  shows "mset red + mset blue = mset (lb_player_ids l)
    \<and> length blue \<le> length red \<and> length red \<le> length blue + 1"
proof -
  have len: "length (shuffle (lb_player_ids l)) = length (lb_player_ids l)"
    using assms(1) by (metis size_mset)
  from deal_prefix [OF order_refl, of "shuffle (lb_player_ids l)"] assms show ?thesis
    unfolding assign_teams_def Let_def by (auto simp: len)
qed

end
