(* ===== verification/Poller.thy ===== *)
theory Poller
  imports Ctf_Prelude
begin

text \<open>
  \<open>server/poller.h\<close> and \<open>server/poller_poll.cpp\<close>: the set of watched descriptors behind the event
  loop. The locale \<open>poller\<close> is the contract of \<open>IPoller\<close> as the network thread uses it, over the
  abstraction \<open>watched\<close>: which descriptors are watched, and for which of them writability counts.
  \<open>PollPoller\<close>, the default implementation, is its instance. What \<open>poll(2)\<close> reports for a
  descriptor is an argument of \<open>poll_wait\<close>.
\<close>

section \<open>Contract\<close>

record poll_result =
  pr_fd :: int
  pr_readable :: bool
  pr_writable :: bool

locale poller =
  fixes add :: "int \<Rightarrow> bool \<Rightarrow> 'p \<Rightarrow> 'p"
    and remove :: "int \<Rightarrow> 'p \<Rightarrow> 'p"
    and set_watch_write :: "int \<Rightarrow> bool \<Rightarrow> 'p \<Rightarrow> 'p"
    and watched :: "'p \<Rightarrow> int \<rightharpoonup> bool"
  assumes watched_add: "watched (add fd w p) = (watched p)(fd \<mapsto> w)"
    and watched_remove: "watched (remove fd p) = (watched p)(fd := None)"
    and watched_set: "watched (set_watch_write fd w p) = (if watched p fd = None then watched p else (watched p)(fd \<mapsto> w))"
begin

lemma dom_add: "dom (watched (add fd w p)) = insert fd (dom (watched p))"
  by (auto simp: watched_add)

lemma dom_remove: "dom (watched (remove fd p)) = dom (watched p) - {fd}"
  by (auto simp: watched_remove)

lemma dom_set: "dom (watched (set_watch_write fd w p)) = dom (watched p)"
  by (auto simp: watched_set split: if_splits)

lemma dom_set_all: "dom (watched (fold (\<lambda>x. set_watch_write (f x) (g x)) xs p)) = dom (watched p)"
  by (induction xs arbitrary: p) (simp_all add: dom_set)

end

section \<open>\<open>PollPoller\<close>\<close>

record pollfd =
  pf_fd :: int
  pf_events :: u16

definition POLLIN :: u16 where "POLLIN = 0x001"
definition POLLOUT :: u16 where "POLLOUT = 0x004"
definition POLLERR :: u16 where "POLLERR = 0x008"
definition POLLHUP :: u16 where "POLLHUP = 0x010"
definition POLLNVAL :: u16 where "POLLNVAL = 0x020"

type_synonym poll_poller = "pollfd list"

definition poll_remove :: "int \<Rightarrow> poll_poller \<Rightarrow> poll_poller" where
  "poll_remove fd fds = filter (\<lambda>p. pf_fd p \<noteq> fd) fds"

definition poll_add :: "int \<Rightarrow> bool \<Rightarrow> poll_poller \<Rightarrow> poll_poller" where
  "poll_add fd watch_write fds =
     poll_remove fd fds @ [\<lparr>pf_fd = fd, pf_events = POLLIN OR (if watch_write then POLLOUT else 0)\<rparr>]"

definition poll_set_watch_write :: "int \<Rightarrow> bool \<Rightarrow> poll_poller \<Rightarrow> poll_poller" where
  "poll_set_watch_write fd watch_write fds =
     map (\<lambda>p. if pf_fd p = fd
              then p\<lparr>pf_events := (if watch_write then pf_events p OR POLLOUT else pf_events p AND NOT POLLOUT)\<rparr>
              else p) fds"

text \<open>The loop of \<open>wait\<close> over the entries with what the kernel reported for each.\<close>

primrec poll_collect :: "(int \<Rightarrow> u16) \<Rightarrow> nat \<Rightarrow> poll_poller \<Rightarrow> poll_result list \<Rightarrow> poll_result list" where
  "poll_collect revents max_results [] out = out"
| "poll_collect revents max_results (p # fds) out =
     (let rev = revents (pf_fd p) in
      if rev AND (POLLIN OR POLLOUT OR POLLERR OR POLLHUP OR POLLNVAL) = 0 then poll_collect revents max_results fds out
      else
        let out = out @ [\<lparr>pr_fd = pf_fd p, pr_readable = (rev AND (POLLIN OR POLLERR OR POLLHUP OR POLLNVAL) \<noteq> 0),
                          pr_writable = (rev AND POLLOUT \<noteq> 0)\<rparr>]
        in if length out = max_results then out else poll_collect revents max_results fds out)"

definition poll_wait :: "int \<Rightarrow> (int \<Rightarrow> u16) \<Rightarrow> nat \<Rightarrow> poll_poller \<Rightarrow> poll_result list" where
  "poll_wait ready revents max_results fds = (if ready \<le> 0 then [] else poll_collect revents max_results fds [])"

definition poll_watched :: "poll_poller \<Rightarrow> int \<rightharpoonup> bool" where
  "poll_watched fds fd = map_option (\<lambda>p. pf_events p AND POLLOUT \<noteq> 0) (List.find (\<lambda>p. pf_fd p = fd) fds)"

section \<open>\<open>EpollPoller\<close>\<close>

text \<open>
  \<open>server/poller_epoll.cpp\<close>. The kernel's interest list of the epoll instance is part of the state;
  \<open>epoll_ctl\<close> is modelled on open descriptors, where it fails only with \<open>EEXIST\<close> and \<open>ENOENT\<close>.
\<close>

definition EPOLLIN :: u32 where "EPOLLIN = 0x001"
definition EPOLLOUT :: u32 where "EPOLLOUT = 0x004"
definition EPOLLERR :: u32 where "EPOLLERR = 0x008"
definition EPOLLHUP :: u32 where "EPOLLHUP = 0x010"

record epoll_poller =
  ep_interest :: "int \<rightharpoonup> u32"
  ep_fds :: "int list"

definition epoll_remove :: "int \<Rightarrow> epoll_poller \<Rightarrow> epoll_poller" where
  "epoll_remove fd p = p\<lparr>ep_interest := (ep_interest p)(fd := None), ep_fds := filter (\<lambda>f. f \<noteq> fd) (ep_fds p)\<rparr>"

definition epoll_add :: "int \<Rightarrow> bool \<Rightarrow> epoll_poller \<Rightarrow> epoll_poller" where
  "epoll_add fd watch_write p =
     (let p = epoll_remove fd p;
          events = EPOLLIN OR (if watch_write then EPOLLOUT else 0)
      in if ep_interest p fd = None then p\<lparr>ep_interest := (ep_interest p)(fd \<mapsto> events), ep_fds := ep_fds p @ [fd]\<rparr> else p)"

definition epoll_set_watch_write :: "int \<Rightarrow> bool \<Rightarrow> epoll_poller \<Rightarrow> epoll_poller" where
  "epoll_set_watch_write fd watch_write p =
     (let events = EPOLLIN OR (if watch_write then EPOLLOUT else 0)
      in if ep_interest p fd = None then p else p\<lparr>ep_interest := (ep_interest p)(fd \<mapsto> events)\<rparr>)"

primrec epoll_collect :: "nat \<Rightarrow> (int \<times> u32) list \<Rightarrow> poll_result list \<Rightarrow> poll_result list" where
  "epoll_collect max_results [] out = out"
| "epoll_collect max_results (e # es) out =
     (let out = out @ [\<lparr>pr_fd = fst e, pr_readable = (snd e AND (EPOLLIN OR EPOLLERR OR EPOLLHUP) \<noteq> 0),
                        pr_writable = (snd e AND EPOLLOUT \<noteq> 0)\<rparr>]
      in if length out = max_results then out else epoll_collect max_results es out)"

text \<open>\<open>ready\<close> is the answer of \<open>epoll_wait\<close> for a given bound on the number of events; none on an error.\<close>

definition epoll_poll_wait :: "(nat \<Rightarrow> (int \<times> u32) list) \<Rightarrow> nat \<Rightarrow> epoll_poller \<Rightarrow> poll_result list" where
  "epoll_poll_wait ready max_results p =
     (if ep_fds p = [] then [] else epoll_collect max_results (ready (if 32 < max_results then 32 else max_results)) [])"

definition epoll_watched :: "epoll_poller \<Rightarrow> int \<rightharpoonup> bool" where
  "epoll_watched p fd = map_option (\<lambda>ev. ev AND EPOLLOUT \<noteq> 0) (ep_interest p fd)"

section \<open>Proofs\<close>

lemma poll_watched_rec:
  "poll_watched [] k = None"
  "poll_watched (p # fds) k = (if pf_fd p = k then Some (pf_events p AND POLLOUT \<noteq> 0) else poll_watched fds k)"
  by (simp_all add: poll_watched_def)

lemma poll_watched_append:
  "poll_watched (fds @ fds') k = (case poll_watched fds k of None \<Rightarrow> poll_watched fds' k | Some w \<Rightarrow> Some w)"
  by (induction fds) (simp_all add: poll_watched_rec)

lemma poll_watched_remove: "poll_watched (poll_remove fd fds) k = (if k = fd then None else poll_watched fds k)"
  unfolding poll_remove_def by (induction fds) (auto simp: poll_watched_rec)

lemma poll_out_bit: "POLLOUT \<noteq> 0" "POLLIN AND POLLOUT = 0" "(ev AND NOT POLLOUT) AND POLLOUT = 0"
  by (simp_all add: POLLIN_def POLLOUT_def and.assoc)

lemma poll_watched_set:
  "poll_watched (poll_set_watch_write fd w fds) k =
     (if k = fd \<and> poll_watched fds fd \<noteq> None then Some w else poll_watched fds k)"
  unfolding poll_set_watch_write_def by (induction fds) (auto simp: poll_watched_rec poll_out_bit)

interpretation pollp: poller poll_add poll_remove poll_set_watch_write poll_watched
  by unfold_locales
    (auto simp: fun_eq_iff poll_watched_remove poll_watched_set poll_add_def poll_watched_append poll_watched_rec poll_out_bit(1,2)
      split: option.splits)

lemma epoll_out_bit: "EPOLLOUT \<noteq> 0" "EPOLLIN AND EPOLLOUT = 0"
  by (simp_all add: EPOLLIN_def EPOLLOUT_def)

interpretation epollp: poller epoll_add epoll_remove epoll_set_watch_write epoll_watched
  by unfold_locales
    (auto simp: fun_eq_iff epoll_watched_def epoll_add_def epoll_remove_def epoll_set_watch_write_def Let_def
      bit.conj_disj_distrib2 epoll_out_bit)

text \<open>
  \<open>wait\<close> reports watched descriptors only, each once, at most \<open>max_results\<close> of them; a hang-up or
  an error makes its descriptor readable, so that the receive path meets it.
\<close>

lemma poll_collect_props:
  assumes "distinct (map pf_fd fds)" "set (map pr_fd out) \<inter> set (map pf_fd fds) = {}" "distinct (map pr_fd out)"
    and "length out < max_results"
  shows "let res = poll_collect revents max_results fds out in
    distinct (map pr_fd res) \<and> length res \<le> max_results \<and> set (map pr_fd res) \<subseteq> set (map pr_fd out) \<union> set (map pf_fd fds)
    \<and> (\<forall>r \<in> set res - set out. pr_readable r \<longleftrightarrow> revents (pr_fd r) AND (POLLIN OR POLLERR OR POLLHUP OR POLLNVAL) \<noteq> 0)"
  using assms
proof (induction fds arbitrary: out)
  case Nil
  then show ?case by simp
next
  case (Cons p fds)
  let ?r = "\<lparr>pr_fd = pf_fd p, pr_readable = (revents (pf_fd p) AND (POLLIN OR POLLERR OR POLLHUP OR POLLNVAL) \<noteq> 0),
      pr_writable = (revents (pf_fd p) AND POLLOUT \<noteq> 0)\<rparr>"
  show ?case
  proof (cases "revents (pf_fd p) AND (POLLIN OR POLLOUT OR POLLERR OR POLLHUP OR POLLNVAL) = 0")
    case True
    then show ?thesis using Cons.IH [of out] Cons.prems by (auto simp: Let_def)
  next
    case False
    show ?thesis
    proof (cases "length (out @ [?r]) = max_results")
      case True
      then show ?thesis using False Cons.prems by (auto simp: Let_def)
    next
      case go: False
      have "distinct (map pr_fd (out @ [?r]))" "set (map pr_fd (out @ [?r])) \<inter> set (map pf_fd fds) = {}"
        "length (out @ [?r]) < max_results"
        using Cons.prems go by auto
      then show ?thesis using Cons.IH [of "out @ [?r]"] Cons.prems False go by (auto simp: Let_def)
    qed
  qed
qed

end
