(* ===== verification/Net_Server.thy ===== *)
theory Net_Server
  imports Broadcast Lobby Queues Poller Net_Util Game_Map
begin

text \<open>
  \<open>server/net_server.h\<close> and \<open>server/net_server.cpp\<close>: the network thread. It accepts connections,
  reassembles frames, runs the lobby, authenticates datagrams, turns them into commands for the
  simulation, and fans out what the simulation publishes.

  System calls and other sources of non-determinism are arguments: the outcomes of \<open>recv\<close>,
  \<open>recvfrom\<close> and \<open>send\<close>, the accepted descriptors, the clock, \<open>rand()\<close> and the shuffle. What the
  server hands to \<open>send_all\<close> and \<open>sendto\<close>, and what \<open>send\<close> takes in \<open>flush_pending\<close>, is appended to
  the lists \<open>ns_tcp_sent\<close>, \<open>ns_udp_sent\<close> and \<open>ns_tcp_flushed\<close>.
\<close>

section \<open>State\<close>

record net_server =
  ns_inbound :: inbound_queue
  ns_outbound :: outbound_queue
  ns_poller :: poll_poller
  ns_registry :: client_registry
  ns_lobby :: lobby
  ns_tcp_listen_fd :: int
  ns_udp_fd :: int
  ns_event_fd :: int
  ns_local_port :: u16
  ns_udp_port :: u16
  ns_udp_silence_ms :: int
  ns_tcp_in :: "u8 list list"
  ns_pre_join :: "int \<rightharpoonup> u8 list"
  ns_last_silence_check_ms :: u32
  ns_udp_snapshots_sent :: "64 word"
  ns_udp_delta_snapshots_sent :: "64 word"
  ns_tcp_events_fanned_out :: "64 word"
  ns_token_counter :: u32
  ns_tcp_sent :: "(int \<times> u8 list) list"
  ns_tcp_flushed :: "(int \<times> u8 list) list"
  ns_udp_sent :: "(udp_addr \<times> u8 list) list"

definition NetServer :: "inbound_queue \<Rightarrow> outbound_queue \<Rightarrow> int \<Rightarrow> net_server" where
  "NetServer inbound outbound udp_silence_ms =
     \<lparr>ns_inbound = inbound, ns_outbound = outbound, ns_poller = [], ns_registry = ClientRegistry, ns_lobby = Lobby,
      ns_tcp_listen_fd = -1, ns_udp_fd = -1, ns_event_fd = -1, ns_local_port = 0, ns_udp_port = 0,
      ns_udp_silence_ms = udp_silence_ms, ns_tcp_in = replicate kMaxPlayers [], ns_pre_join = Map.empty,
      ns_last_silence_check_ms = 0, ns_udp_snapshots_sent = 0, ns_udp_delta_snapshots_sent = 0,
      ns_tcp_events_fanned_out = 0, ns_token_counter = 0, ns_tcp_sent = [], ns_tcp_flushed = [], ns_udp_sent = []\<rparr>"

text \<open>What the system calls of \<open>start\<close> answer, up to the first that fails.\<close>

datatype start_env =
    ListenSocketFailed
  | ListenBindFailed int
  | ListenFailed int
  | StartUdpSocketFailed int u16
  | StartUdpBindFailed int u16 int
  | EventFdFailed int u16 int u16
  | Started int u16 int u16 int u32

fun server_start :: "start_env \<Rightarrow> net_server \<Rightarrow> bool \<times> net_server" where
  "server_start ListenSocketFailed ns = (False, ns)"
| "server_start (ListenBindFailed l) ns = (False, ns\<lparr>ns_tcp_listen_fd := l\<rparr>)"
| "server_start (ListenFailed l) ns = (False, ns\<lparr>ns_tcp_listen_fd := l\<rparr>)"
| "server_start (StartUdpSocketFailed l lp) ns = (False, ns\<lparr>ns_tcp_listen_fd := l, ns_local_port := lp\<rparr>)"
| "server_start (StartUdpBindFailed l lp u) ns = (False, ns\<lparr>ns_tcp_listen_fd := l, ns_local_port := lp, ns_udp_fd := u\<rparr>)"
| "server_start (EventFdFailed l lp u up) ns =
     (False, ns\<lparr>ns_tcp_listen_fd := l, ns_local_port := lp, ns_udp_fd := u, ns_udp_port := up\<rparr>)"
| "server_start (Started l lp u up e now) ns =
     (True, ns\<lparr>ns_tcp_listen_fd := l, ns_local_port := lp, ns_udp_fd := u, ns_udp_port := up, ns_event_fd := e,
        ns_poller := poll_add e False (poll_add u False (poll_add l False (ns_poller ns))),
        ns_last_silence_check_ms := now\<rparr>)"

section \<open>Frames and broadcasts\<close>

definition kAccumCap :: nat where "kAccumCap = kTcpFrameCapBytes"

definition frame_event_payload :: "u8 list \<Rightarrow> u8 list" where
  "frame_event_payload payload =
     (let n = word_of_nat (if payload = [] then 0 else length payload - 1) :: u16
      in ucast (drop_bit 8 n) # ucast (n AND 0xFF) # payload)"

definition make_token :: "u32 \<times> u32 \<Rightarrow> net_server \<Rightarrow> u32 \<times> net_server" where
  "make_token = (\<lambda>(r1, r2) ns.
     let counter = ns_token_counter ns + 1;
         r = push_bit 16 r1 XOR r2 XOR (counter * 2654435761)
     in (r OR 1, ns\<lparr>ns_token_counter := counter\<rparr>))"

definition upd_entry :: "nat \<Rightarrow> (client_entry \<Rightarrow> client_entry) \<Rightarrow> net_server \<Rightarrow> net_server" where
  "upd_entry i f ns = ns\<lparr>ns_registry := (ns_registry ns)[i := f (ns_registry ns ! i)]\<rparr>"

definition accept_new_clients :: "int list \<Rightarrow> net_server \<Rightarrow> net_server" where
  "accept_new_clients fds ns = ns\<lparr>ns_poller := fold (\<lambda>fd. poll_add fd False) fds (ns_poller ns)\<rparr>"

definition send_frame_generic :: "int \<Rightarrow> message_type \<Rightarrow> (byte_writer, unit) state \<Rightarrow> net_server \<Rightarrow> net_server" where
  "send_frame_generic fd ty enc ns =
     (let payload = sent_bytes 512 enc;
          frame = word_of_nat (length payload div 256) # word_of_nat (length payload mod 256) # message_type_byte ty # payload
      in ns\<lparr>ns_tcp_sent := ns_tcp_sent ns @ [(fd, frame)]\<rparr>)"

primrec fill_lobby :: "client_entry list \<Rightarrow> msg_lobby_state \<Rightarrow> msg_lobby_state" where
  "fill_lobby [] st = st"
| "fill_lobby (e # es) st =
     (if ce_tcp_fd e < 0 then fill_lobby es st
      else if unat (ls_player_count st) \<ge> kMaxPlayers then st
      else
        let n = unat (ls_player_count st)
        in fill_lobby es (st\<lparr>ls_ids := (ls_ids st)[n := ce_player_id e],
             ls_names := (ls_names st)[n := snprintf_name (ce_name e)], ls_player_count := ls_player_count st + 1\<rparr>))"

definition lobby_message :: "net_server \<Rightarrow> msg_lobby_state" where
  "lobby_message ns = (fill_lobby (ns_registry ns) default_lobby_state)\<lparr>ls_host_id := lb_host_id (ns_lobby ns)\<rparr>"

definition broadcast_lobby_state :: "net_server \<Rightarrow> net_server" where
  "broadcast_lobby_state ns =
     (let payload = message_type_byte LobbyState # sent_bytes 600 (encode_lobby_state (lobby_message ns))
      in ns\<lparr>ns_registry := snd (broadcast_tcp_event (frame_event_payload payload) (ns_registry ns))\<rparr>)"

section \<open>Leaving\<close>

definition server_disconnect :: "nat \<Rightarrow> bool \<Rightarrow> net_server \<Rightarrow> net_server" where
  "server_disconnect i notify_sim ns =
     (let fd = ce_tcp_fd (ns_registry ns ! i);
          ns = ns\<lparr>ns_poller := poll_remove fd (ns_poller ns), ns_pre_join := (ns_pre_join ns)(fd := None)\<rparr>;
          ns = upd_entry i (\<lambda>e. e\<lparr>ce_tcp_fd := -1\<rparr>) ns;
          pid = ce_player_id (ns_registry ns ! i);
          was_in_progress = lb_in_progress (ns_lobby ns);
          ns = ns\<lparr>ns_registry := registry_remove pid (ns_registry ns), ns_lobby := remove_player pid (ns_lobby ns),
                  ns_tcp_in := (ns_tcp_in ns)[unat pid := []]\<rparr>;
          ns = (if notify_sim \<and> was_in_progress
                then ns\<lparr>ns_inbound := inbound_push
                       (default_inbound_command\<lparr>ic_type := CmdPlayerLeft, ic_player_id := pid\<rparr>) (ns_inbound ns)\<rparr>
                else ns)
      in broadcast_lobby_state ns)"

definition close_unregistered :: "int \<Rightarrow> net_server \<Rightarrow> net_server" where
  "close_unregistered fd ns =
     ns\<lparr>ns_poller := poll_remove fd (ns_poller ns), ns_pre_join := (ns_pre_join ns)(fd := None)\<rparr>"

definition drop_connection :: "int \<Rightarrow> net_server \<Rightarrow> net_server" where
  "drop_connection fd ns =
     (case find_by_fd (ns_registry ns) fd of
        Some i \<Rightarrow> server_disconnect i True ns
      | None \<Rightarrow> close_unregistered fd ns)"

section \<open>Lobby and handshake\<close>

text \<open>
  What a handler of incoming frames depends on besides the state: the clock, two results of
  \<open>rand()\<close>, the shuffle, and the memory behind the 16 name bytes. The code builds a string from the
  name field as from a terminated one, so a name without a zero byte is read on into that memory.
\<close>

record read_env =
  re_now :: u32
  re_rand :: "u32 \<times> u32"
  re_shuffle :: "u8 list \<Rightarrow> u8 list"
  re_beyond :: "u8 list"

definition c_string :: "u8 list \<Rightarrow> u8 list \<Rightarrow> u8 list" where
  "c_string field beyond = takeWhile (\<lambda>b. b \<noteq> 0) (field @ beyond)"

definition on_join_lobby :: "read_env \<Rightarrow> int \<Rightarrow> msg_join_lobby \<Rightarrow> net_server \<Rightarrow> net_server" where
  "on_join_lobby env fd msg ns =
     (if find_by_fd (ns_registry ns) fd \<noteq> None then ns
      else
        let (entry, reg) = registry_add fd (c_string (jl_name msg) (re_beyond env)) (ns_registry ns);
            (lobby_result, lob) = (case entry of
                Some i \<Rightarrow> add_player (ce_player_id (reg ! i)) (ns_lobby ns)
              | None \<Rightarrow> (JoinFull, ns_lobby ns));
            ns = ns\<lparr>ns_registry := reg, ns_lobby := lob\<rparr>
        in case entry of
             Some i \<Rightarrow>
               if lobby_result \<noteq> JoinOk then
                 send_frame_generic fd JoinReject
                   (encode_join_reject \<lparr>jr_reason = (if lobby_result = JoinInProgress then RejectInProgress else RejectFull)\<rparr>)
                   (ns\<lparr>ns_registry := registry_remove (ce_player_id (reg ! i)) reg\<rparr>)
               else
                 let (token, ns) = make_token (re_rand env) ns;
                     ns = upd_entry i (\<lambda>e. e\<lparr>ce_session_token := token, ce_last_input_tick := re_now env\<rparr>) ns;
                     ns = send_frame_generic fd JoinAccept
                       (encode_join_accept \<lparr>ja_player_id = ce_player_id (ns_registry ns ! i),
                          ja_session_token = ce_session_token (ns_registry ns ! i), ja_udp_port = ns_udp_port ns\<rparr>) ns
                 in broadcast_lobby_state ns
           | None \<Rightarrow> send_frame_generic fd JoinReject (encode_join_reject \<lparr>jr_reason = RejectFull\<rparr>) ns)"

text \<open>The lambda \<open>add_side\<close>: one team's players into the start message and the command queue.\<close>

primrec add_side :: "team \<Rightarrow> u8 list \<Rightarrow> nat \<Rightarrow> msg_game_start \<times> inbound_queue \<Rightarrow> msg_game_start \<times> inbound_queue" where
  "add_side team [] k s = s"
| "add_side team (pid # ids) k s =
     (case s of (gs, q) \<Rightarrow>
        if unat (gs_player_count gs) \<ge> kMaxPlayers then (gs, q)
        else
          let n = unat (gs_player_count gs);
              spawns = (if team = Blue then kBlueSpawnPoints else kRedSpawnPoints);
              idx = word_of_nat k :: u8;
              gs = gs\<lparr>gs_ids := (gs_ids gs)[n := pid], gs_teams := (gs_teams gs)[n := team],
                      gs_spawn_points := (gs_spawn_points gs)[n := spawns ! unat idx]\<rparr>;
              q = inbound_push (default_inbound_command\<lparr>ic_type := CmdPlayerJoined, ic_player_id := pid,
                     ic_team := team, ic_spawn_index := idx\<rparr>) q
          in add_side team ids (k + 1) (gs\<lparr>gs_player_count := gs_player_count gs + 1\<rparr>, q))"

definition begin_match_and_notify :: "(u8 list \<Rightarrow> u8 list) \<Rightarrow> net_server \<Rightarrow> net_server" where
  "begin_match_and_notify shuffle ns =
     (let (begun, lob) = begin_match (ns_lobby ns) in
      if \<not> begun then ns
      else
        let ns = ns\<lparr>ns_lobby := lob\<rparr>;
            (red, blue) = assign_teams shuffle (ns_lobby ns);
            (gs, q) = add_side Blue blue 0 (add_side Red red 0 (default_game_start\<lparr>gs_start_tick := 0\<rparr>, ns_inbound ns));
            payload = message_type_byte GameStart # sent_bytes 1200 (encode_game_start gs)
        in ns\<lparr>ns_inbound := q,
              ns_registry := snd (broadcast_tcp_event (frame_event_payload payload) (ns_registry ns))\<rparr>)"

definition on_start_request :: "read_env \<Rightarrow> int \<Rightarrow> net_server \<Rightarrow> net_server" where
  "on_start_request env fd ns =
     (case find_by_fd (ns_registry ns) fd of
        None \<Rightarrow> ns
      | Some i \<Rightarrow>
          if \<not> can_issue_start (ce_player_id (ns_registry ns ! i)) (ns_lobby ns)
          then send_frame_generic fd JoinReject (encode_join_reject \<lparr>jr_reason = RejectInProgress\<rparr>) ns
          else begin_match_and_notify (re_shuffle env) ns)"

section \<open>Reading a connection\<close>

text \<open>The reference \<open>accum\<close> into one of the two tables of accumulation buffers.\<close>

datatype accum_ref = TcpIn nat | PreJoin int

definition accum_for :: "int \<Rightarrow> net_server \<Rightarrow> accum_ref \<times> net_server" where
  "accum_for fd ns =
     (case find_by_fd (ns_registry ns) fd of
        Some i \<Rightarrow> (TcpIn (unat (ce_player_id (ns_registry ns ! i))), ns)
      | None \<Rightarrow> (PreJoin fd, if ns_pre_join ns fd = None then ns\<lparr>ns_pre_join := (ns_pre_join ns)(fd \<mapsto> [])\<rparr> else ns))"

definition get_accum :: "accum_ref \<Rightarrow> net_server \<Rightarrow> u8 list" where
  "get_accum ref ns = (case ref of
     TcpIn i \<Rightarrow> ns_tcp_in ns ! i
   | PreJoin fd \<Rightarrow> (case ns_pre_join ns fd of None \<Rightarrow> [] | Some bs \<Rightarrow> bs))"

definition set_accum :: "accum_ref \<Rightarrow> u8 list \<Rightarrow> net_server \<Rightarrow> net_server" where
  "set_accum ref bs ns = (case ref of
     TcpIn i \<Rightarrow> ns\<lparr>ns_tcp_in := (ns_tcp_in ns)[i := bs]\<rparr>
   | PreJoin fd \<Rightarrow> ns\<lparr>ns_pre_join := (ns_pre_join ns)(fd \<mapsto> bs)\<rparr>)"

definition kChunkBytes :: nat where "kChunkBytes = 2048"

text \<open>The receive loop: false means that the connection is to be dropped.\<close>

primrec recv_chunks :: "recv_outcome list \<Rightarrow> u8 list \<Rightarrow> bool \<times> u8 list" where
  "recv_chunks [] accum = (True, accum)"
| "recv_chunks (r # rs) accum =
     (case r of
        RecvClosed \<Rightarrow> (False, accum)
      | RecvAgain \<Rightarrow> (True, accum)
      | RecvInterrupted \<Rightarrow> (False, accum)
      | RecvFailed \<Rightarrow> (False, accum)
      | RecvBytes chunk \<Rightarrow>
          let accum = accum @ chunk in
          if length accum > kAccumCap then (False, accum)
          else if length chunk < kChunkBytes then (True, accum)
          else recv_chunks rs accum)"

definition serve_frame :: "read_env \<Rightarrow> int \<Rightarrow> u8 \<Rightarrow> u8 list \<Rightarrow> net_server \<Rightarrow> net_server" where
  "serve_frame env fd ty payload ns =
     (if ty = message_type_byte JoinLobby then
        (case received decode_join_lobby payload of None \<Rightarrow> ns | Some m \<Rightarrow> on_join_lobby env fd m ns)
      else if ty = message_type_byte StartRequest then
        (case received decode_start_request payload of None \<Rightarrow> ns | Some m \<Rightarrow> on_start_request env fd ns)
      else ns)"

text \<open>The dispatch loop from position \<open>pos\<close> on: the final position and whether an oversize frame was met.\<close>

function serve_frames :: "read_env \<Rightarrow> int \<Rightarrow> u8 list \<Rightarrow> nat \<Rightarrow> net_server \<Rightarrow> nat \<times> bool \<times> net_server" where
  "serve_frames env fd accum pos ns =
     (if length accum - pos \<ge> kTcpFrameHeaderBytes then
        (case recv_framed (drop pos accum) of
           Incomplete \<Rightarrow> (pos, False, ns)
         | Oversize \<Rightarrow> (pos, True, ns)
         | Frame ty payload consumed \<Rightarrow>
             if length payload > kAccumCap then (pos, True, ns)
             else serve_frames env fd accum (pos + consumed) (serve_frame env fd ty payload ns))
      else (pos, False, ns))"
  by pat_completeness auto
termination
  by (relation "measure (\<lambda>(env, fd, accum, pos, ns). length accum - pos)")
    (auto dest!: recv_framed_measure)

declare serve_frames.simps [simp del]

definition handle_tcp_readable :: "read_env \<Rightarrow> int \<Rightarrow> recv_outcome list \<Rightarrow> net_server \<Rightarrow> net_server" where
  "handle_tcp_readable env fd rs ns =
     (let (accum, ns) = accum_for fd ns;
          (going, buf) = recv_chunks rs (get_accum accum ns);
          ns = set_accum accum buf ns
      in if \<not> going then drop_connection fd ns
         else
           let (pos, dead, ns) = serve_frames env fd buf 0 ns
           in if dead then drop_connection fd ns
              else if pos > 0 then set_accum accum (drop pos (get_accum accum ns)) ns
              else ns)"

text \<open>The loop of \<open>flush_pending\<close>; the list holds the answers of \<open>send\<close> and its end is \<open>EAGAIN\<close>.\<close>

primrec flush_loop :: "send_result list \<Rightarrow> nat \<Rightarrow> net_server \<Rightarrow> net_server" where
  "flush_loop [] i ns = ns"
| "flush_loop (r # rs) i ns =
     (let e = ns_registry ns ! i in
      if ce_pending_out e = [] then ns
      else case r of
        Sent n \<Rightarrow>
          if n > 0 then
            flush_loop rs i (upd_entry i (\<lambda>e. e\<lparr>ce_pending_out := drop n (ce_pending_out e)\<rparr>)
              (ns\<lparr>ns_tcp_flushed := ns_tcp_flushed ns @ [(ce_tcp_fd e, take n (ce_pending_out e))]\<rparr>))
          else server_disconnect i True ns
      | WouldBlock \<Rightarrow> ns
      | Interrupted \<Rightarrow> flush_loop rs i ns
      | SendError \<Rightarrow> server_disconnect i True ns)"

definition flush_pending :: "int \<Rightarrow> send_result list \<Rightarrow> net_server \<Rightarrow> net_server" where
  "flush_pending fd rs ns =
     (case find_by_fd (ns_registry ns) fd of None \<Rightarrow> ns | Some i \<Rightarrow> flush_loop rs i ns)"

section \<open>Datagrams\<close>

definition auth_udp_sender :: "udp_addr \<Rightarrow> u8 \<Rightarrow> u32 \<Rightarrow> client_registry \<Rightarrow> nat option" where
  "auth_udp_sender src pid token reg =
     (case find_by_id reg pid of
        None \<Rightarrow> None
      | Some i \<Rightarrow>
          if ce_session_token (reg ! i) \<noteq> token then None
          else if ce_has_udp_addr (reg ! i) \<and>
                  (snd (ce_udp_addr (reg ! i)) \<noteq> snd src \<or> fst (ce_udp_addr (reg ! i)) \<noteq> fst src) then None
          else Some i)"

definition on_udp_hello :: "u32 \<Rightarrow> udp_addr \<Rightarrow> msg_udp_hello \<Rightarrow> net_server \<Rightarrow> net_server" where
  "on_udp_hello now src msg ns =
     (case auth_udp_sender src (hello_player_id msg) (hello_session_token msg) (ns_registry ns) of
        None \<Rightarrow> ns
      | Some i \<Rightarrow> upd_entry i (\<lambda>e. e\<lparr>ce_udp_addr := src, ce_has_udp_addr := True, ce_last_input_tick := now\<rparr>) ns)"

text \<open>The command for the input at index \<open>i\<close> of a packet; sequence numbers wrap as \<open>uint32_t\<close>.\<close>

definition input_command :: "msg_player_input \<Rightarrow> u8 \<Rightarrow> nat \<Rightarrow> inbound_command" where
  "input_command msg cnt i =
     default_inbound_command\<lparr>ic_type := CmdPlayerInput, ic_player_id := pi_player_id msg,
       ic_seq := pi_base_seq msg - ucast cnt + 1 + word_of_nat i, ic_input := pi_inputs msg ! i\<rparr>"

definition on_player_input :: "u32 \<Rightarrow> udp_addr \<Rightarrow> msg_player_input \<Rightarrow> net_server \<Rightarrow> net_server" where
  "on_player_input now src msg ns =
     (case auth_udp_sender src (pi_player_id msg) (pi_session_token msg) (ns_registry ns) of
        None \<Rightarrow> ns
      | Some k \<Rightarrow>
          let ns = upd_entry k (\<lambda>e. e\<lparr>ce_last_input_tick := now\<rparr>) ns;
              cnt = (if unat (pi_count msg) < kInputRedundancy then pi_count msg else word_of_nat kInputRedundancy)
          in ns\<lparr>ns_inbound := fold (\<lambda>i. inbound_push (input_command msg cnt i)) [0..<unat cnt] (ns_inbound ns)\<rparr>)"

definition on_udp_packet :: "u32 \<Rightarrow> udp_addr \<Rightarrow> u8 list \<Rightarrow> net_server \<Rightarrow> net_server" where
  "on_udp_packet now src data ns =
     (case received decode_udp_header data of
        None \<Rightarrow> ns
      | Some hdr \<Rightarrow>
          let payload = drop kUdpHeaderBytes data in
          if uh_type hdr = message_type_byte UdpHello then
            (case received decode_udp_hello payload of None \<Rightarrow> ns | Some m \<Rightarrow> on_udp_hello now src m ns)
          else if uh_type hdr = message_type_byte PlayerInput then
            (case received decode_player_input payload of None \<Rightarrow> ns | Some m \<Rightarrow> on_player_input now src m ns)
          else ns)"

text \<open>Answers of \<open>recvfrom\<close>: a datagram with its sender and the time, \<open>EINTR\<close>, or the end of the loop.\<close>

datatype udp_recv = UdpData udp_addr "u8 list" u32 | UdpInterrupted | UdpStop

primrec handle_udp_readable :: "udp_recv list \<Rightarrow> net_server \<Rightarrow> net_server" where
  "handle_udp_readable [] ns = ns"
| "handle_udp_readable (r # rs) ns =
     (case r of
        UdpData src data now \<Rightarrow> if data = [] then ns else handle_udp_readable rs (on_udp_packet now src data ns)
      | UdpInterrupted \<Rightarrow> handle_udp_readable rs ns
      | UdpStop \<Rightarrow> ns)"

section \<open>What the simulation publishes\<close>

definition event_datagram :: "outbound_event \<Rightarrow> u8 list" where
  "event_datagram ev =
     (let body_len = (if unat (payload_size ev) > 1 then unat (payload_size ev) - 1 else 0)
      in [ucast (drop_bit 8 kMagic), ucast (kMagic AND 0xFF), kProtocolVersion,
          if payload_size ev = 0 then 0 else payload_data ev ! 0, 0, 0, 0, 0]
         @ (if body_len > 0 then take body_len (drop 1 (event_bytes ev)) else []))"

definition send_event_datagram :: "outbound_event \<Rightarrow> nat \<Rightarrow> net_server \<Rightarrow> net_server" where
  "send_event_datagram ev i ns =
     (let entry = ns_registry ns ! i in
      if \<not> ce_has_udp_addr entry then ns
      else case find_by_id (ns_registry ns) (ce_player_id entry) of
        None \<Rightarrow> ns
      | Some j \<Rightarrow> ns\<lparr>ns_udp_sent := ns_udp_sent ns @ [(ce_udp_addr (ns_registry ns ! j), event_datagram ev)]\<rparr>)"

definition send_outbound :: "outbound_event \<Rightarrow> net_server \<Rightarrow> net_server" where
  "send_outbound ev ns =
     (case oe_type ev of
        UdpSnapshot \<Rightarrow>
          ns\<lparr>ns_udp_sent := ns_udp_sent ns @ send_udp_snapshots (ns_registry ns) (ns_udp_fd ns) (event_bytes ev)
               (oe_acks ev) (oe_tick ev) (message_type_byte WorldSnapshot),
             ns_udp_snapshots_sent := ns_udp_snapshots_sent ns + 1\<rparr>
      | UdpDeltaSnapshot \<Rightarrow>
          ns\<lparr>ns_udp_sent := ns_udp_sent ns @ send_udp_snapshots (ns_registry ns) (ns_udp_fd ns) (event_bytes ev)
               (oe_acks ev) (oe_tick ev) (message_type_byte DeltaSnapshot),
             ns_udp_delta_snapshots_sent := ns_udp_delta_snapshots_sent ns + 1\<rparr>
      | TcpBroadcast \<Rightarrow>
          if payload_size ev \<noteq> 0 then
            ns\<lparr>ns_registry := snd (broadcast_tcp_event (frame_event_payload (event_bytes ev)) (ns_registry ns)),
               ns_tcp_events_fanned_out := ns_tcp_events_fanned_out ns + 1\<rparr>
          else ns
      | UdpEvent \<Rightarrow> fold (send_event_datagram ev) (live_slots (ns_registry ns)) ns)"

lemma send_event_datagram_frame:
  "ns_outbound (send_event_datagram ev i ns) = ns_outbound ns"
  "ns_inbound (send_event_datagram ev i ns) = ns_inbound ns"
  "ns_registry (send_event_datagram ev i ns) = ns_registry ns"
  "ns_lobby (send_event_datagram ev i ns) = ns_lobby ns"
  "ns_poller (send_event_datagram ev i ns) = ns_poller ns"
  "ns_tcp_in (send_event_datagram ev i ns) = ns_tcp_in ns"
  by (simp_all add: send_event_datagram_def Let_def split: option.splits)

lemma send_event_datagrams_frame:
  "ns_outbound (fold (send_event_datagram ev) is ns) = ns_outbound ns"
  "ns_inbound (fold (send_event_datagram ev) is ns) = ns_inbound ns"
  "ns_registry (fold (send_event_datagram ev) is ns) = ns_registry ns"
  "ns_lobby (fold (send_event_datagram ev) is ns) = ns_lobby ns"
  "ns_poller (fold (send_event_datagram ev) is ns) = ns_poller ns"
  "ns_tcp_in (fold (send_event_datagram ev) is ns) = ns_tcp_in ns"
  by (induction "is" arbitrary: ns) (simp_all add: send_event_datagram_frame)

lemma send_outbound_queue: "ns_outbound (send_outbound ev ns) = ns_outbound ns"
  by (simp add: send_outbound_def send_event_datagrams_frame split: outbound_event_type.split)

lemma outbound_pop_shorter: "outbound_pop q = Some (ev, q') \<Longrightarrow> length (out_items q') < length (out_items q)"
  using outq.pop_items [of q ev q'] by simp

function handle_wake :: "net_server \<Rightarrow> net_server" where
  "handle_wake ns =
     (case outbound_pop (ns_outbound ns) of
        None \<Rightarrow> ns
      | Some (ev, q) \<Rightarrow> handle_wake (send_outbound ev (ns\<lparr>ns_outbound := q\<rparr>)))"
  by pat_completeness auto
termination
  by (relation "measure (\<lambda>ns. length (out_items (ns_outbound ns)))")
    (auto simp: send_outbound_queue outbound_pop_shorter)

declare handle_wake.simps [simp del]

section \<open>Detectors and the loop body\<close>

definition cap_check :: "nat \<Rightarrow> net_server \<Rightarrow> net_server" where
  "cap_check i ns =
     (let entry = ns_registry ns ! i in
      if ce_tcp_fd entry < 0 then ns
      else if length (ce_pending_out entry) > kTcpPendingBufferCapBytes then
        (case find_by_id (ns_registry ns) (ce_player_id entry) of None \<Rightarrow> ns | Some j \<Rightarrow> server_disconnect j True ns)
      else ns)"

definition enforce_pending_cap :: "net_server \<Rightarrow> net_server" where
  "enforce_pending_cap ns = fold cap_check [0..<length (ns_registry ns)] ns"

definition silence_check :: "nat \<Rightarrow> net_server \<Rightarrow> net_server" where
  "silence_check i ns =
     (let entry = ns_registry ns ! i in
      if ce_tcp_fd entry < 0 then ns
      else if ns_last_silence_check_ms ns - ce_last_input_tick entry > word_of_int (ns_udp_silence_ms ns) then
        (case find_by_id (ns_registry ns) (ce_player_id entry) of None \<Rightarrow> ns | Some j \<Rightarrow> server_disconnect j True ns)
      else ns)"

definition check_silence_timeouts :: "u32 \<Rightarrow> net_server \<Rightarrow> net_server" where
  "check_silence_timeouts now ns =
     fold silence_check [0..<length (ns_registry ns)] (ns\<lparr>ns_last_silence_check_ms := now\<rparr>)"

text \<open>The work one result of \<open>wait\<close> leads to, with what the handler's system calls bring.\<close>

datatype net_event =
    WakeReady
  | UdpReady "udp_recv list"
  | AcceptReady "int list"
  | TcpReadable int read_env "recv_outcome list"
  | TcpWritable int "send_result list"

fun serve_event :: "net_event \<Rightarrow> net_server \<Rightarrow> net_server" where
  "serve_event WakeReady ns = handle_wake ns"
| "serve_event (UdpReady rs) ns = handle_udp_readable rs ns"
| "serve_event (AcceptReady fds) ns = accept_new_clients fds ns"
| "serve_event (TcpReadable fd env rs) ns = handle_tcp_readable env fd rs ns"
| "serve_event (TcpWritable fd rs) ns = flush_pending fd rs ns"

record handler_io =
  hio_datagrams :: "udp_recv list"
  hio_accepted :: "int list"
  hio_env :: read_env
  hio_received :: "recv_outcome list"
  hio_sent :: "send_result list"

definition event_of :: "poll_result \<Rightarrow> handler_io \<Rightarrow> net_server \<Rightarrow> net_event option" where
  "event_of r io ns =
     (if pr_fd r = ns_event_fd ns then Some WakeReady
      else if pr_fd r = ns_udp_fd ns then (if pr_readable r then Some (UdpReady (hio_datagrams io)) else None)
      else if pr_fd r = ns_tcp_listen_fd ns then Some (AcceptReady (hio_accepted io))
      else if pr_readable r then Some (TcpReadable (pr_fd r) (hio_env io) (hio_received io))
      else if pr_writable r then Some (TcpWritable (pr_fd r) (hio_sent io))
      else None)"

primrec serve_results :: "(poll_result \<times> handler_io) list \<Rightarrow> net_server \<Rightarrow> net_server" where
  "serve_results [] ns = ns"
| "serve_results (r # rs) ns =
     serve_results rs (case event_of (fst r) (snd r) ns of None \<Rightarrow> ns | Some ev \<Rightarrow> serve_event ev ns)"

definition update_write_interest :: "net_server \<Rightarrow> net_server" where
  "update_write_interest ns =
     ns\<lparr>ns_poller := fold (\<lambda>e. poll_set_watch_write (ce_tcp_fd e) (ce_pending_out e \<noteq> []))
          (filter (\<lambda>e. ce_tcp_fd e \<ge> 0) (ns_registry ns)) (ns_poller ns)\<rparr>"

text \<open>The body of the loop of \<open>run\<close> on the results of one \<open>wait\<close>; the clock is read twice.\<close>

definition run_iteration :: "(poll_result \<times> handler_io) list \<Rightarrow> u32 \<Rightarrow> u32 \<Rightarrow> net_server \<Rightarrow> net_server" where
  "run_iteration results now now' ns =
     (let ns = serve_results results ns;
          ns = update_write_interest ns;
          ns = enforce_pending_cap ns
      in if now - ns_last_silence_check_ms ns \<ge> 100 then check_silence_timeouts now' ns else ns)"

end
