(* ===== verification/Net_Server_Inv.thy ===== *)
theory Net_Server_Inv
  imports Net_Server
begin

text \<open>
  The invariant of the network thread: the registry, the lobby, the accumulation buffers and the
  poll set always tell the same story about who is connected. Most operations change none of the
  four; they are collected as equations on the view \<open>net_view\<close>, so that only joining, leaving and
  accepting need an argument.
\<close>

section \<open>View and invariant\<close>

definition reg_view :: "client_registry \<Rightarrow> (int \<times> u8 \<times> u32) list" where
  "reg_view reg = map (\<lambda>e. (ce_tcp_fd e, ce_player_id e, ce_session_token e)) reg"

type_synonym net_view = "(int \<times> u8 \<times> u32) list \<times> lobby \<times> u8 list list \<times> int set"

definition net_view :: "net_server \<Rightarrow> net_view" where
  "net_view ns = (reg_view (ns_registry ns), ns_lobby ns, ns_tcp_in ns, dom (poll_watched (ns_poller ns)))"

definition live :: "(int \<times> u8 \<times> u32) list \<Rightarrow> nat set" where
  "live v = {i. i < length v \<and> 0 \<le> fst (v ! i)}"

definition slots_inv :: "(int \<times> u8 \<times> u32) list \<Rightarrow> bool" where
  "slots_inv v \<longleftrightarrow> length v \<le> kMaxPlayers
     \<and> (\<forall>i < length v. fst (v ! i) = -1 \<or> i \<in> live v \<and> fst (snd (v ! i)) = word_of_nat i)
     \<and> inj_on (\<lambda>i. fst (v ! i)) (live v)"

definition view_inv :: "net_view \<Rightarrow> bool" where
  "view_inv = (\<lambda>(v, lob, tin, fds).
     slots_inv v \<and> lobby_inv lob
     \<and> set (lb_player_ids lob) = word_of_nat ` live v
     \<and> length tin = kMaxPlayers \<and> (\<forall>i < kMaxPlayers. i \<notin> live v \<longrightarrow> tin ! i = [])
     \<and> (\<forall>i \<in> live v. fst (v ! i) \<in> fds \<and> snd (snd (v ! i)) \<noteq> 0) \<and> (\<forall>fd \<in> fds. 0 \<le> fd))"

definition net_inv :: "net_server \<Rightarrow> bool" where
  "net_inv ns \<longleftrightarrow> view_inv (net_view ns)"

lemma net_inv_view: "net_inv ns \<Longrightarrow> net_view ns' = net_view ns \<Longrightarrow> net_inv ns'"
  by (simp add: net_inv_def)

lemma reg_view_nth [simp]:
  "length (reg_view reg) = length reg"
  "i < length reg \<Longrightarrow> reg_view reg ! i = (ce_tcp_fd (reg ! i), ce_player_id (reg ! i), ce_session_token (reg ! i))"
  by (simp_all add: reg_view_def)

lemma live_reg_view: "live (reg_view reg) = {i. i < length reg \<and> 0 \<le> ce_tcp_fd (reg ! i)}"
  by (auto simp: live_def)

lemma reg_view_update:
  "reg_view (reg[i := e]) = (reg_view reg)[i := (ce_tcp_fd e, ce_player_id e, ce_session_token e)]"
  by (simp add: reg_view_def map_update)

lemma reg_view_same:
  assumes "ce_tcp_fd (f (reg ! i)) = ce_tcp_fd (reg ! i)" "ce_player_id (f (reg ! i)) = ce_player_id (reg ! i)"
    "ce_session_token (f (reg ! i)) = ce_session_token (reg ! i)"
  shows "reg_view (reg[i := f (reg ! i)]) = reg_view reg"
proof (cases "i < length reg")
  case True
  then show ?thesis using assms by (simp add: reg_view_def map_update list_update_same_conv)
next
  case False
  then show ?thesis by (simp add: list_update_beyond)
qed

lemma slots_inv_reg: "slots_inv (reg_view reg) \<Longrightarrow> reg_inv reg"
  by (auto simp: slots_inv_def reg_inv_def live_reg_view)

lemma net_inv_reg: "net_inv ns \<Longrightarrow> reg_inv (ns_registry ns)"
  by (simp add: net_inv_def net_view_def view_inv_def slots_inv_reg)

section \<open>Operations that keep the view\<close>

lemma broadcast_view: "reg_view (snd (broadcast_tcp_event payload reg)) = reg_view reg"
proof -
  have "reg_view (snd (fold (broadcast_one payload) is (n, reg))) = reg_view reg" for "is" n
  proof (induction "is" arbitrary: n reg)
    case Nil
    then show ?case by simp
  next
    case (Cons i "is")
    have "reg_view (reg[j := append_pending payload (reg ! j)]) = reg_view reg" for j
      by (rule reg_view_same) (simp_all add: append_pending_def)
    then show ?case using Cons by (simp add: broadcast_one_def split: option.splits)
  qed
  then show ?thesis by (simp add: broadcast_tcp_event_def)
qed

lemma view_lobby_broadcast [simp]: "net_view (broadcast_lobby_state ns) = net_view ns"
  by (simp add: net_view_def broadcast_lobby_state_def Let_def broadcast_view)

lemma view_send_frame [simp]: "net_view (send_frame_generic fd ty enc ns) = net_view ns"
  by (simp add: net_view_def send_frame_generic_def Let_def)

lemma view_upd_entry:
  assumes "\<And>e. ce_tcp_fd (f e) = ce_tcp_fd e" "\<And>e. ce_player_id (f e) = ce_player_id e"
    "\<And>e. ce_session_token (f e) = ce_session_token e"
  shows "net_view (upd_entry i f ns) = net_view ns"
  using reg_view_same [of f "ns_registry ns" i] assms by (simp add: net_view_def upd_entry_def)

lemma view_queues [simp]:
  "net_view (ns\<lparr>ns_inbound := q\<rparr>) = net_view ns" "net_view (ns\<lparr>ns_outbound := q'\<rparr>) = net_view ns"
  "net_view (ns\<lparr>ns_last_silence_check_ms := now\<rparr>) = net_view ns"
  by (simp_all add: net_view_def)

lemma view_udp_hello [simp]: "net_view (on_udp_hello now src m ns) = net_view ns"
  by (simp add: on_udp_hello_def view_upd_entry split: option.split)

lemma view_player_input [simp]: "net_view (on_player_input now src m ns) = net_view ns"
  by (simp add: on_player_input_def view_upd_entry Let_def split: option.split)

lemma view_udp_packet [simp]: "net_view (on_udp_packet now src data ns) = net_view ns"
  by (simp add: on_udp_packet_def Let_def split: option.split)

lemma view_udp_readable [simp]: "net_view (handle_udp_readable rs ns) = net_view ns"
  by (induction rs arbitrary: ns) (simp_all split: udp_recv.split)

lemma view_event_datagrams [simp]: "net_view (fold (send_event_datagram ev) is ns) = net_view ns"
  by (simp add: net_view_def send_event_datagrams_frame)

lemma view_send_outbound [simp]: "net_view (send_outbound ev ns) = net_view ns"
  by (simp add: send_outbound_def split: outbound_event_type.split) (simp add: net_view_def broadcast_view)

lemma view_wake [simp]: "net_view (handle_wake ns) = net_view ns"
proof (induction ns rule: handle_wake.induct)
  case (1 ns)
  then show ?case by (auto simp: handle_wake.simps [of ns] split: option.split)
qed

lemma view_write_interest [simp]: "net_view (update_write_interest ns) = net_view ns"
  by (simp add: net_view_def update_write_interest_def pollp.dom_set_all)

section \<open>Leaving\<close>

lemma inj_live: "slots_inv v \<Longrightarrow> inj_on (word_of_nat :: nat \<Rightarrow> u8) (live v)"
  unfolding slots_inv_def live_def inj_on_def by (metis (lifting) mem_Collect_eq order_less_le_trans slot_word)

lemma live_lt: "slots_inv v \<Longrightarrow> i \<in> live v \<Longrightarrow> i < length v \<and> i < kMaxPlayers \<and> fst (snd (v ! i)) = word_of_nat i"
  by (fastforce simp: slots_inv_def live_def)

lemma live_free: "live (v[i := (-1, p, t)]) = live v - {i}"
  by (cases "i < length v") (auto simp: live_def nth_list_update)

lemma slots_free: "slots_inv v \<Longrightarrow> slots_inv (v[i := (-1, p, t)])"
  unfolding slots_inv_def live_free
  by (cases "i < length v") (auto simp: nth_list_update list_update_beyond inj_on_def)

lemma set_remove_player: "lobby_inv l \<Longrightarrow> set (lb_player_ids (remove_player pid l)) = set (lb_player_ids l) - {pid}"
  by (auto simp: remove_player_def promote_host_def Let_def lobby_inv_def)

lemma view_inv_leave:
  assumes "view_inv (v, lob, tin, fds)" "i \<in> live v"
  shows "view_inv (v[i := (-1, p, t)], remove_player (word_of_nat i) lob, tin[i := []], fds - {fst (v ! i)})"
proof -
  from assms(1) have slots: "slots_inv v" and lob: "lobby_inv lob" "set (lb_player_ids lob) = word_of_nat ` live v"
    and tin: "length tin = kMaxPlayers" "\<forall>j < kMaxPlayers. j \<notin> live v \<longrightarrow> tin ! j = []"
    and fds: "\<forall>j \<in> live v. fst (v ! j) \<in> fds \<and> snd (snd (v ! j)) \<noteq> 0" "\<forall>fd \<in> fds. 0 \<le> fd"
    by (simp_all add: view_inv_def)
  have ids: "set (lb_player_ids (remove_player (word_of_nat i) lob)) = word_of_nat ` (live v - {i})"
    using set_remove_player [OF lob(1)] lob(2) inj_on_image_set_diff [OF inj_live [OF slots], of "live v" "{i}"] assms(2) by auto
  have other: "fst (v ! j) \<noteq> fst (v ! i)" if "j \<in> live v" "j \<noteq> i" for j
    using slots that assms(2) by (auto simp: slots_inv_def inj_on_def)
  show ?thesis
    unfolding view_inv_def live_free prod.case
    using slots_free [OF slots] lobby_inv_remove [OF lob(1)] ids tin fds other live_lt [OF slots assms(2)]
    by (auto simp: nth_list_update)
qed

definition departed :: "nat \<Rightarrow> net_server \<Rightarrow> net_server" where
  "departed i ns = ns\<lparr>ns_poller := poll_remove (ce_tcp_fd (ns_registry ns ! i)) (ns_poller ns),
     ns_pre_join := (ns_pre_join ns)(ce_tcp_fd (ns_registry ns ! i) := None),
     ns_registry := (ns_registry ns)[i := (ns_registry ns ! i)\<lparr>ce_tcp_fd := -1\<rparr>],
     ns_lobby := remove_player (word_of_nat i) (ns_lobby ns), ns_tcp_in := (ns_tcp_in ns)[i := []]\<rparr>"

definition left_command :: "nat \<Rightarrow> inbound_command" where
  "left_command i = default_inbound_command\<lparr>ic_type := CmdPlayerLeft, ic_player_id := word_of_nat i\<rparr>"

lemma disconnect_closed:
  assumes "net_inv ns" "i \<in> live (reg_view (ns_registry ns))"
  shows "server_disconnect i n ns = broadcast_lobby_state
    (if n \<and> lb_in_progress (ns_lobby ns)
     then (departed i ns)\<lparr>ns_inbound := inbound_push (left_command i) (ns_inbound ns)\<rparr> else departed i ns)"
proof -
  let ?reg = "ns_registry ns"
  have "reg_inv ?reg" using net_inv_reg [OF assms(1)] .
  with assms(2) have i: "i < length ?reg" "ce_player_id (?reg ! i) = word_of_nat i" "unat (word_of_nat i :: u8) = i"
    by (auto simp: live_reg_view reg_inv_def slot_word)
  then have "registry_remove (word_of_nat i) (?reg[i := (?reg ! i)\<lparr>ce_tcp_fd := -1\<rparr>]) = ?reg[i := (?reg ! i)\<lparr>ce_tcp_fd := -1\<rparr>]"
    by (simp add: registry_remove_def kFreeFd_def)
  with i show ?thesis
    by (simp add: server_disconnect_def Let_def upd_entry_def departed_def left_command_def)
qed

lemma view_disconnect:
  assumes "net_inv ns" "i \<in> live (reg_view (ns_registry ns))"
  shows "net_view (server_disconnect i n ns) =
    (let (v, lob, tin, fds) = net_view ns in
       (v[i := (-1, snd (v ! i))], remove_player (word_of_nat i) lob, tin[i := []], fds - {fst (v ! i)}))"
proof -
  have "net_view (server_disconnect i n ns) = net_view (departed i ns)"
    unfolding disconnect_closed [OF assms] by simp
  then show ?thesis
    using assms(2) by (simp add: net_view_def departed_def reg_view_update pollp.dom_remove live_reg_view)
qed

lemma inv_disconnect:
  assumes "net_inv ns" "i \<in> live (reg_view (ns_registry ns))"
  shows "net_inv (server_disconnect i n ns)"
proof -
  obtain v lob tin fds where v: "net_view ns = (v, lob, tin, fds)" by (cases "net_view ns") auto
  then have "i \<in> live v" using assms(2) by (simp add: net_view_def)
  moreover obtain p t where "snd (v ! i) = (p, t)" by fastforce
  ultimately show ?thesis
    using view_inv_leave [of v lob tin fds i p t] assms(1) v view_disconnect [OF assms, of n] by (simp add: net_inv_def)
qed

lemma find_by_fd_None: "find_by_fd reg fd = None \<longleftrightarrow> (\<forall>i < length reg. ce_tcp_fd (reg ! i) \<noteq> fd)"
  by (auto simp: find_by_fd_def find_None_iff)

lemma find_by_fd_Some: "find_by_fd reg fd = Some i \<Longrightarrow> i < length reg \<and> ce_tcp_fd (reg ! i) = fd"
  by (auto simp: find_by_fd_def find_Some_iff)

lemma inv_close:
  assumes "net_inv ns" "find_by_fd (ns_registry ns) fd = None"
  shows "net_inv (close_unregistered fd ns)"
  using assms unfolding net_inv_def net_view_def view_inv_def close_unregistered_def
  by (auto simp: pollp.dom_remove live_reg_view find_by_fd_None)

lemma inv_drop:
  assumes "net_inv ns" "0 \<le> fd"
  shows "net_inv (drop_connection fd ns)"
  using assms inv_close inv_disconnect find_by_fd_Some
  by (auto simp: drop_connection_def live_reg_view split: option.splits)

text \<open>The two detectors visit slots and disconnect some of them.\<close>

lemma length_disconnect [simp]: "length (ns_registry (server_disconnect i n ns)) = length (ns_registry ns)"
proof -
  have "length (snd (broadcast_tcp_event payload reg)) = length reg" for payload reg
    using broadcast_view [of payload reg] by (metis reg_view_nth(1))
  then show ?thesis
    by (simp add: server_disconnect_def Let_def broadcast_lobby_state_def upd_entry_def registry_remove_def
        if_distrib [where f = ns_registry] if_distrib [where f = length])
qed

lemma inv_check:
  assumes "net_inv ns" "i < length (ns_registry ns)" "\<not> ce_tcp_fd (ns_registry ns ! i) < 0"
  shows "net_inv (case find_by_id (ns_registry ns) (ce_player_id (ns_registry ns ! i)) of
      None \<Rightarrow> ns | Some j \<Rightarrow> server_disconnect j True ns)"
  using find_live(1) [OF net_inv_reg [OF assms(1)], of i] assms inv_disconnect [OF assms(1), of i]
  by (simp add: live_reg_view)

lemma inv_detectors:
  assumes "\<And>i ns. net_inv ns \<Longrightarrow> i < length (ns_registry ns) \<Longrightarrow> net_inv (f i ns)"
    and "\<And>i ns. length (ns_registry (f i ns)) = length (ns_registry ns)"
  shows "net_inv ns \<Longrightarrow> \<forall>i \<in> set is. i < length (ns_registry ns) \<Longrightarrow> net_inv (fold f is ns)"
  by (induction "is" arbitrary: ns) (simp_all add: assms)

lemma inv_pending_cap: "net_inv ns \<Longrightarrow> net_inv (enforce_pending_cap ns)"
  unfolding enforce_pending_cap_def
  by (rule inv_detectors) (auto simp: cap_check_def Let_def inv_check split: option.split)

lemma inv_silence: "net_inv ns \<Longrightarrow> net_inv (check_silence_timeouts now ns)"
  unfolding check_silence_timeouts_def
  by (rule inv_detectors) (auto simp: silence_check_def Let_def inv_check net_inv_def [of "ns\<lparr>ns_last_silence_check_ms := now\<rparr>"]
      net_inv_def [symmetric] split: option.split)

section \<open>Joining\<close>

text \<open>Writing a slot that is free or one past the end.\<close>

definition put_slot :: "nat \<Rightarrow> 'a \<Rightarrow> 'a list \<Rightarrow> 'a list" where
  "put_slot k x xs = (if k < length xs then xs[k := x] else xs @ [x])"

lemma put_slot_props:
  assumes "k \<le> length xs"
  shows "length (put_slot k x xs) = max (length xs) (Suc k)" "put_slot k x xs ! k = x"
    "j < length xs \<Longrightarrow> j \<noteq> k \<Longrightarrow> put_slot k x xs ! j = xs ! j"
    "j < length (put_slot k x xs) \<Longrightarrow> j \<noteq> k \<Longrightarrow> j < length xs"
  using assms by (auto simp: put_slot_def nth_append max_def split: if_splits)

lemma reg_view_put: "reg_view (put_slot k e reg) = put_slot k (ce_tcp_fd e, ce_player_id e, ce_session_token e) (reg_view reg)"
  by (simp add: put_slot_def reg_view_update) (simp add: reg_view_def)

lemma live_put_free: "k \<le> length v \<Longrightarrow> k \<notin> live v \<Longrightarrow> live (put_slot k (-1, p, t) v) = live v"
  by (auto simp: live_def put_slot_def nth_append nth_list_update split: if_splits)

lemma live_put_used: "k \<le> length v \<Longrightarrow> 0 \<le> fd \<Longrightarrow> live (put_slot k (fd, p, t) v) = insert k (live v)"
  by (auto simp: live_def put_slot_def nth_append nth_list_update less_Suc_eq split: if_splits)

lemma live_put_nth: "j \<in> live v \<Longrightarrow> k \<notin> live v \<Longrightarrow> put_slot k x v ! j = v ! j"
  by (auto simp: live_def put_slot_def nth_append nth_list_update)

lemma slots_put_free:
  assumes "slots_inv v" "k \<le> length v" "k \<notin> live v" "k < kMaxPlayers"
  shows "slots_inv (put_slot k (-1, p, t) v)"
proof -
  have "inj_on (\<lambda>i. fst (put_slot k (-1, p, t) v ! i)) (live v)"
    using assms(1,3) by (auto simp: slots_inv_def inj_on_def live_put_nth)
  moreover have "fst (put_slot k (-1, p, t) v ! i) = -1 \<or> i \<in> live v \<and> fst (snd (put_slot k (-1, p, t) v ! i)) = word_of_nat i"
    if "i < length (put_slot k (-1, p, t) v)" for i
    using that assms put_slot_props [OF assms(2), where x = "(-1, p, t)"] by (cases "i = k") (auto simp: slots_inv_def)
  ultimately show ?thesis
    using assms put_slot_props(1) [OF assms(2)] by (auto simp: slots_inv_def live_put_free)
qed

lemma slots_put_used:
  assumes "slots_inv v" "k \<le> length v" "k \<notin> live v" "k < kMaxPlayers" "0 \<le> fd" "\<forall>i \<in> live v. fst (v ! i) \<noteq> fd"
  shows "slots_inv (put_slot k (fd, word_of_nat k, t) v)"
proof -
  let ?x = "(fd, word_of_nat k :: u8, t)"
  have "inj_on (\<lambda>i. fst (put_slot k ?x v ! i)) (insert k (live v))"
    using assms(1,3,6) put_slot_props(2) [OF assms(2), of ?x] by (auto simp: slots_inv_def inj_on_def live_put_nth)
  moreover have "fst (put_slot k ?x v ! i) = -1 \<or> i \<in> insert k (live v) \<and> fst (snd (put_slot k ?x v ! i)) = word_of_nat i"
    if "i < length (put_slot k ?x v)" for i
    using that assms put_slot_props [OF assms(2), where x = ?x] by (cases "i = k") (auto simp: slots_inv_def)
  ultimately show ?thesis
    using assms put_slot_props(1) [OF assms(2)] by (auto simp: slots_inv_def live_put_used)
qed

lemma set_add_player:
  "add_player pid l = (JoinOk, l') \<Longrightarrow> set (lb_player_ids l') = insert pid (set (lb_player_ids l))"
  by (auto simp: add_player_def Let_def split: if_splits)

lemma add_player_refused: "fst (add_player pid l) \<noteq> JoinOk \<Longrightarrow> snd (add_player pid l) = l"
  by (auto simp: add_player_def Let_def split: if_splits)

lemma token_odd: "fst (make_token r ns) \<noteq> 0"
proof -
  have "bit (fst (make_token r ns)) 0" by (simp add: make_token_def Let_def split_beta bit_or_iff)
  then show ?thesis by auto
qed

lemma view_inv_join:
  assumes "view_inv (v, lob, tin, fds)" "k \<le> length v" "k \<notin> live v" "k < kMaxPlayers" "fd \<in> fds"
    "\<forall>i \<in> live v. fst (v ! i) \<noteq> fd" "add_player (word_of_nat k) lob = (JoinOk, lob')" "t \<noteq> 0"
  shows "view_inv (put_slot k (fd, word_of_nat k, t) v, lob', tin, fds)"
proof -
  have fd: "0 \<le> fd" using assms(1,5) by (simp add: view_inv_def)
  have "lobby_inv lob'" using lobby_inv_add [of lob "word_of_nat k"] assms(1,7) by (simp add: view_inv_def)
  then show ?thesis
    using slots_put_used [OF _ assms(2,3,4) fd assms(6), of t] set_add_player [OF assms(7)] assms put_slot_props(2) [OF assms(2)]
    by (auto simp: view_inv_def live_put_used fd live_put_nth)
qed

lemma view_inv_put_free:
  assumes "view_inv (v, lob, tin, fds)" "k \<le> length v" "k \<notin> live v" "k < kMaxPlayers"
  shows "view_inv (put_slot k (-1, p, t) v, lob, tin, fds)"
  using slots_put_free [OF _ assms(2-4)] assms by (auto simp: view_inv_def live_put_free live_put_nth)

text \<open>The outcomes of a join in terms of the view.\<close>

definition grows :: "net_server \<Rightarrow> net_server \<Rightarrow> bool" where
  "grows ns ns' \<longleftrightarrow> (let v = reg_view (ns_registry ns); v' = reg_view (ns_registry ns') in
     live v \<subseteq> live v' \<and> (\<forall>i \<in> live v. v' ! i = v ! i)
     \<and> ns_tcp_in ns' = ns_tcp_in ns \<and> ns_pre_join ns' = ns_pre_join ns
     \<and> dom (poll_watched (ns_poller ns')) = dom (poll_watched (ns_poller ns)))"

lemma grows_refl: "grows ns ns"
  by (simp add: grows_def)

lemma grows_trans: "grows a b \<Longrightarrow> grows b c \<Longrightarrow> grows a c"
  unfolding grows_def Let_def by (metis (no_types, opaque_lifting) subset_iff)

lemma pre_join_frame [simp]:
  "ns_pre_join (broadcast_lobby_state ns) = ns_pre_join ns"
  "ns_pre_join (send_frame_generic fd ty enc ns) = ns_pre_join ns"
  by (simp_all add: broadcast_lobby_state_def send_frame_generic_def Let_def)

lemma first_free_live:
  assumes "reg_inv reg"
  shows "first_free 0 reg \<notin> live (reg_view reg)" "first_free 0 reg \<le> length reg"
  using first_free_spec [OF refl, of reg] by (auto simp: live_reg_view kFreeFd_def)

lemma put_slot_update: "k \<le> length xs \<Longrightarrow> (put_slot k x xs)[k := y] = put_slot k y xs"
  by (auto simp: put_slot_def)

lemma add_put_slot:
  assumes "reg_inv reg" "k = first_free 0 reg" "k < kMaxPlayers"
  shows "registry_add fd name reg = (Some k, put_slot k (fresh_entry k fd name) reg)"
  using registry_add_closed [OF assms(1,2)] assms(3) by (simp add: put_slot_def)

lemma remove_put_slot:
  assumes "k \<le> length reg" "k < kMaxPlayers" "ce_tcp_fd e \<noteq> -1"
  shows "registry_remove (word_of_nat k) (put_slot k e reg) = put_slot k (default_client_entry\<lparr>ce_tcp_fd := -1\<rparr>) reg"
  using put_slot_props(1,2) [OF assms(1), of e] assms
  by (simp add: registry_remove_def slot_word kFreeFd_def put_slot_update less_max_iff_disj)

text \<open>A free slot in the registry means that the lobby has room: it refuses only during a match.\<close>

lemma lobby_has_room:
  assumes "net_inv ns" "k \<notin> live (reg_view (ns_registry ns))" "k < kMaxPlayers"
  shows "word_of_nat k \<notin> set (lb_player_ids (ns_lobby ns))" "length (lb_player_ids (ns_lobby ns)) < kMaxPlayers"
proof -
  let ?v = "reg_view (ns_registry ns)" and ?ids = "lb_player_ids (ns_lobby ns)"
  have inv: "slots_inv ?v" "distinct ?ids" "set ?ids = word_of_nat ` live ?v"
    using assms(1) by (simp_all add: net_inv_def net_view_def view_inv_def lobby_inv_def)
  have sub: "live ?v \<subseteq> {..<kMaxPlayers} - {k}" using live_lt [OF inv(1)] assms(2) by auto
  show "word_of_nat k \<notin> set ?ids"
  proof
    assume "word_of_nat k \<in> set ?ids"
    then obtain i where "i \<in> live ?v" "(word_of_nat k :: u8) = word_of_nat i" using inv(3) by auto
    then show False using live_lt [OF inv(1)] slot_word assms(2,3) by metis
  qed
  have "length ?ids = card (live ?v)"
    using inv inj_live card_image distinct_card by metis
  also have "\<dots> \<le> card ({..<kMaxPlayers} - {k})" using sub by (intro card_mono) auto
  also have "\<dots> < kMaxPlayers" using assms(3) by simp
  finally show "length ?ids < kMaxPlayers" .
qed

lemma join_cases:
  assumes "net_inv ns" "find_by_fd (ns_registry ns) fd = None" "0 \<le> fd"
  defines "k \<equiv> first_free 0 (ns_registry ns)"
  obtains (full) "kMaxPlayers \<le> k" "on_join_lobby env fd m ns = send_frame_generic fd JoinReject (encode_join_reject \<lparr>jr_reason = RejectFull\<rparr>) ns"
  | (refused) e where "k < kMaxPlayers" "ce_tcp_fd e = -1" "lb_in_progress (ns_lobby ns)"
      "on_join_lobby env fd m ns = send_frame_generic fd JoinReject (encode_join_reject \<lparr>jr_reason = RejectInProgress\<rparr>)
         (ns\<lparr>ns_registry := put_slot k e (ns_registry ns)\<rparr>)"
  | (joined) lob e where "k < kMaxPlayers" "\<not> lb_in_progress (ns_lobby ns)" "add_player (word_of_nat k) (ns_lobby ns) = (JoinOk, lob)"
      "e = (fresh_entry k fd (c_string (jl_name m) (re_beyond env)))
         \<lparr>ce_session_token := fst (make_token (re_rand env) ns), ce_last_input_tick := re_now env\<rparr>"
      "on_join_lobby env fd m ns = broadcast_lobby_state (send_frame_generic fd JoinAccept
         (encode_join_accept \<lparr>ja_player_id = word_of_nat k, ja_session_token = fst (make_token (re_rand env) ns), ja_udp_port = ns_udp_port ns\<rparr>)
         (ns\<lparr>ns_lobby := lob, ns_token_counter := ns_token_counter ns + 1, ns_registry := put_slot k e (ns_registry ns)\<rparr>))"
proof (cases "kMaxPlayers \<le> k")
  case True
  then have "registry_add fd name (ns_registry ns) = (None, ns_registry ns)" for name
    using registry_add_closed [OF net_inv_reg [OF assms(1)] refl] by (simp add: k_def)
  then have "on_join_lobby env fd m ns = send_frame_generic fd JoinReject (encode_join_reject \<lparr>jr_reason = RejectFull\<rparr>) ns"
    using assms(2) by (simp add: on_join_lobby_def Let_def)
  with True show ?thesis by (rule full)
next
  case False
  let ?reg = "ns_registry ns" and ?name = "c_string (jl_name m) (re_beyond env)"
  note reg = net_inv_reg [OF assms(1)]
  have k: "k < kMaxPlayers" "k \<le> length ?reg" "k \<notin> live (reg_view ?reg)"
    using False first_free_live [OF reg] by (simp_all add: k_def)
  have add: "registry_add fd ?name ?reg = (Some k, put_slot k (fresh_entry k fd ?name) ?reg)"
    using add_put_slot [OF reg _ k(1)] by (simp add: k_def)
  have pid: "ce_player_id (put_slot k (fresh_entry k fd ?name) ?reg ! k) = word_of_nat k"
    by (simp add: put_slot_props(2) [OF k(2)] fresh_entry_def)
  show ?thesis
  proof (cases "lb_in_progress (ns_lobby ns)")
    case True
    then have "on_join_lobby env fd m ns = send_frame_generic fd JoinReject (encode_join_reject \<lparr>jr_reason = RejectInProgress\<rparr>)
         (ns\<lparr>ns_registry := put_slot k (default_client_entry\<lparr>ce_tcp_fd := -1\<rparr>) ?reg\<rparr>)"
      using assms(2,3) remove_put_slot [OF k(2,1), of "fresh_entry k fd ?name"]
      by (simp add: on_join_lobby_def add add_player_def put_slot_props(2) [OF k(2)] fresh_entry_def)
    then show ?thesis using k(1) True by (intro refused [of "default_client_entry\<lparr>ce_tcp_fd := -1\<rparr>"]) simp_all
  next
    case False
    then obtain lob where lob: "add_player (word_of_nat k) (ns_lobby ns) = (JoinOk, lob)"
      using lobby_has_room [OF assms(1) k(3,1)] by (simp add: add_player_def Let_def)
    have "on_join_lobby env fd m ns = broadcast_lobby_state (send_frame_generic fd JoinAccept
         (encode_join_accept \<lparr>ja_player_id = word_of_nat k, ja_session_token = fst (make_token (re_rand env) ns), ja_udp_port = ns_udp_port ns\<rparr>)
         (ns\<lparr>ns_lobby := lob, ns_token_counter := ns_token_counter ns + 1, ns_registry := put_slot k
             ((fresh_entry k fd ?name)\<lparr>ce_session_token := fst (make_token (re_rand env) ns), ce_last_input_tick := re_now env\<rparr>) ?reg\<rparr>))"
      using assms(2) lob
      by (simp add: on_join_lobby_def add pid Let_def make_token_def split_beta upd_entry_def put_slot_update [OF k(2)]
          put_slot_props(2) [OF k(2)] fresh_entry_def)
    then show ?thesis using k(1) False lob by (intro joined) simp_all
  qed
qed

lemma net_inv_join:
  assumes "net_inv ns" "fd \<in> dom (poll_watched (ns_poller ns))"
  shows "net_inv (on_join_lobby env fd m ns) \<and> grows ns (on_join_lobby env fd m ns)"
proof (cases "find_by_fd (ns_registry ns) fd")
  case (Some i)
  then show ?thesis using assms by (simp add: on_join_lobby_def grows_refl)
next
  case None
  let ?k = "first_free 0 (ns_registry ns)" and ?v = "reg_view (ns_registry ns)"
  note k = first_free_live [OF net_inv_reg [OF assms(1)]]
  have inv: "view_inv (?v, ns_lobby ns, ns_tcp_in ns, dom (poll_watched (ns_poller ns)))"
    using assms(1) by (simp add: net_inv_def net_view_def)
  have fd: "0 \<le> fd" using inv assms(2) by (simp add: view_inv_def)
  have other: "\<forall>i \<in> live ?v. fst (?v ! i) \<noteq> fd"
    using None by (auto simp: find_by_fd_None live_reg_view)
  have keep: "live ?v \<subseteq> live (put_slot ?k x ?v) \<and> (\<forall>i \<in> live ?v. put_slot ?k x ?v ! i = ?v ! i)" for x
    using k live_put_nth [OF _ k(1), of _ x] by (auto simp: live_def put_slot_def)
  from assms(1) None fd show ?thesis
  proof (cases rule: join_cases [where env = env and m = m])
    case full
    then show ?thesis using assms(1) by (simp add: net_inv_def grows_def) (simp add: net_view_def send_frame_generic_def Let_def)
  next
    case (refused e)
    have "net_inv (ns\<lparr>ns_registry := put_slot ?k e (ns_registry ns)\<rparr>)"
      using view_inv_put_free [OF inv _ k(1) refused(1)] k(2) refused(2)
      by (simp add: net_inv_def net_view_def reg_view_put)
    then show ?thesis using refused(4) keep
      by (simp add: net_inv_def grows_def reg_view_put send_frame_generic_def Let_def) (simp add: net_view_def)
  next
    case (joined lob e)
    have "view_inv (put_slot ?k (fd, word_of_nat ?k, fst (make_token (re_rand env) ns)) ?v, lob, ns_tcp_in ns, dom (poll_watched (ns_poller ns)))"
      using view_inv_join [OF inv _ k(1) joined(1) assms(2) other joined(3) token_odd] k(2) by simp
    then have "net_inv (on_join_lobby env fd m ns)"
      unfolding joined(5) net_inv_def view_lobby_broadcast view_send_frame
      by (simp add: net_view_def reg_view_put joined(4) fresh_entry_def)
    moreover have "net_view (on_join_lobby env fd m ns) = (put_slot ?k (ce_tcp_fd e, ce_player_id e, ce_session_token e) ?v,
        lob, ns_tcp_in ns, dom (poll_watched (ns_poller ns)))"
      unfolding joined(5) view_lobby_broadcast view_send_frame by (simp add: net_view_def reg_view_put)
    ultimately show ?thesis using keep by (simp add: grows_def net_view_def joined(5))
  qed
qed

section \<open>Starting\<close>

lemma begin_match_ids: "lb_player_ids (snd (begin_match l)) = lb_player_ids l"
  by (simp add: begin_match_def)

lemma view_begin:
  "net_view (begin_match_and_notify shuffle ns) =
    (let (v, lob, tin, fds) = net_view ns in (v, snd (begin_match lob), tin, fds))"
  "ns_pre_join (begin_match_and_notify shuffle ns) = ns_pre_join ns"
  by (auto simp: begin_match_and_notify_def net_view_def broadcast_view begin_match_def Let_def split: prod.split)

lemma inv_start_request:
  assumes "net_inv ns"
  shows "net_inv (on_start_request env fd ns) \<and> grows ns (on_start_request env fd ns)"
proof -
  have "net_inv (begin_match_and_notify (re_shuffle env) ns)"
    using assms lobby_inv_match(1) [of "ns_lobby ns"]
    by (simp add: net_inv_def view_begin) (simp add: net_view_def view_inv_def begin_match_ids)
  moreover have "grows ns (begin_match_and_notify (re_shuffle env) ns)"
    using view_begin [of "re_shuffle env" ns] by (simp add: grows_def net_view_def)
  moreover have "net_inv (send_frame_generic fd ty enc ns) \<and> grows ns (send_frame_generic fd ty enc ns)" for ty enc
    using assms by (simp add: net_inv_def) (simp add: grows_def send_frame_generic_def Let_def)
  ultimately show ?thesis using assms by (simp add: on_start_request_def grows_refl split: option.split)
qed

section \<open>Reading and flushing\<close>

lemma inv_serve_frame:
  assumes "net_inv ns" "fd \<in> dom (poll_watched (ns_poller ns))"
  shows "net_inv (serve_frame env fd ty payload ns) \<and> grows ns (serve_frame env fd ty payload ns)"
  using assms net_inv_join [OF assms] inv_start_request [OF assms(1)]
  by (simp add: serve_frame_def grows_refl split: option.split)

lemma inv_serve_frames:
  assumes "net_inv ns" "fd \<in> dom (poll_watched (ns_poller ns))" "serve_frames env fd accum pos ns = (pos', dead, ns')"
  shows "net_inv ns' \<and> grows ns ns'"
  using assms
proof (induction env fd accum pos ns arbitrary: pos' dead ns' rule: serve_frames.induct)
  case (1 env fd accum pos ns)
  show ?case
  proof (cases "length accum - pos \<ge> kTcpFrameHeaderBytes \<and> (\<exists>ty payload n. recv_framed (drop pos accum) = Frame ty payload n \<and> length payload \<le> kAccumCap)")
    case False
    then show ?thesis using "1.prems" grows_refl
      by (auto simp: serve_frames.simps [of env fd accum pos] split: if_splits frame_result.splits)
  next
    case True
    then obtain ty payload n where f: "length accum - pos \<ge> kTcpFrameHeaderBytes" "recv_framed (drop pos accum) = Frame ty payload n"
      "\<not> length payload > kAccumCap" by auto
    let ?ns = "serve_frame env fd ty payload ns"
    have step: "net_inv ?ns" "grows ns ?ns" using inv_serve_frame [OF "1.prems"(1,2)] by auto
    then have "fd \<in> dom (poll_watched (ns_poller ?ns))" using "1.prems"(2) by (simp add: grows_def Let_def)
    moreover have "serve_frames env fd accum (pos + n) ?ns = (pos', dead, ns')"
      using "1.prems"(3) f by (simp add: serve_frames.simps [of env fd accum pos])
    ultimately have "net_inv ns' \<and> grows ?ns ns'" using "1.IH" [OF f] step(1) by blast
    then show ?thesis using grows_trans step(2) by blast
  qed
qed

definition accum_live :: "accum_ref \<Rightarrow> net_server \<Rightarrow> bool" where
  "accum_live accum ns = (case accum of TcpIn i \<Rightarrow> i \<in> live (reg_view (ns_registry ns)) | PreJoin fd \<Rightarrow> True)"

lemma inv_set_accum:
  assumes "net_inv ns" "accum_live accum ns"
  shows "net_inv (set_accum accum bs ns)"
proof (cases accum)
  case (TcpIn i)
  then have "j \<notin> live (reg_view (ns_registry ns)) \<Longrightarrow> (ns_tcp_in ns)[i := bs] ! j = ns_tcp_in ns ! j" for j
    using assms(2) by (metis accum_live_def accum_ref.simps(5) nth_list_update_neq)
  then show ?thesis using assms(1) TcpIn by (simp add: set_accum_def net_inv_def net_view_def view_inv_def)
next
  case (PreJoin fd)
  then show ?thesis using assms(1) by (simp add: set_accum_def net_inv_def net_view_def)
qed

lemma set_accum_frame [simp]:
  "ns_registry (set_accum accum bs ns) = ns_registry ns" "ns_poller (set_accum accum bs ns) = ns_poller ns"
  by (simp_all add: set_accum_def split: accum_ref.split)

lemma inv_tcp_readable:
  assumes "net_inv ns" "fd \<in> dom (poll_watched (ns_poller ns))"
  shows "net_inv (handle_tcp_readable env fd rs ns)"
proof -
  obtain accum ns1 where a: "accum_for fd ns = (accum, ns1)" by fastforce
  have fd: "0 \<le> fd" using assms by (simp add: net_inv_def net_view_def view_inv_def)
  have ns1: "net_inv ns1" "ns_registry ns1 = ns_registry ns" "ns_poller ns1 = ns_poller ns"
    using a assms(1) by (auto simp: accum_for_def net_inv_def net_view_def split: option.splits if_splits)
  have slot: "accum_live accum ns1"
    using a find_by_fd_Some [of "ns_registry ns" fd] find_live(2) [OF net_inv_reg [OF assms(1)]] fd
    by (auto simp: accum_for_def accum_live_def live_reg_view split: option.splits if_splits)
  obtain going buf where r: "recv_chunks rs (get_accum accum ns1) = (going, buf)" by fastforce
  let ?ns = "set_accum accum buf ns1"
  have ns2: "net_inv ?ns" using inv_set_accum [OF ns1(1) slot] .
  obtain pos dead ns3 where s: "serve_frames env fd buf 0 ?ns = (pos, dead, ns3)" by (cases "serve_frames env fd buf 0 ?ns") auto
  have ns3: "net_inv ns3" "grows ?ns ns3"
    using inv_serve_frames [OF ns2 _ s] assms(2) ns1(3) by simp_all
  have "accum_live accum ns3"
    using slot ns3(2) by (auto simp: accum_live_def grows_def Let_def split: accum_ref.splits)
  then show ?thesis
    using ns2 ns3(1) inv_drop [OF _ fd] inv_set_accum [OF ns3(1)] by (simp add: handle_tcp_readable_def a r s Let_def)
qed

lemma inv_flush_loop: "net_inv ns \<Longrightarrow> i \<in> live (reg_view (ns_registry ns)) \<Longrightarrow> net_inv (flush_loop rs i ns)"
proof (induction rs arbitrary: ns)
  case Nil
  then show ?case by simp
next
  case (Cons r rs)
  have view: "net_view (upd_entry i (\<lambda>e. e\<lparr>ce_pending_out := drop n (ce_pending_out e)\<rparr>) (ns\<lparr>ns_tcp_flushed := x\<rparr>)) = net_view ns" for n x
    using view_upd_entry [of "\<lambda>e. e\<lparr>ce_pending_out := drop n (ce_pending_out e)\<rparr>" i "ns\<lparr>ns_tcp_flushed := x\<rparr>"]
    by (simp add: net_view_def)
  have "net_inv (flush_loop rs i (upd_entry i (\<lambda>e. e\<lparr>ce_pending_out := drop n (ce_pending_out e)\<rparr>) (ns\<lparr>ns_tcp_flushed := x\<rparr>)))" for n x
    using Cons.IH net_inv_view [OF Cons.prems(1) view] view [of n x] Cons.prems(2) by (simp add: net_view_def)
  then show ?case using Cons inv_disconnect by (simp add: Let_def split: send_result.split)
qed

lemma inv_flush:
  assumes "net_inv ns" "fd \<in> dom (poll_watched (ns_poller ns))"
  shows "net_inv (flush_pending fd rs ns)"
proof -
  have "0 \<le> fd" using assms by (simp add: net_inv_def net_view_def view_inv_def)
  then show ?thesis using assms(1) inv_flush_loop [OF assms(1)] find_by_fd_Some
    by (fastforce simp: flush_pending_def live_reg_view split: option.split)
qed

lemma inv_accept:
  assumes "net_inv ns" "\<forall>fd \<in> set fds. 0 \<le> fd"
  shows "net_inv (accept_new_clients fds ns)"
proof -
  have "dom (poll_watched (fold (\<lambda>fd. poll_add fd False) fds p)) = dom (poll_watched p) \<union> set fds" for p
    by (induction fds arbitrary: p) (auto simp: pollp.dom_add)
  then show ?thesis using assms by (auto simp: accept_new_clients_def net_inv_def net_view_def view_inv_def)
qed

section \<open>Reachable states\<close>

text \<open>
  A run of the network thread. A descriptor in an event is one the poller watches; an accepted
  descriptor is new and not negative, which is what the kernel guarantees for a descriptor that is
  open. Between two events the simulation thread may push and pop on the shared queues.
\<close>

inductive net_reachable :: "net_server \<Rightarrow> bool" where
  started: "server_start (Started l lp u up e now) (NetServer inq0 outq0 ms) = (True, ns) \<Longrightarrow>
    0 \<le> l \<Longrightarrow> 0 \<le> u \<Longrightarrow> 0 \<le> e \<Longrightarrow> net_reachable ns"
| wake: "net_reachable ns \<Longrightarrow> net_reachable (serve_event WakeReady ns)"
| udp: "net_reachable ns \<Longrightarrow> net_reachable (serve_event (UdpReady datagrams) ns)"
| accepted: "net_reachable ns \<Longrightarrow> \<forall>fd \<in> set fds. 0 \<le> fd \<and> fd \<notin> dom (poll_watched (ns_poller ns)) \<Longrightarrow>
    net_reachable (serve_event (AcceptReady fds) ns)"
| readable: "net_reachable ns \<Longrightarrow> fd \<in> dom (poll_watched (ns_poller ns)) \<Longrightarrow>
    net_reachable (serve_event (TcpReadable fd env rs) ns)"
| writable: "net_reachable ns \<Longrightarrow> fd \<in> dom (poll_watched (ns_poller ns)) \<Longrightarrow>
    net_reachable (serve_event (TcpWritable fd answers) ns)"
| interest: "net_reachable ns \<Longrightarrow> net_reachable (update_write_interest ns)"
| cap: "net_reachable ns \<Longrightarrow> net_reachable (enforce_pending_cap ns)"
| silence: "net_reachable ns \<Longrightarrow> net_reachable (check_silence_timeouts now ns)"
| simulation: "net_reachable ns \<Longrightarrow> net_reachable (ns\<lparr>ns_inbound := q, ns_outbound := q'\<rparr>)"

lemma net_inv_started:
  assumes "server_start (Started l lp u up e now) (NetServer inq0 outq0 ms) = (True, ns)" "0 \<le> l" "0 \<le> u" "0 \<le> e"
  shows "net_inv ns"
proof -
  have "ns_poller ns = poll_add e False (poll_add u False (poll_add l False []))"
    using assms(1) by (auto simp: NetServer_def)
  moreover have "dom (poll_watched []) = {}" by (simp add: dom_def poll_watched_rec)
  ultimately have "dom (poll_watched (ns_poller ns)) = {e, u, l}" by (simp add: pollp.dom_add)
  moreover have "ns_registry ns = []" "ns_lobby ns = Lobby" "ns_tcp_in ns = replicate kMaxPlayers []"
    using assms(1) by (auto simp: NetServer_def ClientRegistry_def)
  ultimately show ?thesis using assms(2-4) lobby_inv_start
    by (simp add: net_inv_def net_view_def view_inv_def slots_inv_def live_def reg_view_def) (simp add: Lobby_def)
qed

lemma net_reachable_inv: "net_reachable ns \<Longrightarrow> net_inv ns"
proof (induction rule: net_reachable.induct)
  case (started l lp u up e now inq0 outq0 ms ns)
  then show ?case by (rule net_inv_started)
qed (simp_all add: inv_accept inv_tcp_readable inv_flush inv_pending_cap inv_silence net_inv_def [of "handle_wake _"]
    net_inv_def [of "handle_udp_readable _ _"] net_inv_def [of "update_write_interest _"] net_inv_def [of "_\<lparr>ns_inbound := _, ns_outbound := _\<rparr>"]
    net_inv_def [symmetric])

text \<open>
  A whole iteration of the loop stays within the reachable states when the kernel behaves: each
  reported descriptor is watched when its turn comes, and accepted descriptors are new.
\<close>

primrec results_ok :: "(poll_result \<times> handler_io) list \<Rightarrow> net_server \<Rightarrow> bool" where
  "results_ok [] ns \<longleftrightarrow> True"
| "results_ok (r # rs) ns \<longleftrightarrow> pr_fd (fst r) \<in> dom (poll_watched (ns_poller ns))
     \<and> (\<forall>fd \<in> set (hio_accepted (snd r)). 0 \<le> fd \<and> fd \<notin> dom (poll_watched (ns_poller ns)))
     \<and> results_ok rs (case event_of (fst r) (snd r) ns of None \<Rightarrow> ns | Some ev \<Rightarrow> serve_event ev ns)"

lemma event_reachable:
  assumes "net_reachable ns" "event_of r io ns = Some ev" "pr_fd r \<in> dom (poll_watched (ns_poller ns))"
    "\<forall>fd \<in> set (hio_accepted io). 0 \<le> fd \<and> fd \<notin> dom (poll_watched (ns_poller ns))"
  shows "net_reachable (serve_event ev ns)"
  using assms by (auto simp del: serve_event.simps simp: event_of_def intro: net_reachable.intros split: if_splits)

lemma iteration_reachable:
  assumes "net_reachable ns" "results_ok rs ns"
  shows "net_reachable (run_iteration rs now now' ns)"
proof -
  have "net_reachable (serve_results rs ns)"
    using assms by (induction rs arbitrary: ns) (auto simp del: serve_event.simps intro: event_reachable split: option.splits)
  then show ?thesis by (auto simp: run_iteration_def Let_def intro: net_reachable.intros)
qed

section \<open>A concrete session\<close>

text \<open>
  A server that listens on three descriptors and has accepted the connections 6 and 7; both clients
  then join, 6 first. The states instantiate the theorems about the network thread.
\<close>

definition sample_env :: read_env where
  "sample_env = \<lparr>re_now = 50, re_rand = (7, 9), re_shuffle = rev, re_beyond = [0]\<rparr>"

definition sample_join :: msg_join_lobby where
  "sample_join = \<lparr>jl_name = 97 # replicate 15 0\<rparr>"

definition join_event :: "int \<Rightarrow> net_event" where
  "join_event fd = TcpReadable fd sample_env [RecvBytes (frame_image (message_type_byte JoinLobby) (wire_join_lobby sample_join))]"

definition listening :: net_server where
  "listening = serve_event (AcceptReady [6, 7])
     (snd (server_start (Started 3 7777 4 7777 5 0) (NetServer InboundQueue OutboundQueue 3000)))"

definition one_joined :: net_server where
  "one_joined = serve_event (join_event 6) listening"

definition two_joined :: net_server where
  "two_joined = serve_event (join_event 7) one_joined"

lemma serve_one_frame:
  assumes "length payload \<le> kTcpFrameCapBytes"
  shows "serve_frames env fd (frame_image ty payload) 0 ns = (3 + length payload, False, serve_frame env fd ty payload ns)"
proof -
  have "recv_framed (frame_image ty payload) = Frame ty payload (3 + length payload)"
    using recv_framed_image [OF assms, of ty "[]"] by simp
  moreover have "serve_frames env fd (frame_image ty payload) (3 + length payload) ns' = (3 + length payload, False, ns')" for ns'
    by (subst serve_frames.simps) (simp add: config_defs)
  ultimately show ?thesis using assms by (subst serve_frames.simps) (simp add: config_defs kAccumCap_def)
qed

lemma sample_frame:
  "serve_frames env fd (frame_image (message_type_byte JoinLobby) (wire_join_lobby sample_join)) 0 ns
     = (19, False, on_join_lobby env fd sample_join ns)"
proof -
  have "received decode_join_lobby (wire_join_lobby sample_join) = Some sample_join"
    using join_lobby.decode_wire [of sample_join "[]"] by (simp add: received_def sample_join_def valid_join_lobby_def kNameBytes_def)
  moreover have "length (wire_join_lobby sample_join) = 16" by (simp add: wire_join_lobby_def sample_join_def)
  ultimately show ?thesis using serve_one_frame [of "wire_join_lobby sample_join"] by (simp add: config_defs serve_frame_def)
qed

lemma sample_served:
  assumes "net_inv ns" "find_by_fd (ns_registry ns) fd = None" "0 \<le> fd" "ns_pre_join ns fd = None"
    and "first_free 0 (ns_registry ns) = k" "k < kMaxPlayers" "\<not> lb_in_progress (ns_lobby ns)"
  shows "\<exists>t. net_view (serve_event (join_event fd) ns) =
      (put_slot k (fd, word_of_nat k, t) (reg_view (ns_registry ns)), snd (add_player (word_of_nat k) (ns_lobby ns)), ns_tcp_in ns,
       dom (poll_watched (ns_poller ns)))
    \<and> (\<forall>fd'. fd' \<noteq> fd \<longrightarrow> ns_pre_join (serve_event (join_event fd) ns) fd' = ns_pre_join ns fd')"
proof -
  let ?frame = "frame_image (message_type_byte JoinLobby) (wire_join_lobby sample_join)"
  define ns0 where "ns0 = ns\<lparr>ns_pre_join := (ns_pre_join ns)(fd \<mapsto> ?frame)\<rparr>"
  have len: "length ?frame = 19" by (simp add: frame_image_def wire_join_lobby_def sample_join_def)
  let ?ns = "on_join_lobby sample_env fd sample_join ns0"
  have accum: "accum_for fd ns = (PreJoin fd, ns\<lparr>ns_pre_join := (ns_pre_join ns)(fd \<mapsto> [])\<rparr>)"
    using assms(2,4) by (simp add: accum_for_def)
  have served: "serve_event (join_event fd) ns = set_accum (PreJoin fd) (drop 19 (get_accum (PreJoin fd) ?ns)) ?ns"
    using sample_frame [of sample_env fd ns0] len
    by (simp add: join_event_def handle_tcp_readable_def accum get_accum_def set_accum_def ns0_def kAccumCap_def
      kTcpFrameCapBytes_def kChunkBytes_def Let_def del: message_type_byte.simps)
  have inv: "net_inv ns0" "find_by_fd (ns_registry ns0) fd = None" using assms(1,2) by (simp_all add: ns0_def net_inv_def net_view_def)
  from inv assms(3) show ?thesis
  proof (cases rule: join_cases [where env = sample_env and m = sample_join])
    case full
    then show ?thesis using assms(5,6) by (simp add: ns0_def)
  next
    case (refused e)
    then show ?thesis using assms(7) by (simp add: ns0_def)
  next
    case (joined lob e)
    have "net_view ?ns = (put_slot k (fd, word_of_nat k, ce_session_token e) (reg_view (ns_registry ns)), lob, ns_tcp_in ns, dom (poll_watched (ns_poller ns)))"
      using assms(5) unfolding joined(5) view_lobby_broadcast view_send_frame by (simp add: net_view_def reg_view_put ns0_def joined(4) fresh_entry_def)
    moreover have "ns_pre_join ?ns = ns_pre_join ns0" unfolding joined(5) by simp
    ultimately show ?thesis unfolding served using joined(3) assms(5) by (auto simp: set_accum_def net_view_def ns0_def)
  qed
qed

lemma nothing_watched: "dom (poll_watched []) = {}"
  by (simp add: dom_def poll_watched_rec)

lemmas sample_dom = NetServer_def pollp.dom_add nothing_watched

lemma listening_reachable: "net_reachable listening"
  unfolding listening_def
  by (rule net_reachable.accepted [OF net_reachable.started [of 3 7777 4 7777 5 0 InboundQueue OutboundQueue 3000]])
    (simp_all add: sample_dom)

lemma listening_view: "net_view listening = ([], Lobby, replicate kMaxPlayers [], {3, 4, 5, 6, 7})" "ns_pre_join listening = Map.empty"
  by (auto simp: listening_def net_view_def reg_view_def accept_new_clients_def sample_dom ClientRegistry_def)

lemma one_joined_view:
  "\<exists>t. net_view one_joined = ([(6, 0, t)], snd (add_player 0 Lobby), replicate kMaxPlayers [], {3, 4, 5, 6, 7})"
  "ns_pre_join one_joined 7 = None"
proof -
  have reg: "ns_registry listening = []" "ns_lobby listening = Lobby"
    using listening_view(1) by (simp_all add: net_view_def reg_view_def)
  have "\<exists>t. net_view one_joined = ([(6, 0, t)], snd (add_player 0 Lobby), replicate kMaxPlayers [], {3, 4, 5, 6, 7})
      \<and> (\<forall>fd'. fd' \<noteq> 6 \<longrightarrow> ns_pre_join one_joined fd' = ns_pre_join listening fd')"
    unfolding one_joined_def
    using sample_served [OF net_reachable_inv [OF listening_reachable], of 6 0] listening_view reg
    by (simp add: net_view_def find_by_fd_def Lobby_def kMaxPlayers_def put_slot_def reg_view_def first_free_def)
  then show "\<exists>t. net_view one_joined = ([(6, 0, t)], snd (add_player 0 Lobby), replicate kMaxPlayers [], {3, 4, 5, 6, 7})"
    "ns_pre_join one_joined 7 = None" using listening_view(2) by auto
qed

lemma one_joined_reachable: "net_reachable one_joined"
  unfolding one_joined_def join_event_def
  by (rule net_reachable.readable [OF listening_reachable]) (use listening_view(1) in \<open>simp add: net_view_def\<close>)

lemma two_joined_reachable: "net_reachable two_joined"
  unfolding two_joined_def join_event_def
  by (rule net_reachable.readable [OF one_joined_reachable]) (use one_joined_view(1) in \<open>auto simp: net_view_def\<close>)

lemma two_joined_view:
  "\<exists>t t'. reg_view (ns_registry two_joined) = [(6, 0, t), (7, 1, t')]"
  "lb_player_ids (ns_lobby two_joined) = [0, 1]" "lb_host_id (ns_lobby two_joined) = 0" "\<not> lb_in_progress (ns_lobby two_joined)"
    "ns_tcp_in two_joined = replicate kMaxPlayers []" "dom (poll_watched (ns_poller two_joined)) = {3, 4, 5, 6, 7}"
proof -
  obtain t where v: "net_view one_joined = ([(6, 0, t)], snd (add_player 0 Lobby), replicate kMaxPlayers [], {3, 4, 5, 6, 7})"
    using one_joined_view(1) by blast
  then obtain e where e: "ns_registry one_joined = [e]" "ce_tcp_fd e = 6" by (auto simp: net_view_def reg_view_def)
  have lob: "ns_lobby one_joined = snd (add_player 0 Lobby)" using v by (simp add: net_view_def)
  have tin: "ns_tcp_in one_joined = replicate kMaxPlayers []" "dom (poll_watched (ns_poller one_joined)) = {3, 4, 5, 6, 7}"
    using v by (simp_all add: net_view_def)
  have view: "reg_view (ns_registry one_joined) = [(6, 0, t)]" using v by (simp add: net_view_def)
  have "\<exists>t'. net_view two_joined = ([(6, 0, t), (7, 1, t')], snd (add_player 1 (snd (add_player 0 Lobby))), replicate kMaxPlayers [], {3, 4, 5, 6, 7})"
    unfolding two_joined_def
    using sample_served [OF net_reachable_inv [OF one_joined_reachable], of 7 1] e one_joined_view(2)
    unfolding lob tin view
    by (auto simp: find_by_fd_def Lobby_def add_player_def kMaxPlayers_def put_slot_def kFreeFd_def first_free_def)
  then show "\<exists>t t'. reg_view (ns_registry two_joined) = [(6, 0, t), (7, 1, t')]"
    "lb_player_ids (ns_lobby two_joined) = [0, 1]" "lb_host_id (ns_lobby two_joined) = 0" "\<not> lb_in_progress (ns_lobby two_joined)"
    "ns_tcp_in two_joined = replicate kMaxPlayers []" "dom (poll_watched (ns_poller two_joined)) = {3, 4, 5, 6, 7}"
    by (auto simp: net_view_def Lobby_def add_player_def kMaxPlayers_def)
qed

section \<open>Properties\<close>

text \<open>
  C11 (invariant): in every state the network thread can reach, connections, registry and lobby
  agree. Each connected client has its own descriptor, which the poller watches, a non-zero session
  token and the id of its slot; the lobby's roster is exactly the set of connected ids; and a slot
  without a client keeps no bytes received from an earlier one.
\<close>

theorem roster_matches_connections:
  assumes "net_reachable ns"
  defines "reg \<equiv> ns_registry ns"
  shows "set (lb_player_ids (ns_lobby ns)) = {word_of_nat i | i. i < length reg \<and> 0 \<le> ce_tcp_fd (reg ! i)}
    \<and> distinct (lb_player_ids (ns_lobby ns)) \<and> length reg \<le> kMaxPlayers
    \<and> (\<forall>i < length reg. 0 \<le> ce_tcp_fd (reg ! i) \<longrightarrow>
         ce_player_id (reg ! i) = word_of_nat i \<and> ce_session_token (reg ! i) \<noteq> 0
         \<and> ce_tcp_fd (reg ! i) \<in> dom (poll_watched (ns_poller ns))
         \<and> (\<forall>j < length reg. ce_tcp_fd (reg ! j) = ce_tcp_fd (reg ! i) \<longrightarrow> j = i))
    \<and> (\<forall>i < kMaxPlayers. i < length reg \<and> 0 \<le> ce_tcp_fd (reg ! i) \<or> ns_tcp_in ns ! i = [])"
proof -
  from net_reachable_inv [OF assms(1)] have inv: "view_inv (reg_view reg, ns_lobby ns, ns_tcp_in ns, dom (poll_watched (ns_poller ns)))"
    by (simp add: net_inv_def net_view_def reg_def)
  then have slots: "slots_inv (reg_view reg)" by (simp add: view_inv_def)
  from inv have "\<forall>i \<in> live (reg_view reg). ce_tcp_fd (reg ! i) \<in> dom (poll_watched (ns_poller ns)) \<and> ce_session_token (reg ! i) \<noteq> 0"
    by (auto simp: view_inv_def live_reg_view)
  moreover have "j = i" if "i < length reg" "0 \<le> ce_tcp_fd (reg ! i)" "j < length reg" "ce_tcp_fd (reg ! j) = ce_tcp_fd (reg ! i)" for i j
    using slots that by (auto simp: slots_inv_def inj_on_def live_reg_view)
  moreover have "ce_player_id (reg ! i) = word_of_nat i" if "i < length reg" "0 \<le> ce_tcp_fd (reg ! i)" for i
    using live_lt [OF slots, of i] that by (simp add: live_reg_view)
  ultimately show ?thesis
    using inv by (auto simp: view_inv_def lobby_inv_def slots_inv_def live_reg_view)
qed

theorem roster_matches_connections_witness:
  "net_reachable two_joined \<and> distinct (lb_player_ids (ns_lobby two_joined))
   \<and> length (ns_registry two_joined) = 2 \<and> ce_player_id (ns_registry two_joined ! 1) = 1
   \<and> ce_session_token (ns_registry two_joined ! 1) \<noteq> 0 \<and> 7 \<in> dom (poll_watched (ns_poller two_joined))"
proof -
  obtain t t' where "reg_view (ns_registry two_joined) = [(6, 0, t), (7, 1, t')]" using two_joined_view(1) by blast
  then have "length (ns_registry two_joined) = 2" "ce_tcp_fd (ns_registry two_joined ! 1) = 7" by (auto simp: reg_view_def)
  moreover note roster = roster_matches_connections [OF two_joined_reachable]
  moreover from roster have "1 < length (ns_registry two_joined) \<longrightarrow> 0 \<le> ce_tcp_fd (ns_registry two_joined ! 1) \<longrightarrow>
      ce_player_id (ns_registry two_joined ! 1) = word_of_nat 1 \<and> ce_session_token (ns_registry two_joined ! 1) \<noteq> 0
      \<and> ce_tcp_fd (ns_registry two_joined ! 1) \<in> dom (poll_watched (ns_poller two_joined))" by blast
  ultimately show ?thesis using two_joined_reachable by simp
qed

end
