(* ===== verification/Net_Server_Props.thy ===== *)
theory Net_Server_Props
  imports Net_Server_Inv
begin

text \<open>
  What the network thread promises to the clients and to the simulation: which datagrams become
  commands, how a join is answered, what a departure and a start of the match announce, and whom
  the silence detector removes.
\<close>

section \<open>Datagrams\<close>

lemma auth_Some:
  "auth_udp_sender src pid token reg = Some i \<longleftrightarrow>
     find_by_id reg pid = Some i \<and> ce_session_token (reg ! i) = token
     \<and> (ce_has_udp_addr (reg ! i) \<longrightarrow> ce_udp_addr (reg ! i) = src)"
  by (auto simp: auth_udp_sender_def prod_eq_iff split: option.splits if_splits)

lemma push_all: "in_items (fold (\<lambda>i. inbound_push (f i)) is q) = in_items q @ map f is"
  by (induction "is" arbitrary: q) (simp_all add: inq.items_push)

lemma player_input_items:
  "in_items (ns_inbound (on_player_input now src m ns)) = in_items (ns_inbound ns) @
     (case auth_udp_sender src (pi_player_id m) (pi_session_token m) (ns_registry ns) of
        None \<Rightarrow> []
      | Some i \<Rightarrow> let cnt = (if unat (pi_count m) < kInputRedundancy then pi_count m else word_of_nat kInputRedundancy)
                 in map (input_command m cnt) [0..<unat cnt])"
  by (simp add: on_player_input_def Let_def push_all upd_entry_def split: option.split)

lemma hello_inbound: "ns_inbound (on_udp_hello now src m ns) = ns_inbound ns"
  by (simp add: on_udp_hello_def upd_entry_def split: option.split)

lemma udp_packet_cases:
  "ns_inbound (on_udp_packet now src data ns) = ns_inbound ns
   \<or> (\<exists>m. received decode_player_input (drop kUdpHeaderBytes data) = Some m \<and> on_udp_packet now src data ns = on_player_input now src m ns)"
  by (auto simp: on_udp_packet_def Let_def hello_inbound split: option.splits if_splits)

section \<open>Frames the server writes\<close>

lemma frame_length_bytes:
  assumes "n < 65536"
  shows "(word_of_nat (n div 256) :: u8) = ucast (drop_bit 8 (word_of_nat n :: u16))"
    "(word_of_nat (n mod 256) :: u8) = ucast (word_of_nat n :: u16)"
proof -
  have n: "unat (word_of_nat n :: u16) = n" using assms by (simp add: unsigned_of_nat take_bit_nat_eq_self)
  have "unat (drop_bit 8 (word_of_nat n :: u16)) = n div 256"
    unfolding unat_drop_bit_eq n by (simp add: drop_bit_eq_div)
  then have "unat (ucast (drop_bit 8 (word_of_nat n :: u16)) :: u8) = n div 256 mod 256"
    unfolding unsigned_ucast_eq by (simp add: take_bit_eq_mod)
  then show "(word_of_nat (n div 256) :: u8) = ucast (drop_bit 8 (word_of_nat n :: u16))"
    by (intro word_unat_eq_iff [THEN iffD2]) (simp add: unsigned_of_nat take_bit_eq_mod)
  show "(word_of_nat (n mod 256) :: u8) = ucast (word_of_nat n :: u16)"
    using n by (intro word_unat_eq_iff [THEN iffD2]) (simp add: unsigned_ucast_eq unsigned_of_nat take_bit_eq_mod)
qed

lemma generic_frame:
  assumes "length (sent_bytes 512 enc) \<le> 512"
  shows "ns_tcp_sent (send_frame_generic fd ty enc ns) =
    ns_tcp_sent ns @ [(fd, frame_image (message_type_byte ty) (sent_bytes 512 enc))]"
  using assms frame_length_bytes [of "length (sent_bytes 512 enc)"]
  by (simp add: send_frame_generic_def frame_image_def Let_def)

lemma event_frame: "frame_event_payload (ty # payload) = frame_image ty payload"
  by (simp add: frame_event_payload_def frame_image_def Let_def)

section \<open>The lobby message\<close>

lemma length_snprintf [simp]: "length (snprintf_name name) = kNameBytes"
proof -
  have "length (take (kNameBytes - 1) xs) \<le> kNameBytes" for xs :: "u8 list" by simp
  then show ?thesis by (simp add: snprintf_name_def Let_def)
qed

abbreviation connected :: "client_entry list \<Rightarrow> client_entry list" where
  "connected \<equiv> filter (\<lambda>e. 0 \<le> ce_tcp_fd e)"

text \<open>The loop of \<open>broadcast_lobby_state\<close> lists the connected entries from the current count on.\<close>

lemma fill_lobby_result:
  assumes "n + length (connected es) \<le> kMaxPlayers" "ls_player_count st = word_of_nat n"
    "length (ls_ids st) = kMaxPlayers" "length (ls_names st) = kMaxPlayers"
  shows "fill_lobby es st = st\<lparr>ls_player_count := word_of_nat (n + length (connected es)),
    ls_ids := update_range (ls_ids st) n (map ce_player_id (connected es)),
    ls_names := update_range (ls_names st) n (map (\<lambda>e. snprintf_name (ce_name e)) (connected es))\<rparr>"
  using assms
proof (induction es arbitrary: n st)
  case Nil
  then show ?case by (cases st) simp
next
  case (Cons e es)
  show ?case
  proof (cases "0 \<le> ce_tcp_fd e")
    case False
    then show ?thesis using Cons by simp
  next
    case True
    let ?st = "st\<lparr>ls_ids := (ls_ids st)[n := ce_player_id e], ls_names := (ls_names st)[n := snprintf_name (ce_name e)],
      ls_player_count := ls_player_count st + 1\<rparr>"
    have n: "n < kMaxPlayers" "unat (ls_player_count st) = n"
      using Cons.prems True slot_word [of n] by simp_all
    have "fill_lobby es ?st = ?st\<lparr>ls_player_count := word_of_nat (Suc n + length (connected es)),
        ls_ids := update_range (ls_ids ?st) (Suc n) (map ce_player_id (connected es)),
        ls_names := update_range (ls_names ?st) (Suc n) (map (\<lambda>e. snprintf_name (ce_name e)) (connected es))\<rparr>"
      using Cons.prems True by (intro Cons.IH) simp_all
    then show ?thesis using True n by (simp add: Let_def)
  qed
qed

lemma connected_le: "reg_inv reg \<Longrightarrow> length (connected reg) \<le> kMaxPlayers"
  using length_filter_le [of _ reg] by (meson order_trans reg_inv_def)

lemma lobby_message_result:
  assumes "reg_inv (ns_registry ns)"
  defines "es \<equiv> connected (ns_registry ns)"
  shows "lobby_message ns = \<lparr>ls_player_count = word_of_nat (length es),
    ls_ids = update_range (replicate kMaxPlayers 0) 0 (map ce_player_id es),
    ls_names = update_range (replicate kMaxPlayers (replicate kNameBytes 0)) 0 (map (\<lambda>e. snprintf_name (ce_name e)) es),
    ls_host_id = lb_host_id (ns_lobby ns)\<rparr>"
  using fill_lobby_result [of 0 "ns_registry ns" default_lobby_state] connected_le [OF assms(1)]
  by (simp add: lobby_message_def default_lobby_state_def es_def)

lemma lobby_message_valid:
  assumes "reg_inv (ns_registry ns)"
  shows "valid_lobby_state (lobby_message ns)" "length (wire_lobby_state (lobby_message ns)) \<le> 600"
    "norm_lobby_state (lobby_message ns) = lobby_message ns"
proof -
  let ?es = "connected (ns_registry ns)"
  have n: "length ?es \<le> kMaxPlayers" using connected_le [OF assms] .
  then have c: "unat (word_of_nat (length ?es) :: u8) = length ?es" by (simp add: unsigned_of_nat take_bit_nat_eq_self config_defs)
  note msg = lobby_message_result [OF assms] update_range_0
  show "valid_lobby_state (lobby_message ns)" using n c by (auto simp: msg valid_lobby_state_def)
  show "norm_lobby_state (lobby_message ns) = lobby_message ns"
    using n c by (simp add: msg norm_lobby_state_def default_lobby_state_def Let_def)
  have "length (concat (map (\<lambda>i. ls_ids (lobby_message ns) ! i # ls_names (lobby_message ns) ! i) [0..<length ?es])) \<le> 17 * length ?es"
  proof -
    have "length (ls_names (lobby_message ns) ! i) = kNameBytes" if "i < length ?es" for i
      using that n by (simp add: msg nth_append)
    then have "\<forall>i \<in> set [0..<length ?es]. length (ls_ids (lobby_message ns) ! i # ls_names (lobby_message ns) ! i) = 17"
      by (simp add: kNameBytes_def)
    then have "map (\<lambda>i. length (ls_ids (lobby_message ns) ! i # ls_names (lobby_message ns) ! i)) [0..<length ?es] = map (\<lambda>_. 17) [0..<length ?es]"
      by (intro map_cong) auto
    then show ?thesis unfolding length_concat map_map comp_def by (simp only: sum_list_triv map_replicate_trivial length_upt) (simp add: sum_list_replicate map_replicate_const)
  qed
  then show "length (wire_lobby_state (lobby_message ns)) \<le> 600"
    using n c by (simp add: wire_lobby_state_def) (simp add: msg config_defs)
qed

lemma lobby_frame:
  assumes "reg_inv (ns_registry ns)"
  shows "ns_registry (broadcast_lobby_state ns) = snd (broadcast_tcp_event
    (frame_image (message_type_byte LobbyState) (wire_lobby_state (lobby_message ns))) (ns_registry ns))"
  using lobby_state.encode_fits(2) [OF lobby_message_valid(1) [OF assms], of 600 "replicate 600 0"] lobby_message_valid(2) [OF assms]
  by (simp add: broadcast_lobby_state_def Let_def event_frame sent_bytes_def)

section \<open>Joining and leaving\<close>

lemma find_by_fd_view: "reg_view reg = reg_view reg' \<Longrightarrow> find_by_fd reg fd = find_by_fd reg' fd"
proof -
  assume eq: "reg_view reg = reg_view reg'"
  then have len: "length reg = length reg'" by (metis reg_view_nth(1))
  have "ce_tcp_fd (reg ! i) = ce_tcp_fd (reg' ! i)" if "i < length reg" for i
    using eq that len reg_view_nth(2) by (metis fst_conv)
  then show ?thesis unfolding find_by_fd_def using len by (intro find_cong) auto
qed

lemma find_put_other:
  assumes "find_by_fd reg fd = None" "k \<le> length reg" "ce_tcp_fd e \<noteq> fd"
  shows "find_by_fd (put_slot k e reg) fd = None"
  using assms put_slot_props [OF assms(2), where x = e] unfolding find_by_fd_None by metis

lemma find_put_same:
  assumes "find_by_fd reg fd = None" "k \<le> length reg" "ce_tcp_fd e = fd"
  shows "find_by_fd (put_slot k e reg) fd = Some k"
proof -
  have "\<forall>j < k. ce_tcp_fd (put_slot k e reg ! j) \<noteq> fd"
    using assms put_slot_props(3) [OF assms(2), of _ e] by (auto simp: find_by_fd_None)
  then show ?thesis unfolding find_by_fd_def find_Some_iff
    using put_slot_props(1,2) [OF assms(2), of e] assms(3) by (intro exI [of _ k]) (simp add: less_max_iff_disj)
qed

lemma all_slots_used:
  assumes "reg_inv reg"
  shows "kMaxPlayers \<le> first_free 0 reg \<longleftrightarrow> live_count reg = kMaxPlayers"
proof -
  let ?k = "first_free 0 reg"
  note spec = first_free_spec [OF refl, of reg]
  have len: "length reg \<le> kMaxPlayers" using assms by (simp add: reg_inv_def)
  have "live_count reg = kMaxPlayers" if "kMaxPlayers \<le> ?k"
  proof -
    have "length reg = kMaxPlayers" "\<forall>j < length reg. ce_tcp_fd (reg ! j) \<noteq> kFreeFd" using that spec len by auto
    then show ?thesis by (auto simp: live_count_def filter_True all_set_conv_all_nth)
  qed
  moreover have "live_count reg < kMaxPlayers" if "?k < kMaxPlayers"
    using that spec len live_count_lt [of ?k reg] order_le_less_trans [OF length_filter_le, of reg kMaxPlayers]
    by (cases "?k < length reg") (auto simp: live_count_def)
  ultimately show ?thesis by linarith
qed

lemma reject_frame:
  "ns_tcp_sent (send_frame_generic fd JoinReject (encode_join_reject m) ns) =
     ns_tcp_sent ns @ [(fd, frame_image (message_type_byte JoinReject) (wire_join_reject m))]"
  using generic_frame [of "encode_join_reject m"] join_reject.encode_fits(2) [where m = m and cap = 512 and buf = "replicate 512 0"]
  by (simp add: sent_bytes_def wire_join_reject_def)

lemma accept_frame:
  "ns_tcp_sent (send_frame_generic fd JoinAccept (encode_join_accept m) ns) =
     ns_tcp_sent ns @ [(fd, frame_image (message_type_byte JoinAccept) (wire_join_accept m))]"
  using generic_frame [of "encode_join_accept m"] join_accept.encode_fits(2) [where m = m and cap = 512 and buf = "replicate 512 0"]
  by (simp add: sent_bytes_def wire_join_accept_def)

lemma tcp_sent_broadcast [simp]: "ns_tcp_sent (broadcast_lobby_state ns) = ns_tcp_sent ns"
  by (simp add: broadcast_lobby_state_def Let_def)

lemma send_frame_frame [simp]:
  "ns_registry (send_frame_generic fd ty enc ns) = ns_registry ns" "ns_lobby (send_frame_generic fd ty enc ns) = ns_lobby ns"
  by (simp_all add: send_frame_generic_def Let_def)

lemma lobby_broadcast [simp]:
  "ns_lobby (broadcast_lobby_state ns) = ns_lobby ns" "ns_inbound (broadcast_lobby_state ns) = ns_inbound ns"
  by (simp_all add: broadcast_lobby_state_def Let_def)

section \<open>Starting a match\<close>

definition join_command :: "team \<Rightarrow> u8 \<Rightarrow> nat \<Rightarrow> inbound_command" where
  "join_command team pid k = default_inbound_command\<lparr>ic_type := CmdPlayerJoined, ic_player_id := pid,
     ic_team := team, ic_spawn_index := word_of_nat k\<rparr>"

definition side_commands :: "team \<Rightarrow> u8 list \<Rightarrow> nat \<Rightarrow> inbound_command list" where
  "side_commands team ids k = map2 (join_command team) ids [k..<k + length ids]"

definition side_spawn :: "team \<Rightarrow> nat \<Rightarrow> vec2" where
  "side_spawn team k = (if team = Blue then kBlueSpawnPoints else kRedSpawnPoints) ! k"

lemma side_commands_Cons: "side_commands team (pid # ids) k = join_command team pid k # side_commands team ids (Suc k)"
  by (simp add: side_commands_def upt_conv_Cons del: upt_Suc)

text \<open>One side in closed form: its players are written behind those already listed.\<close>

lemma add_side_result:
  assumes "n + length ids \<le> kMaxPlayers" "gs_player_count gs = word_of_nat n" "k + length ids \<le> kMaxPlayers"
  shows "add_side team ids k (gs, q) =
    (gs\<lparr>gs_player_count := word_of_nat (n + length ids), gs_ids := update_range (gs_ids gs) n ids,
        gs_teams := update_range (gs_teams gs) n (replicate (length ids) team),
        gs_spawn_points := update_range (gs_spawn_points gs) n (map (side_spawn team) [k..<k + length ids])\<rparr>,
     fold inbound_push (side_commands team ids k) q)"
  using assms
proof (induction ids arbitrary: n k gs q)
  case Nil
  then show ?case by (cases gs) (simp add: side_commands_def)
next
  case (Cons pid ids)
  let ?gs = "gs\<lparr>gs_ids := (gs_ids gs)[n := pid], gs_teams := (gs_teams gs)[n := team],
    gs_spawn_points := (gs_spawn_points gs)[n := side_spawn team k], gs_player_count := gs_player_count gs + 1\<rparr>"
  have n: "n < kMaxPlayers" "unat (gs_player_count gs) = n" "unat (word_of_nat k :: u8) = k"
    using Cons.prems slot_word [of n] slot_word [of k] by simp_all
  have step: "add_side team (pid # ids) k (gs, q) = add_side team ids (Suc k) (?gs, inbound_push (join_command team pid k) q)"
    using n by (simp add: Let_def side_spawn_def join_command_def)
  have "add_side team ids (Suc k) (?gs, inbound_push (join_command team pid k) q) =
    (?gs\<lparr>gs_player_count := word_of_nat (Suc n + length ids), gs_ids := update_range (gs_ids ?gs) (Suc n) ids,
        gs_teams := update_range (gs_teams ?gs) (Suc n) (replicate (length ids) team),
        gs_spawn_points := update_range (gs_spawn_points ?gs) (Suc n) (map (side_spawn team) [Suc k..<Suc k + length ids])\<rparr>,
     fold inbound_push (side_commands team ids (Suc k)) (inbound_push (join_command team pid k) q))"
    using Cons.prems by (intro Cons.IH) simp_all
  then show ?case unfolding step side_commands_Cons by (simp add: upt_conv_Cons del: upt_Suc)
qed

definition start_message :: "u8 list \<Rightarrow> u8 list \<Rightarrow> msg_game_start" where
  "start_message red blue = (let n = length red + length blue in
     \<lparr>gs_player_count = word_of_nat n, gs_ids = (red @ blue) @ replicate (kMaxPlayers - n) 0,
      gs_teams = (replicate (length red) Red @ replicate (length blue) Blue) @ replicate (kMaxPlayers - n) Red,
      gs_spawn_points = (map (side_spawn Red) [0..<length red] @ map (side_spawn Blue) [0..<length blue])
        @ replicate (kMaxPlayers - n) (Vec2Fixed 0 0), gs_start_tick = 0\<rparr>)"

lemma update_range_append: "update_range xs n (ys @ zs) = update_range (update_range xs n ys) (n + length ys) zs"
  by (induction ys arbitrary: xs n) simp_all

lemma sides_result:
  assumes "length red + length blue \<le> kMaxPlayers"
  shows "add_side Blue blue 0 (add_side Red red 0 (default_game_start\<lparr>gs_start_tick := 0\<rparr>, q)) =
    (start_message red blue, fold inbound_push (side_commands Red red 0 @ side_commands Blue blue 0) q)"
proof -
  have fuse: "update_range (update_range xs 0 ys) (length ys) zs = (ys @ zs) @ drop (length ys + length zs) xs"
    if "length ys + length zs \<le> length xs" for xs ys zs :: "'x list"
    using update_range_append [of xs 0 ys zs] update_range_0 [of "ys @ zs" xs] that by simp
  have "add_side Red red 0 (default_game_start\<lparr>gs_start_tick := 0\<rparr>, q) =
     (default_game_start\<lparr>gs_player_count := word_of_nat (length red), gs_ids := update_range (replicate kMaxPlayers 0) 0 red,
        gs_teams := update_range (replicate kMaxPlayers Red) 0 (replicate (length red) Red),
        gs_spawn_points := update_range (replicate kMaxPlayers (Vec2Fixed 0 0)) 0 (map (side_spawn Red) [0..<length red])\<rparr>,
      fold inbound_push (side_commands Red red 0) q)" (is "_ = (?gs, ?q)")
    using assms add_side_result [of 0 red "default_game_start\<lparr>gs_start_tick := 0\<rparr>" 0 Red q]
    by (simp add: default_game_start_def)
  moreover have "add_side Blue blue 0 (?gs, ?q) = (start_message red blue, fold inbound_push (side_commands Blue blue 0) ?q)"
    using assms add_side_result [of "length red" blue ?gs 0 Blue ?q]
      fuse [of red blue "replicate kMaxPlayers 0"]
      fuse [of "replicate (length red) Red" "replicate (length blue) Blue" "replicate kMaxPlayers Red"]
      fuse [of "map (side_spawn Red) [0..<length red]" "map (side_spawn Blue) [0..<length blue]" "replicate kMaxPlayers (Vec2Fixed 0 0)"]
    by (simp add: start_message_def default_game_start_def Let_def)
  ultimately show ?thesis by simp
qed

lemma start_message_valid:
  assumes "length red + length blue \<le> kMaxPlayers"
  shows "valid_game_start (start_message red blue)" "length (wire_game_start (start_message red blue)) \<le> 1200"
proof -
  have "unat (word_of_nat n :: u8) = n" if "n \<le> kMaxPlayers" for n
    using that by (simp add: unsigned_of_nat take_bit_nat_eq_self config_defs)
  note c = this [OF assms]
  then show "valid_game_start (start_message red blue)"
    using assms by (simp add: valid_game_start_def start_message_def Let_def)
  show "length (wire_game_start (start_message red blue)) \<le> 1200"
    using assms c by (simp add: wire_game_start_def start_message_def Let_def length_concat comp_def sum_list_triv config_defs)
qed

lemma side_commands_nth: "side_commands team ids 0 = map (\<lambda>k. join_command team (ids ! k) k) [0..<length ids]"
  by (rule nth_equalityI) (simp_all add: side_commands_def)

lemma begin_closed:
  assumes "\<not> lb_in_progress (ns_lobby ns)" "\<not> length (lb_player_ids (ns_lobby ns)) < 2"
    "length (lb_player_ids (ns_lobby ns)) \<le> kMaxPlayers"
    "mset (shuffle (lb_player_ids (ns_lobby ns))) = mset (lb_player_ids (ns_lobby ns))"
  shows "\<exists>red blue. mset red + mset blue = mset (lb_player_ids (ns_lobby ns)) \<and>
    begin_match_and_notify shuffle ns = ns\<lparr>ns_lobby := (ns_lobby ns)\<lparr>lb_in_progress := True\<rparr>,
        ns_inbound := fold inbound_push (side_commands Red red 0 @ side_commands Blue blue 0) (ns_inbound ns),
        ns_registry := snd (broadcast_tcp_event
          (frame_image (message_type_byte GameStart) (wire_game_start (start_message red blue))) (ns_registry ns))\<rparr>"
proof -
  let ?lob = "ns_lobby ns"
  have run: "begin_match ?lob = (True, ?lob\<lparr>lb_in_progress := True\<rparr>)" using assms by (simp add: begin_match_def)
  obtain red blue where rb: "assign_teams shuffle (?lob\<lparr>lb_in_progress := True\<rparr>) = (red, blue)" by fastforce
  have perm: "mset red + mset blue = mset (lb_player_ids ?lob)"
    using deal_prefix [OF order_refl, of "shuffle (lb_player_ids ?lob)"] rb assms(4)
    by (simp add: assign_teams_def Let_def split: prod.splits)
  then have "length red + length blue = length (lb_player_ids ?lob)" by (metis size_mset size_union)
  then have len: "length red + length blue \<le> kMaxPlayers" using assms(3) by simp
  have "begin_match_and_notify shuffle ns = ns\<lparr>ns_lobby := (ns_lobby ns)\<lparr>lb_in_progress := True\<rparr>,
        ns_inbound := fold inbound_push (side_commands Red red 0 @ side_commands Blue blue 0) (ns_inbound ns),
        ns_registry := snd (broadcast_tcp_event
          (frame_image (message_type_byte GameStart) (wire_game_start (start_message red blue))) (ns_registry ns))\<rparr>"
    using game_start.encode_fits(2) [OF start_message_valid(1) [OF len], of 1200 "replicate 1200 0"] start_message_valid(2) [OF len]
    by (simp add: begin_match_and_notify_def run rb sides_result [OF len] event_frame sent_bytes_def)
  then show ?thesis using perm by blast
qed

section \<open>Departures\<close>

lemma fill_lobby_cong:
  assumes "map (\<lambda>e. (ce_tcp_fd e, ce_player_id e, ce_name e)) es = map (\<lambda>e. (ce_tcp_fd e, ce_player_id e, ce_name e)) es'"
  shows "fill_lobby es st = fill_lobby es' st"
  using assms
proof (induction es arbitrary: es' st)
  case Nil
  then show ?case by simp
next
  case (Cons e es)
  then obtain e' es'' where "es' = e' # es''" by (cases es') auto
  then show ?case using Cons by (simp add: Let_def)
qed

lemma lobby_message_after [simp]:
  assumes "reg_inv (ns_registry ns)"
  shows "lobby_message (broadcast_lobby_state ns) = lobby_message ns"
proof -
  have "map (\<lambda>e. (ce_tcp_fd e, ce_player_id e, ce_name e)) (snd (broadcast_tcp_event payload (ns_registry ns)))
      = map (\<lambda>e. (ce_tcp_fd e, ce_player_id e, ce_name e)) (ns_registry ns)" for payload
    using broadcast_entries(2,3) [OF assms] by (intro nth_equalityI) (simp_all add: append_pending_def)
  then have "fill_lobby (snd (broadcast_tcp_event payload (ns_registry ns))) st = fill_lobby (ns_registry ns) st" for payload st
    by (rule fill_lobby_cong)
  then show ?thesis by (simp add: lobby_message_def broadcast_lobby_state_def Let_def)
qed

lemma departed_frame [simp]:
  "ns_inbound (departed i ns) = ns_inbound ns" "ns_lobby (departed i ns) = remove_player (word_of_nat i) (ns_lobby ns)"
  "ns_registry (departed i ns) = (ns_registry ns)[i := (ns_registry ns ! i)\<lparr>ce_tcp_fd := -1\<rparr>]"
  by (simp_all add: departed_def)

lemma lobby_message_inbound [simp]: "lobby_message (ns\<lparr>ns_inbound := q\<rparr>) = lobby_message ns"
  by (simp add: lobby_message_def)

text \<open>A disconnect closes one slot and adds the new lobby state to every other connected client's output.\<close>

lemma disconnect_registry:
  fixes n :: bool
  assumes "net_inv ns" "i \<in> live (reg_view (ns_registry ns))"
  defines "ns' \<equiv> server_disconnect i n ns"
  shows "lobby_message ns' = lobby_message (departed i ns)"
    and "length (ns_registry ns') = length (ns_registry ns)"
    and "j < length (ns_registry ns) \<Longrightarrow> ns_registry ns' ! j =
      (if j = i then (ns_registry ns ! i)\<lparr>ce_tcp_fd := -1\<rparr>
       else if 0 \<le> ce_tcp_fd (ns_registry ns ! j)
       then append_pending (frame_image (message_type_byte LobbyState) (wire_lobby_state (lobby_message ns'))) (ns_registry ns ! j)
       else ns_registry ns ! j)"
proof -
  let ?reg = "(ns_registry ns)[i := (ns_registry ns ! i)\<lparr>ce_tcp_fd := -1\<rparr>]"
  have reg: "reg_inv ?reg" using reg_inv_closed [OF net_inv_reg [OF assms(1)], of i] by (simp add: kFreeFd_def)
  define m where "m = (if n \<and> lb_in_progress (ns_lobby ns)
    then (departed i ns)\<lparr>ns_inbound := inbound_push (left_command i) (ns_inbound ns)\<rparr> else departed i ns)"
  have ns': "ns' = broadcast_lobby_state m" using disconnect_closed [OF assms(1,2), of n] by (simp add: ns'_def m_def)
  have m: "ns_registry m = ?reg" "lobby_message m = lobby_message (departed i ns)" by (simp_all add: m_def)
  show msg: "lobby_message ns' = lobby_message (departed i ns)" unfolding ns' using lobby_message_after [of m] reg m by simp
  show len: "length (ns_registry ns') = length (ns_registry ns)" by (simp add: ns'_def)
  show "ns_registry ns' ! j =
      (if j = i then (ns_registry ns ! i)\<lparr>ce_tcp_fd := -1\<rparr>
       else if 0 \<le> ce_tcp_fd (ns_registry ns ! j)
       then append_pending (frame_image (message_type_byte LobbyState) (wire_lobby_state (lobby_message ns'))) (ns_registry ns ! j)
       else ns_registry ns ! j)" if "j < length (ns_registry ns)"
    using that lobby_frame [of m] reg broadcast_entries(3) [OF reg, of j] unfolding msg ns' m(1) m(2)
    by (simp add: nth_list_update m(1,2))
qed

section \<open>Silence\<close>

definition silent :: "net_server \<Rightarrow> nat \<Rightarrow> bool" where
  "silent ns i \<longleftrightarrow> ns_last_silence_check_ms ns - ce_last_input_tick (ns_registry ns ! i) > word_of_int (ns_udp_silence_ms ns)"

lemma disconnect_clock [simp]:
  "ns_last_silence_check_ms (server_disconnect i n ns) = ns_last_silence_check_ms ns"
  "ns_udp_silence_ms (server_disconnect i n ns) = ns_udp_silence_ms ns"
  by (simp_all add: server_disconnect_def broadcast_lobby_state_def upd_entry_def Let_def)

lemma silence_step:
  assumes "net_inv ns" "i < length (ns_registry ns)"
  shows "silence_check i ns = (if i \<in> live (reg_view (ns_registry ns)) \<and> silent ns i then server_disconnect i True ns else ns)"
  using find_live(1) [OF net_inv_reg [OF assms(1)] assms(2)] assms(2)
  by (auto simp: silence_check_def silent_def live_reg_view Let_def)

lemma silence_loop:
  assumes "net_inv ns" "distinct is" "\<forall>i \<in> set is. i < length (ns_registry ns)"
  shows "live (reg_view (ns_registry (fold silence_check is ns))) =
    {i \<in> live (reg_view (ns_registry ns)). \<not> (i \<in> set is \<and> silent ns i)}"
  using assms
proof (induction "is" arbitrary: ns)
  case Nil
  then show ?case by simp
next
  case (Cons i "is")
  let ?v = "reg_view (ns_registry ns)"
  show ?case
  proof (cases "i \<in> live ?v \<and> silent ns i")
    case False
    then show ?thesis using Cons by (auto simp: silence_step)
  next
    case True
    let ?ns = "server_disconnect i True ns"
    note reg = disconnect_registry(2,3) [where ns = ns and i = i and n = True, OF Cons.prems(1) conjunct1 [OF True]]
    have live: "live (reg_view (ns_registry ?ns)) = live ?v - {i}"
      using True reg by (auto simp: live_reg_view append_pending_def split: if_splits)
    have same: "silent ?ns j = silent ns j" if "j \<in> live ?v" "j \<noteq> i" for j
      using that True reg by (auto simp: silent_def live_reg_view append_pending_def)
    have "live (reg_view (ns_registry (fold silence_check is ?ns))) =
        {j \<in> live (reg_view (ns_registry ?ns)). \<not> (j \<in> set is \<and> silent ?ns j)}"
      using Cons.prems True by (intro Cons.IH inv_disconnect) simp_all
    then show ?thesis using True Cons.prems live same by (auto simp: silence_step)
  qed
qed

section \<open>Reading a joined connection\<close>








section \<open>Properties\<close>

text \<open>
  C10 (safety): only authenticated inputs reach the simulation. Whatever bytes a datagram holds, the
  commands it adds to the queue are at most three inputs of one connected client, and the datagram
  carried that client's session token and came from its UDP address, once that is known. Nothing is
  removed from the queue, and a datagram that authenticates nobody changes nothing at all.
\<close>

theorem only_authenticated_inputs_reach_the_sim:
  defines "sender src m ns \<equiv> auth_udp_sender src (pi_player_id m) (pi_session_token m) (ns_registry ns)"
  shows "\<exists>cmds. in_items (ns_inbound (on_udp_packet now src data ns)) = in_items (ns_inbound ns) @ cmds
    \<and> length cmds \<le> kInputRedundancy
    \<and> (cmds = [] \<or> (\<exists>m i. received decode_player_input (drop kUdpHeaderBytes data) = Some m
         \<and> find_by_id (ns_registry ns) (pi_player_id m) = Some i
         \<and> ce_session_token (ns_registry ns ! i) = pi_session_token m
         \<and> (ce_has_udp_addr (ns_registry ns ! i) \<longrightarrow> ce_udp_addr (ns_registry ns ! i) = src)
         \<and> (\<forall>c \<in> set cmds. ic_type c = CmdPlayerInput \<and> ic_player_id c = pi_player_id m)))
    \<and> ((\<forall>m. received decode_player_input (drop kUdpHeaderBytes data) = Some m \<longrightarrow> sender src m ns = None)
       \<and> (\<forall>m. received decode_udp_hello (drop kUdpHeaderBytes data) = Some m \<longrightarrow>
              auth_udp_sender src (hello_player_id m) (hello_session_token m) (ns_registry ns) = None)
       \<longrightarrow> on_udp_packet now src data ns = ns)"
proof -
  let ?pay = "drop kUdpHeaderBytes data"
  have three: "unat (if unat c < kInputRedundancy then c else word_of_nat kInputRedundancy :: u8) \<le> kInputRedundancy" for c
    by (simp add: config_defs)
  have unchanged: "on_udp_packet now src data ns = ns"
    if "\<forall>m. received decode_player_input ?pay = Some m \<longrightarrow> sender src m ns = None"
      "\<forall>m. received decode_udp_hello ?pay = Some m \<longrightarrow>
          auth_udp_sender src (hello_player_id m) (hello_session_token m) (ns_registry ns) = None"
    using that by (simp add: on_udp_packet_def on_udp_hello_def on_player_input_def sender_def Let_def split: option.split)
  consider (quiet) "ns_inbound (on_udp_packet now src data ns) = ns_inbound ns"
    | (input) m where "received decode_player_input ?pay = Some m" "on_udp_packet now src data ns = on_player_input now src m ns"
    using udp_packet_cases by blast
  then show ?thesis
  proof cases
    case quiet
    then show ?thesis using unchanged by (intro exI [of _ "[]"]) simp
  next
    case (input m)
    show ?thesis
    proof (cases "sender src m ns")
      case None
      then show ?thesis using unchanged input player_input_items [of now src m ns] sender_def
        by (intro exI [of _ "[]"]) simp
    next
      case (Some i)
      then have auth: "auth_udp_sender src (pi_player_id m) (pi_session_token m) (ns_registry ns) = Some i" by (simp add: sender_def)
      let ?cnt = "if unat (pi_count m) < kInputRedundancy then pi_count m else word_of_nat kInputRedundancy"
      have "in_items (ns_inbound (on_udp_packet now src data ns)) = in_items (ns_inbound ns) @ map (input_command m ?cnt) [0..<unat ?cnt]"
        using player_input_items [of now src m ns] auth by (simp only: input(2) option.case Let_def)
      moreover have "\<forall>c \<in> set (map (input_command m ?cnt) [0..<unat ?cnt]). ic_type c = CmdPlayerInput \<and> ic_player_id c = pi_player_id m"
        by (auto simp: input_command_def)
      ultimately show ?thesis
        using auth input(1) three [of "pi_count m"] unchanged auth_Some [of src _ _ "ns_registry ns" i]
        by (intro exI [of _ "map (input_command m ?cnt) [0..<unat ?cnt]"]) (auto simp: sender_def)
    qed
  qed
qed

theorem only_authenticated_inputs_reach_the_sim_witness:
  "on_udp_packet 60 (1, 2) [1, 2, 3] two_joined = two_joined"
proof -
  have "received decode_player_input (drop kUdpHeaderBytes [1, 2, 3]) = None" "received decode_udp_hello (drop kUdpHeaderBytes [1, 2, 3]) = None"
    by code_simp+
  then show ?thesis using only_authenticated_inputs_reach_the_sim [of 60 "(1, 2)" "[1, 2, 3]" two_joined] by auto
qed

text \<open>
  The answer to the first join request of a watched connection.
\<close>

lemma first_join_answered:
  assumes "net_reachable ns" "fd \<in> dom (poll_watched (ns_poller ns))" "find_by_fd (ns_registry ns) fd = None"
    and ns'_def: "ns' = on_join_lobby env fd m ns"
  defines "ids \<equiv> lb_player_ids (ns_lobby ns)"
  shows "\<exists>ty payload. ns_tcp_sent ns' = ns_tcp_sent ns @ [(fd, frame_image (message_type_byte ty) payload)] \<and>
    (if live_count (ns_registry ns) = kMaxPlayers \<or> lb_in_progress (ns_lobby ns) then
       ty = JoinReject \<and> find_by_fd (ns_registry ns') fd = None \<and> lb_player_ids (ns_lobby ns') = ids
       \<and> payload = wire_join_reject
           \<lparr>jr_reason = (if live_count (ns_registry ns) = kMaxPlayers then RejectFull else RejectInProgress)\<rparr>
     else \<exists>k token. ty = JoinAccept \<and> k = first_free 0 (ns_registry ns) \<and> k < kMaxPlayers \<and> token \<noteq> 0
       \<and> payload = wire_join_accept \<lparr>ja_player_id = word_of_nat k, ja_session_token = token, ja_udp_port = ns_udp_port ns\<rparr>
       \<and> find_by_fd (ns_registry ns') fd = Some k
       \<and> find_by_id (ns_registry ns') (word_of_nat k) = Some k
       \<and> ce_session_token (ns_registry ns' ! k) = token
       \<and> lb_player_ids (ns_lobby ns') = ids @ [word_of_nat k])"
proof -
  let ?reg = "ns_registry ns" and ?k = "first_free 0 (ns_registry ns)"
  have inv: "net_inv ns" using net_reachable_inv [OF assms(1)] .
  note reg = net_inv_reg [OF inv]
  have fd: "0 \<le> fd" using inv assms(2) by (simp add: net_inv_def net_view_def view_inv_def)
  note k = first_free_live [OF reg]
  from inv assms(3) fd show ?thesis
  proof (cases rule: join_cases [where env = env and m = m])
    case full
    then have "live_count ?reg = kMaxPlayers" using all_slots_used [OF reg] by simp
    then show ?thesis using full(2) assms(3) reject_frame [of fd _ ns] by (auto simp: ns'_def ids_def)
  next
    case (refused e)
    then have "live_count ?reg \<noteq> kMaxPlayers" using all_slots_used [OF reg] by simp
    then show ?thesis using refused find_put_other [OF assms(3) k(2), of e] fd by (auto simp: ns'_def ids_def reject_frame)
  next
    case (joined lob e)
    let ?t = "fst (make_token (re_rand env) ns)"
    have room: "live_count ?reg \<noteq> kMaxPlayers" using joined(1) all_slots_used [OF reg] by simp
    have view: "reg_view (ns_registry ns') = reg_view (put_slot ?k e ?reg)"
      unfolding ns'_def joined(5) by (simp add: broadcast_lobby_state_def Let_def broadcast_view)
    have e: "ce_tcp_fd e = fd" "ce_session_token e = ?t" by (simp_all add: joined(4) fresh_entry_def)
    have len: "?k < length (ns_registry ns')" using view put_slot_props(1) [OF k(2), of e] by (metis less_max_iff_disj lessI reg_view_nth(1))
    have slot: "ce_tcp_fd (ns_registry ns' ! ?k) = fd" "ce_session_token (ns_registry ns' ! ?k) = ?t"
      using view len e reg_view_nth(2) [of ?k "ns_registry ns'"] reg_view_nth(2) [of ?k "put_slot ?k e ?reg"]
        put_slot_props(1,2) [OF k(2), of e] by (auto simp: less_max_iff_disj)
    have "find_by_fd (ns_registry ns') fd = Some ?k"
      using find_by_fd_view [OF view] find_put_same [OF assms(3) k(2) e(1)] by simp
    moreover have "find_by_id (ns_registry ns') (word_of_nat ?k) = Some ?k"
      using len slot(1) fd slot_word [OF joined(1)] by (simp add: find_by_id_def kFreeFd_def)
    moreover have "lb_player_ids (ns_lobby ns') = ids @ [word_of_nat ?k]"
      using joined(3) by (auto simp: ns'_def joined(5) ids_def add_player_def Let_def split: if_splits)
    moreover have "ns_tcp_sent ns' = ns_tcp_sent ns @ [(fd, frame_image (message_type_byte JoinAccept)
        (wire_join_accept \<lparr>ja_player_id = word_of_nat ?k, ja_session_token = ?t, ja_udp_port = ns_udp_port ns\<rparr>))]"
      by (simp add: ns'_def joined(5) accept_frame)
    ultimately show ?thesis using room joined(1,2) slot(2) token_odd
      by (intro exI [of _ JoinAccept] exI conjI) (auto split: if_splits)
  qed
qed

text \<open>
  C14 (functional): the answer to a join request. On a connection that has not joined yet it gets
  exactly one answer: with ten clients connected it is rejected as full; otherwise, while a match
  runs, as in progress; in both cases the roster stays as it was. Otherwise the client gets the
  lowest free id and a non-zero token: the accept frame carries exactly the id and the token the
  registry holds for this connection, and the roster grows by it. A repeated request on a connection
  that has joined already is ignored: no answer is sent and nothing changes.
\<close>

theorem join_request_answered:
  assumes "net_reachable ns" "fd \<in> dom (poll_watched (ns_poller ns))"
    and "ns' = on_join_lobby env fd m ns"
  defines "ids \<equiv> lb_player_ids (ns_lobby ns)"
  shows "if find_by_fd (ns_registry ns) fd \<noteq> None then ns' = ns
    else \<exists>ty payload. ns_tcp_sent ns' = ns_tcp_sent ns @ [(fd, frame_image (message_type_byte ty) payload)] \<and>
        (if live_count (ns_registry ns) = kMaxPlayers \<or> lb_in_progress (ns_lobby ns) then
           ty = JoinReject \<and> find_by_fd (ns_registry ns') fd = None \<and> lb_player_ids (ns_lobby ns') = ids
           \<and> payload = wire_join_reject
               \<lparr>jr_reason = (if live_count (ns_registry ns) = kMaxPlayers then RejectFull else RejectInProgress)\<rparr>
         else \<exists>k token. ty = JoinAccept \<and> k = first_free 0 (ns_registry ns) \<and> k < kMaxPlayers \<and> token \<noteq> 0
           \<and> payload = wire_join_accept \<lparr>ja_player_id = word_of_nat k, ja_session_token = token, ja_udp_port = ns_udp_port ns\<rparr>
           \<and> find_by_fd (ns_registry ns') fd = Some k
           \<and> find_by_id (ns_registry ns') (word_of_nat k) = Some k
           \<and> ce_session_token (ns_registry ns' ! k) = token
           \<and> lb_player_ids (ns_lobby ns') = ids @ [word_of_nat k])"
proof (cases "find_by_fd (ns_registry ns) fd")
  case None
  then have "\<not> find_by_fd (ns_registry ns) fd \<noteq> None" by simp
  then show ?thesis unfolding ids_def by (subst if_not_P) (assumption, rule first_join_answered [OF assms(1,2) None assms(3)])
next
  case (Some i)
  then show ?thesis by (simp add: assms(3) on_join_lobby_def)
qed

theorem join_request_answered_witness:
  "find_by_fd (ns_registry (on_join_lobby sample_env 6 sample_join listening)) 6 = Some 0
   \<and> lb_player_ids (ns_lobby (on_join_lobby sample_env 6 sample_join listening)) = [0]"
proof -
  have "ns_registry listening = []" "ns_lobby listening = Lobby" "6 \<in> dom (poll_watched (ns_poller listening))"
    using listening_view(1) by (simp_all add: net_view_def reg_view_def)
  then show ?thesis
    using join_request_answered [OF listening_reachable _ refl, of 6 sample_env sample_join]
    by (auto simp: find_by_fd_def first_free_def live_count_def kMaxPlayers_def Lobby_def)
qed

text \<open>
  C15 (functional): the start of a match. When the host asks and at least two clients are connected,
  the simulation is told of every connected client exactly once, with a team and a spawn index that
  no team mate shares, and every client receives a \<open>GAME_START\<close> that lists the same ids, teams and
  the spawn points of those indices. A request by anybody else only earns that client a rejection.
\<close>

theorem match_start_announces_every_player:
  assumes "net_reachable ns" "find_by_fd (ns_registry ns) fd = Some i" "0 \<le> fd"
    and "mset (re_shuffle env (lb_player_ids (ns_lobby ns))) = mset (lb_player_ids (ns_lobby ns))"
    and ns': "ns' = on_start_request env fd ns"
  shows "if lb_in_progress (ns_lobby ns) \<or> word_of_nat i \<noteq> lb_host_id (ns_lobby ns) then
      ns' = ns\<lparr>ns_tcp_sent := ns_tcp_sent ns @ [(fd, frame_image (message_type_byte JoinReject) [1])]\<rparr>
    else if length (lb_player_ids (ns_lobby ns)) < 2 then ns' = ns
    else \<exists>red blue. mset red + mset blue = mset (lb_player_ids (ns_lobby ns)) \<and> lb_in_progress (ns_lobby ns')
      \<and> in_items (ns_inbound ns') = in_items (ns_inbound ns) @
          map (\<lambda>k. join_command Red (red ! k) k) [0..<length red] @ map (\<lambda>k. join_command Blue (blue ! k) k) [0..<length blue]
      \<and> (\<forall>j < length (ns_registry ns). 0 \<le> ce_tcp_fd (ns_registry ns ! j) \<longrightarrow>
           ce_pending_out (ns_registry ns' ! j) = ce_pending_out (ns_registry ns ! j)
             @ frame_image (message_type_byte GameStart) (wire_game_start (start_message red blue)))"
proof -
  let ?reg = "ns_registry ns" and ?lob = "ns_lobby ns"
  have inv: "net_inv ns" using net_reachable_inv [OF assms(1)] .
  note reg = net_inv_reg [OF inv]
  have pid: "ce_player_id (?reg ! i) = word_of_nat i"
    using find_by_fd_Some [OF assms(2)] assms(3) reg by (auto simp: reg_inv_def)
  have ids: "length (lb_player_ids ?lob) \<le> kMaxPlayers" using inv by (simp add: net_inv_def net_view_def view_inv_def lobby_inv_def)
  consider (no) "\<not> can_issue_start (word_of_nat i) ?lob" | (few) "can_issue_start (word_of_nat i) ?lob" "length (lb_player_ids ?lob) < 2"
    | (go) "can_issue_start (word_of_nat i) ?lob" "\<not> length (lb_player_ids ?lob) < 2" by blast
  then show ?thesis
  proof cases
    case no
    have "send_frame_generic fd JoinReject (encode_join_reject \<lparr>jr_reason = RejectInProgress\<rparr>) ns
        = ns\<lparr>ns_tcp_sent := ns_tcp_sent ns @ [(fd, frame_image (message_type_byte JoinReject) [1])]\<rparr>"
      using reject_frame [of fd "\<lparr>jr_reason = RejectInProgress\<rparr>" ns]
      by (simp add: send_frame_generic_def Let_def wire_join_reject_def)
    with no show ?thesis by (auto simp: ns' on_start_request_def assms(2) pid can_issue_start_def)
  next
    case few
    then show ?thesis by (simp add: ns' on_start_request_def assms(2) pid can_issue_start_def begin_match_and_notify_def begin_match_def)
  next
    case go
    then have run: "\<not> lb_in_progress ?lob" by (simp add: can_issue_start_def)
    from begin_closed [where shuffle = "re_shuffle env" and ns = ns, OF run go(2) ids assms(4)] obtain red blue where rb:
      "mset red + mset blue = mset (lb_player_ids ?lob)"
      "begin_match_and_notify (re_shuffle env) ns = ns\<lparr>ns_lobby := ?lob\<lparr>lb_in_progress := True\<rparr>,
        ns_inbound := fold inbound_push (side_commands Red red 0 @ side_commands Blue blue 0) (ns_inbound ns),
        ns_registry := snd (broadcast_tcp_event
          (frame_image (message_type_byte GameStart) (wire_game_start (start_message red blue))) ?reg)\<rparr>"
      by blast
    have ns'_eq: "ns' = begin_match_and_notify (re_shuffle env) ns"
      using go(1) by (simp add: ns' on_start_request_def assms(2) pid)
    have "in_items (ns_inbound ns') = in_items (ns_inbound ns) @
          map (\<lambda>k. join_command Red (red ! k) k) [0..<length red] @ map (\<lambda>k. join_command Blue (blue ! k) k) [0..<length blue]"
      unfolding ns'_eq rb(2) using push_all [of "\<lambda>c. c" "side_commands Red red 0 @ side_commands Blue blue 0" "ns_inbound ns"]
      by (simp add: side_commands_nth)
    moreover have "\<forall>j < length ?reg. 0 \<le> ce_tcp_fd (?reg ! j) \<longrightarrow> ce_pending_out (ns_registry ns' ! j) = ce_pending_out (?reg ! j)
        @ frame_image (message_type_byte GameStart) (wire_game_start (start_message red blue))"
      unfolding ns'_eq rb(2) using broadcast_entries(3) [OF reg] by (simp add: append_pending_def)
    moreover have "lb_in_progress (ns_lobby ns')" unfolding ns'_eq rb(2) by simp
    ultimately have "\<exists>red blue. mset red + mset blue = mset (lb_player_ids (ns_lobby ns)) \<and> lb_in_progress (ns_lobby ns')
      \<and> in_items (ns_inbound ns') = in_items (ns_inbound ns) @
          map (\<lambda>k. join_command Red (red ! k) k) [0..<length red] @ map (\<lambda>k. join_command Blue (blue ! k) k) [0..<length blue]
      \<and> (\<forall>j < length (ns_registry ns). 0 \<le> ce_tcp_fd (ns_registry ns ! j) \<longrightarrow>
           ce_pending_out (ns_registry ns' ! j) = ce_pending_out (ns_registry ns ! j)
             @ frame_image (message_type_byte GameStart) (wire_game_start (start_message red blue)))"
      using rb(1) by blast
    then show ?thesis using go by (simp only: can_issue_start_def) (simp del: message_type_byte.simps)
  qed
qed

theorem match_start_announces_every_player_witness:
  "find_by_fd (ns_registry two_joined) 6 = Some 0 \<and> lb_in_progress (ns_lobby (on_start_request sample_env 6 two_joined))"
proof -
  obtain t t' where "reg_view (ns_registry two_joined) = [(6, 0, t), (7, 1, t')]" using two_joined_view(1) by blast
  then have "find_by_fd (ns_registry two_joined) 6 = Some 0"
    by (auto simp: reg_view_def find_by_fd_def find_Some_iff nth_Cons' intro!: exI [of _ 0])
  then show ?thesis
    using match_start_announces_every_player [OF two_joined_reachable _ _ _ refl, of 6 0 sample_env] two_joined_view(2-4)
    by (auto simp: sample_env_def)
qed

text \<open>
  C16 (functional): a client that leaves is forgotten everywhere. The simulation gets exactly one
  \<open>PlayerLeft\<close> for it when a match is running and nothing otherwise, its descriptor is no longer
  watched, its id no longer resolves, and every remaining client keeps its entry and gets the new
  lobby state, which the client decodes to the message the server meant.
\<close>

theorem leaving_is_announced:
  assumes "net_reachable ns" "i < length (ns_registry ns)" "0 \<le> ce_tcp_fd (ns_registry ns ! i)"
    and ns': "ns' = drop_connection (ce_tcp_fd (ns_registry ns ! i)) ns"
  shows "in_items (ns_inbound ns') = in_items (ns_inbound ns) @ (if lb_in_progress (ns_lobby ns) then [left_command i] else [])
    \<and> find_by_id (ns_registry ns') (word_of_nat i) = None
    \<and> ce_tcp_fd (ns_registry ns ! i) \<notin> dom (poll_watched (ns_poller ns'))
    \<and> set (lb_player_ids (ns_lobby ns')) = set (lb_player_ids (ns_lobby ns)) - {word_of_nat i}
    \<and> (\<forall>j < length (ns_registry ns). j \<noteq> i \<and> 0 \<le> ce_tcp_fd (ns_registry ns ! j) \<longrightarrow>
         (\<exists>payload. received decode_lobby_state payload = Some (lobby_message ns')
            \<and> ns_registry ns' ! j = append_pending (frame_image (message_type_byte LobbyState) payload) (ns_registry ns ! j)))"
proof -
  let ?reg = "ns_registry ns"
  have inv: "net_inv ns" using net_reachable_inv [OF assms(1)] .
  have i: "i \<in> live (reg_view ?reg)" "i < kMaxPlayers"
    using assms(2,3) net_inv_reg [OF inv] by (auto simp: live_reg_view reg_inv_def)
  have "find_by_fd ?reg (ce_tcp_fd (?reg ! i)) = Some i"
  proof -
    have inj: "j = i" if "j < length ?reg" "ce_tcp_fd (?reg ! j) = ce_tcp_fd (?reg ! i)" for j
    proof -
      have "inj_on (\<lambda>k. fst (reg_view ?reg ! k)) (live (reg_view ?reg))"
        using inv by (simp add: net_inv_def net_view_def view_inv_def slots_inv_def)
      then show ?thesis by (rule inj_onD) (use that assms(2,3) in \<open>simp_all add: live_reg_view\<close>)
    qed
    have "\<forall>j < i. ce_tcp_fd (?reg ! j) \<noteq> ce_tcp_fd (?reg ! i)"
      using inj assms(2) by (metis less_irrefl less_trans)
    then show ?thesis using assms(2) by (auto simp: find_by_fd_def find_Some_iff intro!: exI [of _ i])
  qed
  then have d: "ns' = server_disconnect i True ns" by (simp add: ns' drop_connection_def)
  note reg' = disconnect_registry [where ns = ns and i = i and n = True, OF inv i(1), folded d]
  have valid: "received decode_lobby_state (wire_lobby_state (lobby_message ns')) = Some (lobby_message ns')"
  proof -
    have "net_inv ns'" unfolding d using inv_disconnect [OF inv i(1)] .
    from lobby_message_valid [OF net_inv_reg [OF this]] show ?thesis
      using lobby_state.decode_wire [of "lobby_message ns'" "[]"] by (simp add: received_def)
  qed
  have "in_items (ns_inbound ns') = in_items (ns_inbound ns) @ (if lb_in_progress (ns_lobby ns) then [left_command i] else [])"
    unfolding d disconnect_closed [OF inv i(1)] by (simp add: inq.items_push)
  moreover have "find_by_id (ns_registry ns') (word_of_nat i) = None"
    using reg'(2,3) assms(2) by (simp add: find_by_id_def slot_word [OF i(2)] kFreeFd_def)
  moreover have "ce_tcp_fd (?reg ! i) \<notin> dom (poll_watched (ns_poller ns'))" "ns_lobby ns' = remove_player (word_of_nat i) (ns_lobby ns)"
    using view_disconnect [OF inv i(1), of True, folded d] assms(2) by (auto simp: net_view_def)
  moreover have "lobby_inv (ns_lobby ns)" using inv by (simp add: net_inv_def net_view_def view_inv_def)
  ultimately show ?thesis using reg'(3) valid set_remove_player by auto
qed

theorem leaving_is_announced_witness:
  "ce_tcp_fd (ns_registry two_joined ! 0) = 6 \<and> set (lb_player_ids (ns_lobby (drop_connection 6 two_joined))) = {1}
   \<and> in_items (ns_inbound (drop_connection 6 two_joined)) = in_items (ns_inbound two_joined)
   \<and> find_by_id (ns_registry (drop_connection 6 two_joined)) 0 = None"
proof -
  obtain t t' where "reg_view (ns_registry two_joined) = [(6, 0, t), (7, 1, t')]" using two_joined_view(1) by blast
  then have "ce_tcp_fd (ns_registry two_joined ! 0) = 6" "0 < length (ns_registry two_joined)" by (auto simp: reg_view_def)
  then show ?thesis
    using leaving_is_announced [OF two_joined_reachable _ _ refl, of 0] two_joined_view(2,4) by auto
qed

text \<open>
  C17 (functional): the silence detector is exact. It removes every client whose last datagram is more
  than the limit old at the time of the check, on the wrapping 32-bit clock, and nobody else.
\<close>

theorem silence_detector_exact:
  assumes "net_reachable ns"
  shows "{i. i < length (ns_registry (check_silence_timeouts now ns)) \<and> 0 \<le> ce_tcp_fd (ns_registry (check_silence_timeouts now ns) ! i)}
    = {i. i < length (ns_registry ns) \<and> 0 \<le> ce_tcp_fd (ns_registry ns ! i)
         \<and> now - ce_last_input_tick (ns_registry ns ! i) \<le> word_of_int (ns_udp_silence_ms ns)}"
proof -
  let ?ns = "ns\<lparr>ns_last_silence_check_ms := now\<rparr>"
  have "net_inv ?ns" using net_reachable_inv [OF assms] by (simp add: net_inv_def)
  from silence_loop [OF this, of "[0..<length (ns_registry ns)]"]
  have "live (reg_view (ns_registry (check_silence_timeouts now ns))) =
      {i \<in> live (reg_view (ns_registry ns)). \<not> (i < length (ns_registry ns) \<and> silent ?ns i)}"
    by (simp add: check_silence_timeouts_def)
  also have "\<dots> = {i. i < length (ns_registry ns) \<and> 0 \<le> ce_tcp_fd (ns_registry ns ! i)
      \<and> now - ce_last_input_tick (ns_registry ns ! i) \<le> word_of_int (ns_udp_silence_ms ns)}"
    by (auto simp: live_reg_view silent_def not_less)
  finally show ?thesis by (simp only: live_reg_view)
qed

theorem silence_detector_exact_witness:
  "net_reachable two_joined
   \<and> {i. i < length (ns_registry (check_silence_timeouts 5000 two_joined))
          \<and> 0 \<le> ce_tcp_fd (ns_registry (check_silence_timeouts 5000 two_joined) ! i)}
     = {i. i < length (ns_registry two_joined) \<and> 0 \<le> ce_tcp_fd (ns_registry two_joined ! i)
          \<and> 5000 - ce_last_input_tick (ns_registry two_joined ! i) \<le> word_of_int (ns_udp_silence_ms two_joined)}"
  using silence_detector_exact [OF two_joined_reachable, of 5000] two_joined_reachable by simp



end
