(* ===== verification/Snapshot_Stream.thy ===== *)
theory Snapshot_Stream
  imports Sim_Publish Net_Client Net_Server_Props
begin

text \<open>
  The way of a snapshot from the simulation to the player's client: \<open>publish\<close> encodes it, in full or
  as a delta against the previous one, the network thread sends one datagram per client, the network
  loses, repeats and reorders datagrams, and the client decodes what arrives against its cache.

  The theorems say that a client never shows a world the server did not publish, and that it
  recovers from any loss with the next keyframe.
\<close>

section \<open>Publications and their datagrams\<close>

text \<open>One publication: what was encoded, against which baseline, with which acknowledgements.\<close>

record publication =
  pub_keyframe :: bool
  pub_current :: world_snapshot
  pub_baseline :: world_snapshot
  pub_acks :: "u32 list"

definition pub_body :: "publication \<Rightarrow> u8 list" where
  "pub_body p = (if pub_keyframe p then wire_world_snapshot (pub_current p) else wire_delta_snapshot (pub_current p) (pub_baseline p))"

definition pub_type :: "publication \<Rightarrow> u8" where
  "pub_type p = message_type_byte (if pub_keyframe p then WorldSnapshot else DeltaSnapshot)"

text \<open>The datagram for the client in slot \<open>i\<close>: its own acknowledgement replaces the first four bytes.\<close>

definition datagram_to :: "nat \<Rightarrow> publication \<Rightarrow> u8 list" where
  "datagram_to i p = snapshot_header (snap_tick (pub_current p)) (pub_type p) @ be32 (pub_acks p ! i) @ drop 4 (pub_body p)"

text \<open>What \<open>publish\<close> sends in state \<open>s\<close>, if a snapshot is due.\<close>

definition with_acks :: "sim \<Rightarrow> sim" where
  "with_acks s = s\<lparr>sm_player_acks := collect_acks s, sm_snapshot := make_snapshot s\<rparr>"

definition publication_of :: "sim \<Rightarrow> publication" where
  "publication_of s = \<lparr>pub_keyframe = publish_keyframe (with_acks s), pub_current = make_snapshot s,
     pub_baseline = sm_prev_published s, pub_acks = map (\<lambda>i. collect_acks s ! i) [0..<kMaxPlayers]\<rparr>"

lemma length_pub_body: "wf_snapshot (pub_current p) \<Longrightarrow> 4 \<le> length (pub_body p) \<and> length (pub_body p) \<le> 512"
  using length_delta_image [of "pub_current p" "pub_baseline p"]
  by (auto simp: pub_body_def length_snapshot_image wf_snapshot_def config_defs wire_delta_snapshot_def Let_def)

text \<open>The network thread turns the event into exactly these datagrams.\<close>

lemma publication_datagrams:
  assumes "net_inv ns" "0 \<le> ns_udp_fd ns"
  shows "ns_udp_sent (send_outbound (snapshot_event (with_acks s) (make_snapshot s)) ns) = ns_udp_sent ns @
    map (\<lambda>i. (ce_udp_addr (ns_registry ns ! i), datagram_to i (publication_of s)))
      (filter (\<lambda>i. ce_has_udp_addr (ns_registry ns ! i)) (live_slots (ns_registry ns)))"
proof -
  let ?ev = "snapshot_event (with_acks s) (make_snapshot s)" and ?p = "publication_of s"
  have body: "event_bytes ?ev = pub_body ?p"
    using event_bytes_snapshot [OF wf_make_snapshot] by (simp add: pub_body_def publication_of_def with_acks_def)
  have ev: "oe_type ?ev = (if pub_keyframe ?p then UdpSnapshot else UdpDeltaSnapshot)" "oe_acks ?ev = pub_acks ?p"
    "oe_tick ?ev = snap_tick (pub_current ?p)"
    by (simp_all add: snapshot_event_def publication_of_def with_acks_def Let_def make_snapshot_def)
  have len: "4 \<le> length (pub_body ?p)" "length (pub_body ?p) \<le> 512"
    using length_pub_body [of ?p] wf_make_snapshot by (simp_all add: publication_of_def)
  have "send_udp_snapshots (ns_registry ns) (ns_udp_fd ns) (pub_body ?p) (pub_acks ?p) (snap_tick (pub_current ?p)) (pub_type ?p)
      = map (\<lambda>i. (ce_udp_addr (ns_registry ns ! i), datagram_to i ?p))
          (filter (\<lambda>i. ce_has_udp_addr (ns_registry ns ! i)) (live_slots (ns_registry ns)))"
    using send_loop_result [OF net_inv_reg [OF assms(1)], of "live_slots (ns_registry ns)" "pub_body ?p"
        "snapshot_header (snap_tick (pub_current ?p)) (pub_type ?p)" "pub_acks ?p" "[]"] len assms(2)
    by (simp add: send_udp_snapshots_def Let_def live_slots_props(1) kUdpHeaderBytes_def kDatagramBytes_def datagram_to_def)
  then show ?thesis using ev body by (cases "pub_keyframe ?p") (simp_all add: send_outbound_def pub_type_def)
qed

section \<open>The client's side\<close>

lemma datagram_opened:
  "handle_datagram (datagram_to i p) nc =
     dispatch_udp_payload (pub_type p) (snap_tick (pub_current p)) (be32 (pub_acks p ! i) @ drop 4 (pub_body p)) nc"
proof -
  let ?hdr = "\<lparr>uh_magic = kMagic, uh_version = kProtocolVersion, uh_type = pub_type p, uh_tick = snap_tick (pub_current p)\<rparr>"
  let ?pay = "be32 (pub_acks p ! i) @ drop 4 (pub_body p)"
  have "run_state decode_udp_header (ByteReader (wire_udp_header ?hdr @ ?pay) (length (wire_udp_header ?hdr @ ?pay)))
      = (Some ?hdr, advance (length (wire_udp_header ?hdr)) (ByteReader (wire_udp_header ?hdr @ ?pay) (length (wire_udp_header ?hdr @ ?pay))))"
    by (rule udp_header.decode_wire) (simp add: valid_udp_header_def)
  then have "decoded decode_udp_header (wire_udp_header ?hdr @ ?pay) = Some ?hdr"
    by (simp add: decoded_def)
  moreover have "drop kUdpHeaderBytes (wire_udp_header ?hdr @ ?pay) = ?pay" "kUdpHeaderBytes \<le> length (wire_udp_header ?hdr)"
    by (simp_all add: wire_udp_header_def config_defs)
  ultimately show ?thesis by (simp add: handle_datagram_def datagram_to_def header_image not_less)
qed

abbreviation seen_by :: "nat \<Rightarrow> publication \<Rightarrow> world_snapshot" where
  "seen_by i p \<equiv> (pub_current p)\<lparr>last_input_seq := pub_acks p ! i\<rparr>"

text \<open>The patched body is the encoding of the same snapshot with the client's acknowledgement.\<close>

lemma delta_ignores_ack:
  fixes c b :: world_snapshot and a :: u32
  defines "c' \<equiv> c\<lparr>last_input_seq := a\<rparr>"
  shows "baseline_ticks_ago c' b = baseline_ticks_ago c b" "roster_changed c' b = roster_changed c b"
    "delta_header_mask c' b = delta_header_mask c b" "delta_slots c' b = delta_slots c b" "delta_pchange c' b = delta_pchange c b"
proof -
  show ago: "baseline_ticks_ago c' b = baseline_ticks_ago c b" and roster: "roster_changed c' b = roster_changed c b"
    by (simp_all add: c'_def baseline_ticks_ago_def roster_changed_def)
  show "delta_header_mask c' b = delta_header_mask c b" using roster by (simp add: c'_def delta_header_mask_def)
  show slots: "delta_slots c' b = delta_slots c b" using roster by (simp add: c'_def delta_slots_def)
  have "slot_changed c' b i = slot_changed c b i" for i using roster by (simp add: c'_def slot_changed_def)
  then show "delta_pchange c' b = delta_pchange c b" using slots by (simp add: delta_pchange_def)
qed

lemma patched_body:
  "be32 (pub_acks p ! i) @ drop 4 (pub_body p) =
     (if pub_keyframe p then wire_world_snapshot (seen_by i p) else wire_delta_snapshot (seen_by i p) (pub_baseline p))"
proof (cases "pub_keyframe p")
  case True
  then show ?thesis by (simp add: pub_body_def wire_world_snapshot_def)
next
  case False
  have "wire_delta_slots (seen_by i p) (pub_baseline p) = wire_delta_slots (pub_current p) (pub_baseline p)"
    by (rule ext) (simp add: wire_delta_slots_def delta_ignores_ack)
  then show ?thesis using False by (simp add: pub_body_def wire_delta_snapshot_def Let_def delta_ignores_ack)
qed

lemma type_bytes: "message_type_byte WorldSnapshot \<noteq> message_type_byte DeltaSnapshot"
  by simp

lemma agrees_seen: "cache_agrees snap (seen_by i p) \<longleftrightarrow> cache_agrees snap (pub_current p)"
  by (simp add: cache_agrees_def)

lemma wf_seen: "wf_snapshot (seen_by i p) \<longleftrightarrow> wf_snapshot (pub_current p)"
  by (simp add: wf_snapshot_def)

lemma keyframe_received:
  assumes "pub_keyframe p" "wf_snapshot (pub_current p)"
  shows "\<exists>snap. handle_datagram (datagram_to i p) nc = nc\<lparr>nc_last_snapshot_cache := snap, nc_have_last_snapshot := True,
    nc_first_snapshot_received := True, nc_pending_snapshots := nc_pending_snapshots nc @ [snap]\<rparr>
    \<and> cache_agrees snap (pub_current p) \<and> last_input_seq snap = pub_acks p ! i"
proof -
  have wf: "wf_snapshot (seen_by i p)" using assms(2) by (simp add: wf_seen)
  have "decoded decode_world_snapshot (wire_world_snapshot (seen_by i p)) = Some (norm_world_snapshot (seen_by i p))"
    using world_snapshot.decode_wire [OF wf, of "[]"] by (simp add: decoded_def)
  moreover have "cache_agrees (norm_world_snapshot (seen_by i p)) (pub_current p)"
    using full_snapshot_agrees [OF wf] by (simp add: agrees_seen)
  ultimately show ?thesis
    using assms(1) by (intro exI [of _ "norm_world_snapshot (seen_by i p)"])
      (simp add: datagram_opened patched_body pub_type_def dispatch_udp_payload_def norm_world_snapshot_def)
qed

lemma delta_received:
  assumes "\<not> pub_keyframe p" "wf_snapshot (pub_current p)" "wf_snapshot (pub_baseline p)"
    "snap_tick (pub_baseline p) \<le> snap_tick (pub_current p)" "snap_tick (pub_current p) - snap_tick (pub_baseline p) \<le> 255"
    and "nc_have_last_snapshot nc" "cache_agrees (nc_last_snapshot_cache nc) (pub_baseline p)"
  shows "\<exists>snap. handle_datagram (datagram_to i p) nc = nc\<lparr>nc_last_snapshot_cache := snap,
    nc_first_snapshot_received := True, nc_pending_snapshots := nc_pending_snapshots nc @ [snap]\<rparr>
    \<and> cache_agrees snap (pub_current p) \<and> last_input_seq snap = pub_acks p ! i"
proof -
  let ?c = "seen_by i p" and ?b = "pub_baseline p" and ?cache = "nc_last_snapshot_cache nc"
  have wf: "wf_snapshot ?c" using assms(2) by (simp add: wf_seen)
  have "snap_tick ?cache = snap_tick ?b" "length (snap_players ?cache) = kMaxPlayers"
    using assms(7) by (simp_all add: cache_agrees_def)
  then have "reads (decode_delta_snapshot (snap_tick ?c) ?cache) (wire_delta_snapshot ?c ?b) (Some (apply_delta ?c ?b ?cache))"
    using assms(4,5) wf by (intro reads_delta_snapshot) (simp_all add: wf_snapshot_def)
  then have "received (decode_delta_snapshot (snap_tick (pub_current p)) ?cache) (wire_delta_snapshot ?c ?b) = Some (apply_delta ?c ?b ?cache)"
    using remaining_ByteReader(1) [of "wire_delta_snapshot ?c ?b"] unfolding reads_def received_def by simp
  moreover have "cache_agrees (apply_delta ?c ?b ?cache) (pub_current p)" "last_input_seq (apply_delta ?c ?b ?cache) = pub_acks p ! i"
    using apply_delta_agrees [OF assms(7) wf assms(3)] by (simp_all add: agrees_seen)
  ultimately show ?thesis
    using assms(1,6) by (intro exI [of _ "apply_delta ?c ?b ?cache"])
      (simp add: datagram_opened patched_body pub_type_def dispatch_udp_payload_def)
qed

lemma delta_dropped:
  assumes "\<not> pub_keyframe p"
    "snap_tick (pub_baseline p) \<le> snap_tick (pub_current p)" "snap_tick (pub_current p) - snap_tick (pub_baseline p) \<le> 255"
    and "nc_have_last_snapshot nc \<Longrightarrow> snap_tick (nc_last_snapshot_cache nc) \<noteq> snap_tick (pub_baseline p)"
  shows "handle_datagram (datagram_to i p) nc = nc\<lparr>nc_have_last_snapshot := False\<rparr>"
proof (cases "nc_have_last_snapshot nc")
  case False
  then show ?thesis using assms(1) by (simp add: datagram_opened pub_type_def dispatch_udp_payload_def)
next
  case True
  let ?c = "seen_by i p" and ?b = "pub_baseline p" and ?cache = "nc_last_snapshot_cache nc"
  have "ucast (baseline_ticks_ago ?c ?b) = snap_tick (pub_current p) - snap_tick ?b"
    using ticks_ago_exact [of ?b ?c] assms(2,3) by simp
  then have other: "snap_tick ?cache \<noteq> snap_tick (pub_current p) - ucast (baseline_ticks_ago ?c ?b)"
    using assms(4) True by simp
  obtain rest where wire: "wire_delta_snapshot ?c ?b = be32 (pub_acks p ! i) @ [baseline_ticks_ago ?c ?b, delta_header_mask ?c ?b] @ rest"
    by (simp add: wire_delta_snapshot_def Let_def)
  have "received (decode_delta_snapshot (snap_tick (pub_current p)) ?cache) (wire_delta_snapshot ?c ?b) = None"
    using reads_delta_wrong_baseline [OF other, of "pub_acks p ! i" "delta_header_mask ?c ?b"]
      remaining_ByteReader [of "wire_delta_snapshot ?c ?b"]
    unfolding reads_def received_def wire by simp
  then show ?thesis using assms(1) True by (simp add: datagram_opened patched_body pub_type_def dispatch_udp_payload_def)
qed

section \<open>The stream\<close>

text \<open>
  A server that publishes: the publications so far and the state of the simulation. Between two
  ticks the network thread may change the shared queues.
\<close>

inductive broadcasting :: "publication list \<Rightarrow> sim \<Rightarrow> bool" where
  start: "\<not> sm_have_published s \<Longrightarrow> sm_snapshots_published s = 0 \<Longrightarrow> broadcasting [] s"
| ticked: "broadcasting ps s \<Longrightarrow> unat (sm_current_tick s) + 1 < 2 ^ 32 \<Longrightarrow> s' = win_check (before_win_check dir s) \<Longrightarrow>
    broadcasting (if publish_due (with_acks s') then ps @ [publication_of s'] else ps) (tick dir s)"
| queues: "broadcasting ps s \<Longrightarrow> broadcasting ps (s\<lparr>sm_inbound := q, sm_outbound := q'\<rparr>)"

definition stride :: "sim \<Rightarrow> int" where
  "stride s = cdiv (sm_tick_hz s) (sm_snapshot_hz s)"

text \<open>
  The state of the stream: what the simulation remembers of it, and how consecutive publications
  relate. Ticks are numbers here; the stride is the number of ticks per snapshot.
\<close>

definition stream_ok :: "publication list \<Rightarrow> bool" where
  "stream_ok ps \<longleftrightarrow> (\<forall>k < length ps. wf_snapshot (pub_current (ps ! k))
     \<and> (k mod kSnapshotKeyframeInterval = 0 \<longrightarrow> pub_keyframe (ps ! k))
     \<and> (\<forall>j < k. unat (snap_tick (pub_current (ps ! j))) < unat (snap_tick (pub_current (ps ! k))))
     \<and> (\<not> pub_keyframe (ps ! k) \<longrightarrow> 0 < k \<and> pub_baseline (ps ! k) = pub_current (ps ! (k - 1))
          \<and> snap_tick (pub_current (ps ! k)) - snap_tick (pub_baseline (ps ! k)) \<le> 255))"

definition remembers :: "publication list \<Rightarrow> sim \<Rightarrow> bool" where
  "remembers ps s \<longleftrightarrow> sm_have_published s = (ps \<noteq> []) \<and> sm_snapshots_published s = word_of_nat (length ps)
     \<and> length ps \<le> unat (sm_current_tick s)
     \<and> (ps \<noteq> [] \<longrightarrow> sm_prev_published s = pub_current (last ps)
          \<and> unat (snap_tick (pub_current (last ps))) < unat (sm_current_tick s)
          \<and> int (unat (sm_current_tick s)) \<le> int (unat (snap_tick (pub_current (last ps)))) + max 1 (stride s)
          \<and> (1 < stride s \<longrightarrow> int (unat (snap_tick (pub_current (last ps)))) mod stride s = 0))"

lemma win_check_clock: "sm_have_published (win_check s) = sm_have_published s" "sm_snapshots_published (win_check s) = sm_snapshots_published s"
  "sm_prev_published (win_check s) = sm_prev_published s" "sm_delta_snapshots (win_check s) = sm_delta_snapshots s"
  "sm_tick_hz (win_check s) = sm_tick_hz s" "sm_snapshot_hz (win_check s) = sm_snapshot_hz s"
  by (simp_all add: win_check_def Let_def send_event_def emit_def)

lemma pre_publish:
  assumes "s' = win_check (before_win_check dir s)"
  shows "sm_current_tick s' = sm_current_tick s" "sm_have_published s' = sm_have_published s"
    "sm_snapshots_published s' = sm_snapshots_published s" "sm_prev_published s' = sm_prev_published s"
    "sm_delta_snapshots s' = sm_delta_snapshots s" "stride s' = stride s"
  using clockwork_phases [of dir s] by (auto simp: assms clockwork_def win_check_frame win_check_clock stride_def)

lemma remembers_pre: "s' = win_check (before_win_check dir s) \<Longrightarrow> remembers ps s' = remembers ps s"
  using pre_publish [of s' dir s] by (simp add: remembers_def)

text \<open>What follows the phases: publishing and the next tick number.\<close>

definition end_tick :: "sim \<Rightarrow> sim" where
  "end_tick s = (let t = publish s in t\<lparr>sm_current_tick := sm_current_tick t + 1\<rparr>)"

lemma tick_end: "s' = win_check (before_win_check dir s) \<Longrightarrow> tick dir s = end_tick s'"
  by (simp add: tick_phases end_tick_def Let_def)

lemma end_publish:
  "sm_current_tick (end_tick s) = sm_current_tick s + 1" "stride (end_tick s) = stride s"
  "sm_have_published (end_tick s) = (publish_due (with_acks s) \<or> sm_have_published s)"
  "sm_snapshots_published (end_tick s) = sm_snapshots_published s + (if publish_due (with_acks s) then 1 else 0)"
  "sm_prev_published (end_tick s) = (if publish_due (with_acks s) then make_snapshot s else sm_prev_published s)"
  by (simp_all add: end_tick_def publish_def Let_def with_acks_def emit_def stride_def)

lemma due_iff:
  assumes "stride s \<le> 255"
  shows "publish_due s \<longleftrightarrow> stride s \<le> 1 \<or> int (unat (sm_current_tick s)) mod stride s = 0"
proof (cases "stride s \<le> 1")
  case True
  then show ?thesis by (simp add: publish_due_def stride_def Let_def)
next
  case False
  let ?d = "word_of_int (stride s) :: u32"
  have d: "int (unat ?d) = stride s" using False assms by (simp add: unsigned_of_int take_bit_int_eq_self)
  have "sm_current_tick s mod ?d = 0 \<longleftrightarrow> unat (sm_current_tick s mod ?d) = 0" by (simp only: unat_eq_zero)
  also have "\<dots> \<longleftrightarrow> unat (sm_current_tick s) mod unat ?d = 0" by (simp only: unat_mod_distrib)
  also have "\<dots> \<longleftrightarrow> int (unat (sm_current_tick s)) mod int (unat ?d) = 0" by presburger
  finally show ?thesis using False d by (simp add: publish_due_def stride_def Let_def)
qed

lemma keyframe_due:
  assumes "sm_snapshots_published s = word_of_nat n" "n < 2 ^ 32" "n mod kSnapshotKeyframeInterval = 0"
  shows "publish_keyframe s"
proof -
  have "unat (sm_snapshots_published s mod word_of_nat kSnapshotKeyframeInterval) = n mod kSnapshotKeyframeInterval"
    using assms(1,2) by (simp add: unat_mod_distrib unsigned_of_nat take_bit_nat_eq_self config_defs)
  then show ?thesis using assms(3) by (simp add: publish_keyframe_def unat_eq_zero)
qed

lemma stride_with_acks [simp]: "stride (with_acks s) = stride s" "sm_current_tick (with_acks s) = sm_current_tick s"
  by (simp_all add: stride_def with_acks_def)

lemma remembers_end:
  assumes "remembers ps s" "stride s \<le> 255" "unat (sm_current_tick s) + 1 < 2 ^ 32"
  shows "remembers (if publish_due (with_acks s) then ps @ [publication_of s] else ps) (end_tick s)"
proof -
  let ?t = "int (unat (sm_current_tick s))"
  note post = end_publish [of s]
  have next_tick: "unat (sm_current_tick s + 1) = unat (sm_current_tick s) + 1" using assms(3) by (simp add: unat_word_ariths)
  have due: "publish_due (with_acks s) \<longleftrightarrow> stride s \<le> 1 \<or> ?t mod stride s = 0"
    using due_iff [of "with_acks s"] assms(2) by simp
  have tick_now: "snap_tick (pub_current (publication_of s)) = sm_current_tick s"
    by (simp add: publication_of_def make_snapshot_def)
  show ?thesis
  proof (cases "publish_due (with_acks s)")
    case True
    have "sm_snapshots_published (end_tick s) = word_of_nat (length ps) + 1" using True post(4) assms(1) by (simp add: remembers_def)
    then show ?thesis using True assms(1) post next_tick tick_now due
      by (auto simp: remembers_def publication_of_def)
  next
    case False
    have "?t + 1 \<le> int (unat (snap_tick (pub_current (last ps)))) + max 1 (stride s)" if "ps \<noteq> []"
    proof -
      let ?l = "int (unat (snap_tick (pub_current (last ps))))"
      have "1 < stride s" "?t mod stride s \<noteq> 0" "?l mod stride s = 0" "?t \<le> ?l + stride s"
        using False due assms(1) that by (auto simp: remembers_def)
      moreover from this have "?t \<noteq> ?l + stride s" by auto
      ultimately show ?thesis by simp
    qed
    then show ?thesis using False assms(1) post next_tick by (auto simp: remembers_def)
  qed
qed

lemma stream_append:
  assumes "stream_ok ps" "wf_snapshot (pub_current p)" "length ps mod kSnapshotKeyframeInterval = 0 \<Longrightarrow> pub_keyframe p"
    and "\<And>j. j < length ps \<Longrightarrow> unat (snap_tick (pub_current (ps ! j))) < unat (snap_tick (pub_current p))"
    and "\<not> pub_keyframe p \<Longrightarrow> 0 < length ps \<and> pub_baseline p = pub_current (ps ! (length ps - 1))
      \<and> snap_tick (pub_current p) - snap_tick (pub_baseline p) \<le> 255"
  shows "stream_ok (ps @ [p])"
  unfolding stream_ok_def length_append_singleton
proof (intro allI impI)
  fix k assume "k < Suc (length ps)"
  then consider "k < length ps" | "k = length ps" by linarith
  then show "wf_snapshot (pub_current ((ps @ [p]) ! k))
   \<and> (k mod kSnapshotKeyframeInterval = 0 \<longrightarrow> pub_keyframe ((ps @ [p]) ! k))
   \<and> (\<forall>j < k. unat (snap_tick (pub_current ((ps @ [p]) ! j))) < unat (snap_tick (pub_current ((ps @ [p]) ! k))))
   \<and> (\<not> pub_keyframe ((ps @ [p]) ! k) \<longrightarrow> 0 < k \<and> pub_baseline ((ps @ [p]) ! k) = pub_current ((ps @ [p]) ! (k - 1))
        \<and> snap_tick (pub_current ((ps @ [p]) ! k)) - snap_tick (pub_baseline ((ps @ [p]) ! k)) \<le> 255)"
  proof cases
    case 1
    then have "k - 1 < length ps" "\<forall>j < k. j < length ps" by auto
    then show ?thesis using 1 assms(1) [unfolded stream_ok_def, rule_format, OF 1] by (auto simp: nth_append)
  next
    case 2
    then show ?thesis using assms(2-5) by (auto simp: nth_append)
  qed
qed

lemma stream_end:
  assumes "remembers ps s" "stream_ok ps" "stride s \<le> 255" "publish_due (with_acks s)"
  shows "stream_ok (ps @ [publication_of s])"
proof -
  let ?p = "publication_of s" and ?n = "length ps"
  have now: "snap_tick (pub_current ?p) = sm_current_tick s" by (simp add: publication_of_def make_snapshot_def)
  have last: "last ps = ps ! (?n - 1)" if "ps \<noteq> []" using that by (rule last_conv_nth)
  have wf: "wf_snapshot (pub_current ?p)" by (simp add: publication_of_def wf_make_snapshot)
  have key: "pub_keyframe ?p" if "?n mod kSnapshotKeyframeInterval = 0"
  proof -
    have "sm_snapshots_published (with_acks s) = word_of_nat ?n" using assms(1) by (simp add: remembers_def with_acks_def)
    moreover have "?n < 2 ^ 32" using assms(1) unsigned_less [of "sm_current_tick s", where 'a = nat] by (simp add: remembers_def)
    ultimately show ?thesis using keyframe_due that by (simp add: publication_of_def)
  qed
  have later: "unat (snap_tick (pub_current (ps ! j))) < unat (snap_tick (pub_current ?p))" if "j < ?n" for j
  proof -
    have "unat (snap_tick (pub_current (last ps))) < unat (sm_current_tick s)" using assms(1) that by (auto simp: remembers_def)
    moreover have "j = ?n - 1 \<or> unat (snap_tick (pub_current (ps ! j))) < unat (snap_tick (pub_current (ps ! (?n - 1))))"
    proof (cases "j = ?n - 1")
      case False
      then have "j < ?n - 1" "?n - 1 < ?n" using that by simp_all
      then show ?thesis using assms(2) unfolding stream_ok_def by blast
    qed simp
    ultimately show ?thesis using last that now by fastforce
  qed
  have delta: "0 < ?n \<and> pub_baseline ?p = pub_current (ps ! (?n - 1)) \<and> snap_tick (pub_current ?p) - snap_tick (pub_baseline ?p) \<le> 255"
    if "\<not> pub_keyframe ?p"
  proof -
    have "sm_have_published (with_acks s)" using that by (simp add: publication_of_def publish_keyframe_def)
    then have ne: "ps \<noteq> []" using assms(1) by (simp add: remembers_def with_acks_def)
    have base: "pub_baseline ?p = pub_current (last ps)" using ne assms(1) by (simp add: publication_of_def remembers_def)
    let ?l = "snap_tick (pub_current (last ps))"
    have "unat ?l < unat (sm_current_tick s)" "int (unat (sm_current_tick s)) \<le> int (unat ?l) + max 1 (stride s)"
      using ne assms(1) by (simp_all add: remembers_def)
    then have "unat (sm_current_tick s) - unat ?l \<le> 255" using assms(3) by linarith
    moreover have "unat (sm_current_tick s - ?l) = unat (sm_current_tick s) - unat ?l"
      using \<open>unat ?l < unat (sm_current_tick s)\<close> by (intro unat_sub) (simp add: word_le_nat_alt)
    ultimately have "sm_current_tick s - ?l \<le> 255" by (simp add: word_le_nat_alt)
    then show ?thesis using ne base last now by simp
  qed
  show ?thesis by (rule stream_append [OF assms(2) wf key later delta])
qed

lemma broadcasting_ok: "broadcasting ps s \<Longrightarrow> stride s \<le> 255 \<Longrightarrow> remembers ps s \<and> stream_ok ps"
proof (induction rule: broadcasting.induct)
  case (start s)
  then show ?case by (simp add: remembers_def stream_ok_def)
next
  case (ticked ps s s' dir)
  note t = tick_end [OF ticked.hyps(3)] and pre = pre_publish [OF ticked.hyps(3)]
  have "stride s' \<le> 255" "stride s = stride s'" using ticked.prems end_publish(2) [of s'] pre(6) by (simp_all add: t)
  then show ?case unfolding t using ticked pre(1) remembers_pre [OF ticked.hyps(3)] remembers_end [of ps s'] stream_end [of ps s'] by auto
next
  case queues
  then show ?case by (simp add: remembers_def stride_def)
qed

section \<open>Deliveries\<close>

text \<open>The client in slot \<open>i\<close> after the datagrams with the given indices have arrived, in that order.\<close>

definition deliver :: "nat \<Rightarrow> publication list \<Rightarrow> nat list \<Rightarrow> net_client \<Rightarrow> net_client" where
  "deliver i ps ks nc = fold (\<lambda>k. handle_datagram (datagram_to i (ps ! k))) ks nc"

definition shows_publication :: "nat \<Rightarrow> publication list \<Rightarrow> world_snapshot \<Rightarrow> nat \<Rightarrow> bool" where
  "shows_publication i ps snap k \<longleftrightarrow> k < length ps \<and> cache_agrees snap (pub_current (ps ! k)) \<and> last_input_seq snap = pub_acks (ps ! k) ! i"

lemma stream_gap:
  assumes "stream_ok ps" "k < length ps" "\<not> pub_keyframe (ps ! k)"
  shows "0 < k" "pub_baseline (ps ! k) = pub_current (ps ! (k - 1))" "wf_snapshot (pub_current (ps ! (k - 1)))"
    "snap_tick (pub_baseline (ps ! k)) \<le> snap_tick (pub_current (ps ! k))"
    "snap_tick (pub_current (ps ! k)) - snap_tick (pub_baseline (ps ! k)) \<le> 255"
proof -
  note ok = assms(1) [unfolded stream_ok_def, rule_format]
  show k: "0 < k" and base: "pub_baseline (ps ! k) = pub_current (ps ! (k - 1))"
    and "snap_tick (pub_current (ps ! k)) - snap_tick (pub_baseline (ps ! k)) \<le> 255" using ok [OF assms(2)] assms(3) by blast+
  show "wf_snapshot (pub_current (ps ! (k - 1)))" using ok [of "k - 1"] k assms(2) by simp
  have "unat (snap_tick (pub_current (ps ! (k - 1)))) < unat (snap_tick (pub_current (ps ! k)))"
    using ok [OF assms(2)] k by simp
  then show "snap_tick (pub_baseline (ps ! k)) \<le> snap_tick (pub_current (ps ! k))" by (simp add: base word_le_nat_alt)
qed

lemma stream_tick_inj:
  assumes "stream_ok ps" "j < length ps" "k < length ps" "snap_tick (pub_current (ps ! j)) = snap_tick (pub_current (ps ! k))"
  shows "j = k"
  using assms(1) [unfolded stream_ok_def, rule_format, OF assms(2)] assms(1) [unfolded stream_ok_def, rule_format, OF assms(3)] assms(4)
  by (metis less_irrefl linorder_neqE_nat)

text \<open>One delivery: a snapshot that shows the delivered publication is appended, or nothing new appears.\<close>

definition faithful :: "publication list \<Rightarrow> net_client \<Rightarrow> bool" where
  "faithful ps nc \<longleftrightarrow> (nc_have_last_snapshot nc \<longrightarrow> (\<exists>j < length ps. cache_agrees (nc_last_snapshot_cache nc) (pub_current (ps ! j))))"

lemma delivery_step:
  assumes "stream_ok ps" "k < length ps" "faithful ps nc"
  shows "faithful ps (handle_datagram (datagram_to i (ps ! k)) nc)
    \<and> (nc_pending_snapshots (handle_datagram (datagram_to i (ps ! k)) nc) = nc_pending_snapshots nc
       \<or> (\<exists>snap. shows_publication i ps snap k
            \<and> nc_pending_snapshots (handle_datagram (datagram_to i (ps ! k)) nc) = nc_pending_snapshots nc @ [snap]))"
proof -
  let ?p = "ps ! k"
  have wf: "wf_snapshot (pub_current ?p)" using assms(1,2) by (simp add: stream_ok_def)
  show ?thesis
  proof (cases "pub_keyframe ?p")
    case True
    from keyframe_received [OF this wf, of i nc] show ?thesis
      using assms(2) by (auto simp: faithful_def shows_publication_def)
  next
    case False
    note gap = stream_gap [OF assms(1,2) False]
    show ?thesis
    proof (cases "nc_have_last_snapshot nc \<and> snap_tick (nc_last_snapshot_cache nc) = snap_tick (pub_baseline ?p)")
      case True
      then obtain j where j: "j < length ps" "cache_agrees (nc_last_snapshot_cache nc) (pub_current (ps ! j))" using assms(3) by (auto simp: faithful_def)
      then have "snap_tick (pub_current (ps ! j)) = snap_tick (pub_current (ps ! (k - 1)))" "j < length ps"
        using True gap(2) j by (simp_all add: cache_agrees_def)
      then have "j = k - 1" using stream_tick_inj [OF assms(1)] assms(2) by simp
      then have "cache_agrees (nc_last_snapshot_cache nc) (pub_baseline ?p)" using j(2) gap(2) by simp
      from delta_received [OF False wf gap(3) [folded gap(2)] gap(4,5) _ this, of i] True show ?thesis
        using assms(2) by (auto simp: faithful_def shows_publication_def)
    next
      case no: False
      from delta_dropped [OF False gap(4,5), of nc i] no show ?thesis by (simp add: faithful_def)
    qed
  qed
qed

section \<open>Properties\<close>

text \<open>
  C3 (safety): a client only ever shows worlds the server published. Whatever the network loses,
  repeats or reorders, every snapshot the client queues agrees field by field with one of the
  publications whose datagram has arrived, and carries this client's own acknowledgement of it.
\<close>

theorem client_shows_only_published_worlds:
  assumes "broadcasting ps s" "stride s \<le> 255" "set ks \<subseteq> {..<length ps}"
    and "\<not> nc_have_last_snapshot nc" "nc_pending_snapshots nc = []"
  shows "\<forall>snap \<in> set (nc_pending_snapshots (deliver i ps ks nc)).
    \<exists>k \<in> set ks. cache_agrees snap (pub_current (ps ! k)) \<and> last_input_seq snap = pub_acks (ps ! k) ! i"
proof -
  have ok: "stream_ok ps" using broadcasting_ok [OF assms(1,2)] by blast
  have "faithful ps (deliver i ps ks nc)
      \<and> set (nc_pending_snapshots (deliver i ps ks nc)) \<subseteq> {snap. \<exists>k \<in> set ks. shows_publication i ps snap k}"
    using assms(3)
  proof (induction ks rule: rev_induct)
    case Nil
    then show ?case using assms(4,5) by (simp add: deliver_def faithful_def)
  next
    case (snoc k ks)
    have "deliver i ps (ks @ [k]) nc = handle_datagram (datagram_to i (ps ! k)) (deliver i ps ks nc)" by (simp add: deliver_def)
    then show ?case using snoc delivery_step [OF ok, of k "deliver i ps ks nc" i] by fastforce
  qed
  then show ?thesis by (auto simp: shows_publication_def)
qed

definition sample_dir :: ray_direction where
  "sample_dir a = (1024, 0)"

definition first_publication :: publication where
  "first_publication = publication_of (win_check (before_win_check sample_dir (Sim InboundQueue OutboundQueue)))"

lemma first_published: "broadcasting [first_publication] (tick sample_dir (Sim InboundQueue OutboundQueue))"
  "stride (tick sample_dir (Sim InboundQueue OutboundQueue)) = 1"
proof -
  let ?s = "Sim InboundQueue OutboundQueue"
  have one: "stride ?s = 1" by (simp add: stride_def Sim_def config_defs cdiv_def)
  let ?s' = "win_check (before_win_check sample_dir ?s)"
  have due: "publish_due (with_acks ?s')"
    using due_iff [of "with_acks ?s'"] pre_publish(6) [OF refl, of sample_dir ?s] one by simp
  have "broadcasting [] ?s" by (rule broadcasting.start) (simp_all add: Sim_def)
  from broadcasting.ticked [OF this _ refl, of sample_dir] due
  show "broadcasting [first_publication] (tick sample_dir ?s)" by (simp add: first_publication_def Sim_def)
  show "stride (tick sample_dir ?s) = 1" 
    using end_publish(2) [of ?s'] tick_end [OF refl, of sample_dir ?s] pre_publish(6) [OF refl, of sample_dir ?s] one by simp
qed

theorem client_shows_only_published_worlds_witness:
  "list_all (\<lambda>snap. cache_agrees snap (pub_current first_publication) \<and> last_input_seq snap = pub_acks first_publication ! 2)
     (nc_pending_snapshots (deliver 2 [first_publication] [0, 0] NetClient))"
  using client_shows_only_published_worlds [OF first_published(1), of "[0, 0]" NetClient 2] first_published(2)
  by (simp add: NetClient_def list_all_iff)

text \<open>
  C5 (liveness): a client recovers from any loss. From whatever state it is in, the next keyframe
  (every \<open>kSnapshotKeyframeInterval\<close>-th publication is one) and the publications after it, arriving
  in order, are all accepted: the client queues exactly one snapshot for each of them, in order,
  and each agrees with its publication.
\<close>

theorem keyframe_recovers_the_stream:
  assumes "broadcasting ps s" "stride s \<le> 255" "a mod kSnapshotKeyframeInterval = 0" "a \<le> b" "b < length ps"
  shows "\<exists>snaps. nc_pending_snapshots (deliver i ps [a..<b + 1] nc) = nc_pending_snapshots nc @ snaps
    \<and> list_all2 (\<lambda>snap k. cache_agrees snap (pub_current (ps ! k)) \<and> last_input_seq snap = pub_acks (ps ! k) ! i) snaps [a..<b + 1]"
proof -
  have ok: "stream_ok ps" using broadcasting_ok [OF assms(1,2)] by blast
  let ?seen = "\<lambda>snap k. cache_agrees snap (pub_current (ps ! k)) \<and> last_input_seq snap = pub_acks (ps ! k) ! i"
  have "nc_have_last_snapshot (deliver i ps [a..<b + 1] nc) \<and> cache_agrees (nc_last_snapshot_cache (deliver i ps [a..<b + 1] nc)) (pub_current (ps ! b))
    \<and> (\<exists>snaps. nc_pending_snapshots (deliver i ps [a..<b + 1] nc) = nc_pending_snapshots nc @ snaps \<and> list_all2 ?seen snaps [a..<b + 1])"
    using assms(4,5)
  proof (induction b rule: nat_induct_at_least)
    case base
    have "pub_keyframe (ps ! a)" "wf_snapshot (pub_current (ps ! a))" using ok base assms(3) by (simp_all add: stream_ok_def)
    from keyframe_received [OF this, of i nc] show ?case by (auto simp: deliver_def)
  next
    case (Suc b)
    let ?nc = "deliver i ps [a..<b + 1] nc" and ?p = "ps ! Suc b"
    have step: "deliver i ps [a..<Suc b + 1] nc = handle_datagram (datagram_to i ?p) ?nc" using Suc.hyps by (simp add: deliver_def)
    have ih: "nc_have_last_snapshot ?nc" "cache_agrees (nc_last_snapshot_cache ?nc) (pub_current (ps ! b))" using Suc by simp_all
    obtain snaps where snaps: "nc_pending_snapshots ?nc = nc_pending_snapshots nc @ snaps" "list_all2 ?seen snaps [a..<b + 1]"
      using Suc by auto
    have wf: "wf_snapshot (pub_current ?p)" using ok Suc.prems by (simp add: stream_ok_def)
    have "\<exists>snap. nc_pending_snapshots (handle_datagram (datagram_to i ?p) ?nc) = nc_pending_snapshots ?nc @ [snap] \<and> ?seen snap (Suc b)
        \<and> nc_last_snapshot_cache (handle_datagram (datagram_to i ?p) ?nc) = snap \<and> nc_have_last_snapshot (handle_datagram (datagram_to i ?p) ?nc)"
    proof (cases "pub_keyframe ?p")
      case True
      from keyframe_received [OF this wf, of i ?nc] show ?thesis by auto
    next
      case False
      note gap = stream_gap [OF ok Suc.prems False]
      have "cache_agrees (nc_last_snapshot_cache ?nc) (pub_baseline ?p)" using ih(2) gap(2) by simp
      from delta_received [OF False wf gap(3) [folded gap(2)] gap(4,5) ih(1) this, of i] show ?thesis using ih(1) by auto
    qed
    then obtain snap where new: "nc_pending_snapshots (handle_datagram (datagram_to i ?p) ?nc) = nc_pending_snapshots ?nc @ [snap]" "?seen snap (Suc b)"
      "nc_last_snapshot_cache (handle_datagram (datagram_to i ?p) ?nc) = snap" "nc_have_last_snapshot (handle_datagram (datagram_to i ?p) ?nc)"
      by blast
    have "list_all2 ?seen (snaps @ [snap]) ([a..<b + 1] @ [Suc b])"
      using snaps(2) new(2) by (intro list_all2_appendI) simp_all
    moreover have "[a..<b + 1] @ [Suc b] = [a..<Suc b + 1]" using Suc.hyps by simp
    ultimately have "list_all2 ?seen (snaps @ [snap]) [a..<Suc b + 1]" by (simp only:)
    then show ?case unfolding step using new snaps(1) by (intro conjI exI [of _ "snaps @ [snap]"]) simp_all
  qed
  then show ?thesis by blast
qed

theorem keyframe_recovers_the_stream_witness:
  "length (nc_pending_snapshots (deliver 2 [first_publication] [0] NetClient)) = 1"
  using keyframe_recovers_the_stream [OF first_published(1), of 0 0 2 NetClient] first_published(2)
  by (auto simp: NetClient_def dest: list_all2_lengthD)

end
