(* ===== verification/Client_Types.thy ===== *)
theory Client_Types
  imports Net_Client
begin

text \<open>
  What the client takes from the network is well formed, whatever the bytes: the decoders of the
  messages with a player array reject every count above \<open>kMaxPlayers\<close> and write inside the array,
  so the loops over \<open>players[0..player_count)\<close> in prediction, interpolation, bots and renderer never
  leave it. \<open>yields P d\<close> says that the decoder \<open>d\<close> ends with a result in \<open>P\<close> on every input.
\<close>

section \<open>Results of decoders\<close>

definition yields :: "('a \<Rightarrow> bool) \<Rightarrow> (byte_reader, 'a) state \<Rightarrow> bool" where
  "yields P d \<longleftrightarrow> (\<forall>r. P (fst (run_state d r)))"

named_theorems yields_intros

lemma yields_return [yields_intros]: "P x \<Longrightarrow> yields P (State_Monad.return x)"
  by (simp add: yields_def)

lemma yields_bind [yields_intros]: "(\<And>x. yields P (f x)) \<Longrightarrow> yields P (d \<bind> f)"
  unfolding yields_def fst_bind by blast

lemma yields_then: "yields Q d \<Longrightarrow> (\<And>x. Q x \<Longrightarrow> yields P (f x)) \<Longrightarrow> yields P (d \<bind> f)"
  unfolding yields_def fst_bind by blast

lemma yields_if [yields_intros]: "(b \<Longrightarrow> yields P d) \<Longrightarrow> (\<not> b \<Longrightarrow> yields P e) \<Longrightarrow> yields P (if b then d else e)"
  by simp

lemma yields_case [yields_intros]:
  "yields P d \<Longrightarrow> (\<And>x. res = Some x \<Longrightarrow> yields P (f x)) \<Longrightarrow> yields P (case res of None \<Rightarrow> d | Some x \<Rightarrow> f x)"
  by (cases res) auto

lemma yields_option:
  assumes "yields (pred_option Q) d" "\<And>x. Q x \<Longrightarrow> yields (pred_option P) (f x)"
  shows "yields (pred_option P) (d \<bind> (\<lambda>res. case res of None \<Rightarrow> State_Monad.return None | Some x \<Rightarrow> f x))"
  by (rule yields_then [OF assms(1)]) (auto intro!: yields_intros assms(2))

lemma yields_slots:
  assumes "\<And>j out. Q out \<Longrightarrow> yields (pred_option Q) (body j out)" "Q out"
  shows "yields (pred_option Q) (read_slots i k body out)"
  using assms(2)
proof (induction k arbitrary: i out)
  case 0
  then show ?case by (simp add: yields_return)
next
  case (Suc k)
  then show ?case unfolding read_slots.simps by (intro yields_option [where Q = Q] assms(1))
qed

lemma yields_received: "yields (pred_option P) dec \<Longrightarrow> received dec bs = Some m \<Longrightarrow> P m"
  by (auto simp: yields_def received_def dest!: spec [where x = "ByteReader bs (length bs)"])

lemma yields_decoded: "yields (pred_option P) dec \<Longrightarrow> decoded dec bs = Some m \<Longrightarrow> P m"
  using yields_received [of P dec bs m] by (auto simp: decoded_def received_def split: prod.splits option.splits if_splits)

section \<open>The messages with arrays\<close>

definition wf_lobby_state :: "msg_lobby_state \<Rightarrow> bool" where
  "wf_lobby_state m \<longleftrightarrow> unat (ls_player_count m) \<le> kMaxPlayers \<and> length (ls_ids m) = kMaxPlayers
     \<and> length (ls_names m) = kMaxPlayers \<and> list_all (\<lambda>name. length name = kNameBytes) (ls_names m)"

definition wf_game_start :: "msg_game_start \<Rightarrow> bool" where
  "wf_game_start m \<longleftrightarrow> unat (gs_player_count m) \<le> kMaxPlayers \<and> length (gs_ids m) = kMaxPlayers
     \<and> length (gs_teams m) = kMaxPlayers \<and> length (gs_spawn_points m) = kMaxPlayers"

lemmas wf_defs = wf_lobby_state_def wf_game_start_def wf_snapshot_def

lemma wf_defaults: "wf_lobby_state default_lobby_state" "wf_game_start default_game_start"
  by (simp_all add: wf_defs default_lobby_state_def default_game_start_def list_all_iff)

lemma yields_bytes: "yields (\<lambda>bs. length bs = n) (read_n n)"
proof (induction n)
  case (Suc n)
  then show ?case unfolding read_n.simps by (intro yields_bind yields_then [OF Suc] yields_return) simp
qed (simp add: yields_return)

lemma lobby_slot_wf: "wf_lobby_state out \<Longrightarrow> yields (pred_option wf_lobby_state) (decode_lobby_slot i out)"
  unfolding decode_lobby_slot_def read_name_def
  by (rule yields_bind, rule yields_then [OF yields_bytes], rule yields_return)
    (auto simp: wf_defs list_all_iff dest!: subsetD [OF set_update_subset_insert])

lemma lobby_state_wf: "yields (pred_option wf_lobby_state) decode_lobby_state"
  unfolding decode_lobby_state_def
  by (intro yields_bind yields_if yields_return yields_option [where Q = wf_lobby_state] yields_slots lobby_slot_wf)
    (auto simp: wf_defs default_lobby_state_def list_all_iff)

lemma game_start_wf: "yields (pred_option wf_game_start) decode_game_start"
  unfolding decode_game_start_def decode_game_start_slot_def
  by (intro yields_bind yields_if yields_return yields_option [where Q = wf_game_start] yields_slots yields_case)
    (auto simp: wf_defs default_game_start_def)

lemma world_snapshot_wf: "yields (pred_option wf_snapshot) decode_world_snapshot"
  unfolding decode_world_snapshot_def decode_snapshot_slot_def Let_def
  by (intro yields_bind yields_if yields_return yields_option [where Q = wf_snapshot] yields_slots yields_case)
    (auto simp: wf_defs default_snapshot_def)

lemma yields_read_if: "(\<And>v. P (put v out)) \<Longrightarrow> P out \<Longrightarrow> yields P (read_if b d put out)"
  by (auto simp: read_if_def intro!: yields_intros)

lemma delta_slot_wf: "wf_snapshot out \<Longrightarrow> yields (pred_option wf_snapshot) (decode_delta_slot pchange i out)"
  unfolding decode_delta_slot_def by (intro yields_bind yields_if yields_return) (simp_all add: wf_snapshot_def)

lemma delta_flag_wf:
  "(\<And>st c. wf_snapshot (put st c out)) \<Longrightarrow> wf_snapshot out \<Longrightarrow> yields (pred_option wf_snapshot) (decode_delta_flag b put out)"
  unfolding decode_delta_flag_def by (intro yields_bind yields_if yields_return) (auto simp: option.pred_map pred_option_def)

lemma delta_count_wf: "wf_snapshot out \<Longrightarrow> yields (pred_option wf_snapshot) (decode_delta_count b out)"
  unfolding decode_delta_count_def by (intro yields_bind yields_if yields_return) (auto simp: wf_snapshot_def)

lemma delta_snapshot_wf:
  assumes "wf_snapshot cache"
  shows "yields (pred_option wf_snapshot) (decode_delta_snapshot current_tick cache)"
proof -
  have wf: "wf_snapshot (s\<lparr>score_red := a\<rparr>) = wf_snapshot s" "wf_snapshot (s\<lparr>score_blue := a\<rparr>) = wf_snapshot s"
    "wf_snapshot (s\<lparr>seconds_remaining := b\<rparr>) = wf_snapshot s" "wf_snapshot (s\<lparr>flag_state_red := st, flag_carrier_red := a\<rparr>) = wf_snapshot s"
    "wf_snapshot (s\<lparr>flag_state_blue := st, flag_carrier_blue := a\<rparr>) = wf_snapshot s" "wf_snapshot (s\<lparr>last_input_seq := n\<rparr>) = wf_snapshot s"
    "wf_snapshot (s\<lparr>snap_tick := n\<rparr>) = wf_snapshot s" for s a b st n
    by (simp_all add: wf_snapshot_def)
  have opt: "yields (pred_option wf_snapshot) d \<Longrightarrow> (\<And>x. wf_snapshot x \<Longrightarrow> yields (pred_option wf_snapshot) (f x)) \<Longrightarrow>
      yields (pred_option wf_snapshot) (d \<bind> (\<lambda>res. case res of None \<Rightarrow> State_Monad.return None | Some x \<Rightarrow> f x))" for d f
    by (rule yields_option)
  have read: "yields wf_snapshot (read_if b d put out)" if "\<And>v. wf_snapshot (put v out)" "wf_snapshot out" for b d put out
    using that by (rule yields_read_if)
  show ?thesis
    unfolding decode_delta_snapshot_def
    apply (rule yields_bind, rule yields_bind, rule yields_bind, rule yields_bind)
    apply (intro yields_if yields_return option.pred_inject(1))
    apply (rule yields_then [OF read], use assms in \<open>simp_all add: wf\<close>)+
    apply (rule opt [OF delta_flag_wf], simp_all add: wf)+
    apply (rule opt [OF delta_count_wf], assumption)
    apply (rule yields_bind, rule yields_bind)
    apply (intro yields_if yields_return opt yields_slots delta_slot_wf)
    apply (simp_all add: wf)
    done
qed

section \<open>The client\<close>

primrec wf_event :: "game_event \<Rightarrow> bool" where
  "wf_event (EvLobbyState m) \<longleftrightarrow> wf_lobby_state m"
| "wf_event (EvGameStart m) \<longleftrightarrow> wf_game_start m"
| "wf_event (EvPlayerKilled m) \<longleftrightarrow> True"
| "wf_event (EvPlayerRespawned m) \<longleftrightarrow> True"
| "wf_event (EvFlagPickedUp m) \<longleftrightarrow> True"
| "wf_event (EvFlagDropped m) \<longleftrightarrow> True"
| "wf_event (EvFlagReturned m) \<longleftrightarrow> True"
| "wf_event (EvFlagCaptured m) \<longleftrightarrow> True"
| "wf_event (EvMatchEnd m) \<longleftrightarrow> True"
| "wf_event (EvShotFired m) \<longleftrightarrow> True"

definition client_typed :: "net_client \<Rightarrow> bool" where
  "client_typed nc \<longleftrightarrow> wf_snapshot (nc_last_snapshot_cache nc) \<and> list_all wf_snapshot (nc_pending_snapshots nc)
     \<and> list_all wf_event (nc_pending_events nc) \<and> wf_lobby_state (nc_lobby_state nc) \<and> wf_game_start (nc_game_start nc)"

lemma typed_start: "client_typed NetClient"
  by (simp add: client_typed_def NetClient_def wf_defaults wf_default_snapshot)

lemma typed_frame [simp]:
  "client_typed (nc\<lparr>nc_tcp_rx_buf := b\<rparr>) = client_typed nc" "client_typed (nc\<lparr>nc_state := st\<rparr>) = client_typed nc"
  "client_typed (nc\<lparr>nc_tcp_fd := fd\<rparr>) = client_typed nc" "client_typed (nc\<lparr>nc_udp_fd := fd\<rparr>) = client_typed nc"
  "client_typed (nc\<lparr>nc_tcp_sent := sent\<rparr>) = client_typed nc" "client_typed (nc\<lparr>nc_udp_sent := sent\<rparr>) = client_typed nc"
  "client_typed (nc\<lparr>nc_last_udp_hello_sent_ms := t\<rparr>) = client_typed nc" "client_typed (nc\<lparr>nc_last_heartbeat_sent_ms := t\<rparr>) = client_typed nc"
  "client_typed (nc\<lparr>nc_have_last_snapshot := have\<rparr>) = client_typed nc" "client_typed (nc\<lparr>nc_server_ipv4 := ip\<rparr>) = client_typed nc"
  "client_typed (nc\<lparr>nc_player_id := pid\<rparr>) = client_typed nc" "client_typed (nc\<lparr>nc_session_token := tok\<rparr>) = client_typed nc"
  "client_typed (nc\<lparr>nc_server_udp_port := port\<rparr>) = client_typed nc" "client_typed (nc\<lparr>nc_join_reject_reason := reason\<rparr>) = client_typed nc"
  "client_typed (nc\<lparr>nc_first_snapshot_received := have\<rparr>) = client_typed nc"
  by (simp_all add: client_typed_def)

lemma typed_disconnect [simp]: "client_typed (disconnect nc) = client_typed nc"
  by (simp add: disconnect_def)

lemma typed_send [simp]:
  "client_typed (send_tcp_frame ty payload nc) = client_typed nc" "client_typed (send_udp_hello now nc) = client_typed nc"
  by (simp_all add: send_tcp_frame_def send_udp_hello_def Let_def)

lemma typed_snapshot:
  assumes "client_typed nc" "wf_snapshot snap"
  shows "client_typed (nc\<lparr>nc_last_snapshot_cache := snap, nc_have_last_snapshot := h, nc_first_snapshot_received := f,
      nc_pending_snapshots := nc_pending_snapshots nc @ [snap]\<rparr>)"
    "client_typed (nc\<lparr>nc_last_snapshot_cache := snap, nc_first_snapshot_received := f,
      nc_pending_snapshots := nc_pending_snapshots nc @ [snap]\<rparr>)"
  using assms by (simp_all add: client_typed_def)

lemma typed_push: "client_typed nc \<Longrightarrow> wf_event ev \<Longrightarrow> client_typed (push_event ev nc)"
  by (simp add: client_typed_def push_event_def)

lemma typed_push_decoded: "client_typed nc \<Longrightarrow> (\<And>m. wf_event (mk m)) \<Longrightarrow> client_typed (push_decoded mk res nc)"
  by (simp add: push_decoded_def typed_push split: option.split)

lemma typed_tcp_frame:
  assumes "client_typed nc"
  shows "client_typed (dispatch_tcp_frame ty payload nc)"
proof -
  have lobby: "client_typed (case decoded decode_lobby_state payload of None \<Rightarrow> nc
      | Some m \<Rightarrow> push_event (EvLobbyState m) (nc\<lparr>nc_lobby_state := m\<rparr>))"
    using assms yields_decoded [OF lobby_state_wf]
    by (auto simp: client_typed_def push_event_def split: option.split)
  have start: "client_typed (case decoded decode_game_start payload of None \<Rightarrow> nc
      | Some m \<Rightarrow> push_event (EvGameStart m) (nc\<lparr>nc_game_start := m, nc_state := NcInGame\<rparr>))"
    using assms yields_decoded [OF game_start_wf]
    by (auto simp: client_typed_def push_event_def split: option.split)
  show ?thesis unfolding dispatch_tcp_frame_def using assms lobby start by (simp add: typed_push_decoded del: message_type_byte.simps)
qed

lemma typed_datagram:
  assumes "client_typed nc"
  shows "client_typed (handle_datagram buf nc)"
proof -
  have full: "wf_snapshot snap" if "decoded decode_world_snapshot payload = Some snap" for payload snap
    using yields_decoded [OF world_snapshot_wf that] .
  have delta: "wf_snapshot snap" if "received (decode_delta_snapshot tick (nc_last_snapshot_cache nc)) payload = Some snap" for tick payload snap
    using yields_received [OF delta_snapshot_wf that] assms by (simp add: client_typed_def)
  have "client_typed (dispatch_udp_payload ty tick payload nc)" for ty tick payload
    unfolding dispatch_udp_payload_def using assms
    by (simp add: typed_push_decoded typed_snapshot full delta split: option.split del: message_type_byte.simps)
  then show ?thesis using assms by (simp add: handle_datagram_def split: option.split)
qed

lemma typed_drain_udp: "client_typed nc \<Longrightarrow> client_typed (drain_udp rs nc)"
  by (induction rs arbitrary: nc) (simp_all add: typed_datagram split: recv_outcome.split)

lemma typed_recv_tcp: "client_typed nc \<Longrightarrow> client_typed (snd (recv_tcp rs nc))"
  by (induction rs arbitrary: nc) (simp_all split: recv_outcome.split)

lemma typed_frames: "client_typed nc \<Longrightarrow> client_typed (dispatch_frames nc)"
proof (induction nc rule: dispatch_frames.induct)
  case (1 nc)
  then show ?case using typed_tcp_frame
    by (auto simp: dispatch_frames.simps [of nc] Let_def split: frame_result.split)
qed

lemma typed_drain_tcp: "client_typed nc \<Longrightarrow> client_typed (drain_tcp rs nc)"
  by (simp add: drain_tcp_def case_prod_beta typed_frames typed_recv_tcp)

lemma typed_timers [simp]:
  "client_typed (maybe_resend_udp_hello now nc) = client_typed nc" "client_typed (maybe_send_heartbeat now nc) = client_typed nc"
  by (simp_all add: maybe_resend_udp_hello_def maybe_send_heartbeat_def)

lemma typed_poll: "client_typed nc \<Longrightarrow> client_typed (client_poll tcp udp now1 now2 nc)"
  by (simp add: client_poll_def Let_def typed_drain_udp typed_drain_tcp)

lemma typed_join_server: "client_typed nc \<Longrightarrow> client_typed (snd (join_server name ws nc))"
  by (simp add: join_server_def wait_for_tcp_frame_def Let_def case_prod_beta del: message_type_byte.simps split: option.split)

lemma typed_join: "client_typed nc \<Longrightarrow> client_typed (snd (connect_and_join env name ws nc))"
  by (simp add: connect_and_join_def Let_def typed_join_server split: connect_env.split)

lemma typed_take: "client_typed nc \<Longrightarrow> client_typed (snd (take_events (snd (take_snapshots nc))))"
  by (simp add: take_events_def take_snapshots_def client_typed_def)

section \<open>Property\<close>

text \<open>One round of a frame loop: poll the network, then take what has arrived.\<close>

definition poll_round :: "recv_outcome list \<times> recv_outcome list \<times> u32 \<times> u32 \<Rightarrow> net_client \<Rightarrow> net_client" where
  "poll_round = (\<lambda>(tcp, udp, now1, now2) nc. snd (take_events (snd (take_snapshots (client_poll tcp udp now1 now2 nc)))))"

text \<open>
  C13 (type): nothing that arrives can give the client an ill-formed message. Whatever bytes the two
  sockets deliver, in the handshake and in any number of polls, the next poll hands out only
  snapshots, lobby rosters and match rosters whose count is at most \<open>kMaxPlayers\<close> and whose arrays
  have exactly \<open>kMaxPlayers\<close> slots, with 16 bytes in every name, and the cache against which deltas
  are applied is such a snapshot too.
\<close>

theorem received_messages_well_formed:
  "let nc = client_poll tcp udp now1 now2 (fold poll_round rounds (snd (connect_and_join env name ws NetClient)))
   in list_all wf_snapshot (fst (take_snapshots nc)) \<and> list_all wf_event (fst (take_events nc))
     \<and> wf_snapshot (nc_last_snapshot_cache nc) \<and> wf_lobby_state (nc_lobby_state nc) \<and> wf_game_start (nc_game_start nc)"
proof -
  have "client_typed (poll_round io nc)" if "client_typed nc" for io nc
    using that typed_take typed_poll by (simp add: poll_round_def split: prod.split)
  then have "client_typed (fold poll_round rounds nc)" if "client_typed nc" for nc
    using that by (induction rounds arbitrary: nc) simp_all
  from typed_poll [OF this [OF typed_join [OF typed_start]]] show ?thesis
    by (simp add: client_typed_def take_snapshots_def take_events_def Let_def)
qed

end
