(* ===== verification/Prediction.thy ===== *)
theory Prediction
  imports Movement Ring_Buffer Protocol_Codecs
begin

text \<open>
  \<open>client/prediction.h\<close> and \<open>client/prediction.cpp\<close>: the client runs the physics step for its own
  player as soon as an input is sampled, keeps the inputs in a ring of 64, and on every snapshot
  drops the acknowledged ones, snaps to the server's position and replays the rest.

  The lemmas show that the history is a gap-free run of sequence numbers that ends at the current
  one, that reconciliation yields the server's position advanced by exactly the unacknowledged
  inputs, and that a correct prediction is left as it is.
\<close>

section \<open>State and operations\<close>

record input_history_entry =
  he_seq :: u32
  he_input :: input_cmd
  he_state_after :: player_motion

definition default_history_entry :: input_history_entry where
  "default_history_entry = \<lparr>he_seq = 0, he_input = default_input, he_state_after = default_motion\<rparr>"

record prediction =
  pd_seq :: u32
  pd_last_applied_tick :: u32
  pd_local_state :: player_motion
  pd_history :: "input_history_entry ring_buffer"
  pd_mispredictions :: u32

definition Prediction :: prediction where
  "Prediction = \<lparr>pd_seq = 0, pd_last_applied_tick = 0, pd_local_state = default_motion,
     pd_history = RingBuffer kInputHistoryRingSize default_history_entry, pd_mispredictions = 0\<rparr>"

definition on_local_tick :: "input_cmd \<Rightarrow> prediction \<Rightarrow> prediction" where
  "on_local_tick cmd pd =
     (let pd = pd\<lparr>pd_seq := pd_seq pd + 1\<rparr>;
          pd = pd\<lparr>pd_local_state := movement_step (pd_local_state pd) cmd\<rparr>;
          entry = \<lparr>he_seq = pd_seq pd, he_input = cmd, he_state_after = pd_local_state pd\<rparr>
      in pd\<lparr>pd_history := push_back entry (pd_history pd)\<rparr>)"

text \<open>One round of the replay loop over the ring: advance the state and store it in the entry.\<close>

definition replay_step :: "nat \<Rightarrow> player_motion \<times> input_history_entry ring_buffer
    \<Rightarrow> player_motion \<times> input_history_entry ring_buffer" where
  "replay_step i = (\<lambda>(st, r).
     let e = rb_at r i;
         st = movement_step st (he_input e)
     in (st, r\<lparr>rb_data := (rb_data r)[(rb_head r + i) mod rb_capacity r := e\<lparr>he_state_after := st\<rparr>]\<rparr>))"

definition on_snapshot :: "world_snapshot \<Rightarrow> u8 \<Rightarrow> prediction \<Rightarrow> prediction" where
  "on_snapshot snap my_player_id pd =
     (if snap_tick snap \<le> pd_last_applied_tick pd then pd
      else
        let pd = pd\<lparr>pd_last_applied_tick := snap_tick snap\<rparr> in
        case find_snap_player snap my_player_id of
          None \<Rightarrow> pd
        | Some auth_ps \<Rightarrow>
            let ack = last_input_seq snap;
                auth = ps_motion auth_ps;
                pd = (case List.find (\<lambda>e. he_seq e = ack) (rb_items (pd_history pd)) of
                        None \<Rightarrow> pd
                      | Some e \<Rightarrow>
                          if vx (position (he_state_after e)) \<noteq> vx (position auth)
                             \<or> vy (position (he_state_after e)) \<noteq> vy (position auth)
                          then pd\<lparr>pd_mispredictions := pd_mispredictions pd + 1\<rparr> else pd);
                hist = remove_if (\<lambda>e. he_seq e \<le> ack) (pd_history pd);
                start = \<lparr>position = position auth, velocity = Vec2Fixed 0 0\<rparr>;
                (st, hist) = fold replay_step [0..<rb_size hist] (start, hist)
            in pd\<lparr>pd_local_state := st, pd_history := hist\<rparr>)"

section \<open>Replay\<close>

text \<open>Replaying entries from a state: the final state and the entries with their new states.\<close>

primrec replay :: "player_motion \<Rightarrow> input_history_entry list \<Rightarrow> input_history_entry list" where
  "replay st [] = []"
| "replay st (e # es) =
     (let st = movement_step st (he_input e) in e\<lparr>he_state_after := st\<rparr> # replay st es)"

definition advance_by :: "player_motion \<Rightarrow> input_history_entry list \<Rightarrow> player_motion" where
  "advance_by st es = foldl (\<lambda>st e. movement_step st (he_input e)) st es"

lemma length_replay [simp]: "length (replay st es) = length es"
  by (induction es arbitrary: st) (simp_all add: Let_def)

lemma replay_append: "replay st (es @ fs) = replay st es @ replay (advance_by st es) fs"
  by (induction es arbitrary: st) (simp_all add: Let_def advance_by_def)

lemma replay_seqs: "map he_seq (replay st es) = map he_seq es" "map he_input (replay st es) = map he_input es"
  by (induction es arbitrary: st) (simp_all add: Let_def)

text \<open>The loop over the ring is the list function: after \<open>i\<close> rounds the first \<open>i\<close> entries are replayed.\<close>

lemma replay_loop:
  assumes inv: "rb_inv cap r" and i: "i \<le> rb_size r"
  shows "case fold replay_step [0..<i] (st, r) of (st', r') \<Rightarrow>
    st' = advance_by st (take i (rb_items r)) \<and> rb_inv cap r' \<and> rb_size r' = rb_size r
    \<and> rb_items r' = replay st (take i (rb_items r)) @ drop i (rb_items r)"
  using i
proof (induction i)
  case 0
  then show ?case using inv by (simp add: advance_by_def)
next
  case (Suc i)
  obtain st' r' where f: "fold replay_step [0..<i] (st, r) = (st', r')" by fastforce
  have ih: "st' = advance_by st (take i (rb_items r))" "rb_inv cap r'" "rb_size r' = rb_size r"
      "rb_items r' = replay st (take i (rb_items r)) @ drop i (rb_items r)"
    using Suc f by simp_all
  let ?e = "rb_items r ! i" and ?slot = "\<lambda>j. (rb_head r' + j) mod rb_capacity r'"
  have lt: "i < rb_size r" using Suc.prems by simp
  have e: "rb_at r' i = ?e"
    using nth_rb_items [of i r'] ih(3,4) lt by (simp add: nth_append)
  let ?st = "movement_step st' (he_input ?e)"
  let ?r = "r'\<lparr>rb_data := (rb_data r')[?slot i := ?e\<lparr>he_state_after := ?st\<rparr>]\<rparr>"
  have step: "fold replay_step [0..<Suc i] (st, r) = (?st, ?r)"
    by (simp add: f replay_step_def Let_def e)
  have cap: "rb_capacity r' = cap" "rb_size r' \<le> cap" "0 < cap" using ih(2) by (simp_all add: rb_inv_def)
  have "rb_items ?r = (rb_items r')[i := ?e\<lparr>he_state_after := ?st\<rparr>]"
  proof (rule nth_equalityI)
    fix j assume "j < length (rb_items ?r)"
    then have j: "j < rb_size r'" by simp
    have "?slot j = ?slot i \<longleftrightarrow> j = i"
      using slot_inj [of j "rb_capacity r'" i "rb_head r'"] j lt ih(3) cap by simp
    then show "rb_items ?r ! j = (rb_items r')[i := ?e\<lparr>he_state_after := ?st\<rparr>] ! j"
      using j lt ih(3) cap by (auto simp: nth_rb_items nth_list_update rb_at_def)
  qed simp
  moreover have "take (Suc i) (rb_items r) = take i (rb_items r) @ [?e]" "drop i (rb_items r) = ?e # drop (Suc i) (rb_items r)"
    using lt by (simp_all add: take_Suc_conv_app_nth Cons_nth_drop_Suc)
  ultimately show ?case
    using ih lt unfolding step prod.case
    by (simp add: replay_append advance_by_def list_update_append rb_inv_def Let_def)
qed

lemma replay_whole:
  assumes "rb_inv cap r" "fold replay_step [0..<rb_size r] (st, r) = (st', r')"
  shows "st' = advance_by st (rb_items r)" "rb_inv cap r'" "rb_items r' = replay st (rb_items r)"
  using replay_loop [OF assms(1) order_refl, of st] assms(2) by simp_all

lemma advance_position:
  assumes "position st = position st'"
  shows "replay st es = replay st' es" "position (advance_by st es) = position (advance_by st' es)"
    "es \<noteq> [] \<Longrightarrow> advance_by st es = advance_by st' es"
proof -
  have step: "movement_step st cmd = movement_step st' cmd" for cmd using movement_depends [OF assms refl] .
  show "replay st es = replay st' es" by (cases es) (simp_all add: step)
  show "position (advance_by st es) = position (advance_by st' es)" using assms by (cases es) (simp_all add: step advance_by_def)
  show "es \<noteq> [] \<Longrightarrow> advance_by st es = advance_by st' es" by (cases es) (simp_all add: step advance_by_def)
qed

section \<open>Invariant\<close>

text \<open>
  The history is a run of consecutive sequence numbers up to the current one, and it chains: each
  stored state is the step of the one before, the last one is the predicted state.
\<close>

definition pred_inv :: "prediction \<Rightarrow> bool" where
  "pred_inv pd \<longleftrightarrow> rb_inv kInputHistoryRingSize (pd_history pd)
     \<and> map (\<lambda>e. unat (he_seq e)) (rb_items (pd_history pd)) =
         [unat (pd_seq pd) + 1 - rb_size (pd_history pd)..<unat (pd_seq pd) + 1]
     \<and> (\<exists>st. rb_items (pd_history pd) = replay st (rb_items (pd_history pd))
          \<and> pd_local_state pd = advance_by st (rb_items (pd_history pd)))"

lemma pred_inv_start: "pred_inv Prediction"
  by (simp add: pred_inv_def Prediction_def rb_inv_RingBuffer rb_items_RingBuffer config_defs advance_by_def)
    (simp add: RingBuffer_def)

lemma upt_keep_last:
  assumes "a \<le> b"
  shows "keep_last n [a..<b] = [max a (b - n)..<b]"
proof -
  have "a + (b - a - n) = max a (b - n)" using assms by linarith
  then show ?thesis unfolding keep_last_def length_upt drop_upt by simp
qed

lemma replay_tl: "es = replay st es \<Longrightarrow> es \<noteq> [] \<Longrightarrow>
    tl es = replay (movement_step st (he_input (hd es))) (tl es)
    \<and> advance_by st es = advance_by (movement_step st (he_input (hd es))) (tl es)"
  by (cases es) (simp_all add: Let_def advance_by_def)

lemma pred_inv_tick:
  assumes inv: "pred_inv pd" and room: "unat (pd_seq pd) + 1 < 2 ^ 32"
  shows "pred_inv (on_local_tick cmd pd)"
proof -
  let ?h = "pd_history pd" and ?es = "rb_items (pd_history pd)" and ?st = "movement_step (pd_local_state pd) cmd"
  let ?e = "\<lparr>he_seq = pd_seq pd + 1, he_input = cmd, he_state_after = ?st\<rparr>"
  let ?h' = "push_back ?e ?h"
  obtain st where st: "?es = replay st ?es" "pd_local_state pd = advance_by st ?es" using inv by (auto simp: pred_inv_def)
  have h: "rb_inv kInputHistoryRingSize ?h" using inv by (simp add: pred_inv_def)
  then have h': "rb_inv kInputHistoryRingSize ?h'" "rb_items ?h' = keep_last kInputHistoryRingSize (?es @ [?e])"
    by (simp_all add: rb_inv_push_back rb_items_push_back)
  have seq: "unat (pd_seq pd + 1) = unat (pd_seq pd) + 1"
    using room by (simp add: unat_word_ariths)
  have size: "rb_size ?h \<le> kInputHistoryRingSize" "rb_size ?h' = min kInputHistoryRingSize (rb_size ?h + 1)"
    using h h'(2) length_rb_items [of ?h'] by (simp_all add: rb_inv_def)
  have old: "map (\<lambda>e. unat (he_seq e)) ?es = [unat (pd_seq pd) + 1 - rb_size ?h..<unat (pd_seq pd) + 1]"
    using inv by (simp add: pred_inv_def)
  have "length ?es = length [unat (pd_seq pd) + 1 - rb_size ?h..<unat (pd_seq pd) + 1]"
    using old by (metis length_map)
  then have le: "rb_size ?h \<le> unat (pd_seq pd) + 1" unfolding length_upt length_rb_items by linarith
  have "map (\<lambda>e. unat (he_seq e)) (keep_last n (?es @ [?e])) = keep_last n (map (\<lambda>e. unat (he_seq e)) (?es @ [?e]))" for n
    by (simp only: keep_last_def drop_map length_map)
  then have "map (\<lambda>e. unat (he_seq e)) (rb_items ?h')
      = keep_last kInputHistoryRingSize [unat (pd_seq pd) + 1 - rb_size ?h..<unat (pd_seq pd) + 2]"
    using old le by (simp add: h'(2) seq)
  also have "\<dots> = [unat (pd_seq pd) + 2 - rb_size ?h'..<unat (pd_seq pd) + 2]"
    using le size by (subst upt_keep_last) (auto simp: max_def min_def intro!: arg_cong2 [where f = upt])
  finally have seqs: "map (\<lambda>e. unat (he_seq e)) (rb_items ?h') = [unat (pd_seq pd + 1) + 1 - rb_size ?h'..<unat (pd_seq pd + 1) + 1]"
    by (simp add: seq)
  have chain: "?es @ [?e] = replay st (?es @ [?e])" "?st = advance_by st (?es @ [?e])"
    using st by (simp_all add: replay_append Let_def advance_by_def)
  have "\<exists>st. rb_items ?h' = replay st (rb_items ?h') \<and> ?st = advance_by st (rb_items ?h')"
  proof (cases "rb_size ?h < kInputHistoryRingSize")
    case True
    then show ?thesis using chain by (intro exI [of _ st]) (simp add: h'(2))
  next
    case False
    then have full: "length ?es = kInputHistoryRingSize" "0 < kInputHistoryRingSize" using size by (simp_all add: config_defs)
    then have "?es \<noteq> []" by (metis length_0_conv less_irrefl)
    then have "rb_items ?h' = tl (?es @ [?e])"
      using keep_last_snoc_full [OF full, of ?e] by (simp add: h'(2))
    then show ?thesis using replay_tl [OF chain(1)] chain(2) by auto
  qed
  then show ?thesis using h' seqs by (simp add: pred_inv_def on_local_tick_def Let_def)
qed

section \<open>Reconciliation\<close>

text \<open>Dropping the acknowledged entries of a consecutive run leaves its tail.\<close>

lemma filter_acked:
  assumes "map (\<lambda>e. unat (he_seq e)) es = [a..<b]"
  shows "filter (Not \<circ> (\<lambda>e. he_seq e \<le> ack)) es = drop (unat ack + 1 - a) es"
  using assms
proof (induction es arbitrary: a)
  case Nil
  then show ?case by simp
next
  case (Cons e es)
  have lt: "a < b" using Cons.prems by (cases "a < b") auto
  then have ab: "unat (he_seq e) = a" "map (\<lambda>e. unat (he_seq e)) es = [Suc a..<b]"
    using Cons.prems by (simp_all add: upt_conv_Cons)
  note ih = Cons.IH [OF ab(2)]
  show ?case
  proof (cases "a \<le> unat ack")
    case True
    then have "unat ack + 1 - a = Suc (unat ack + 1 - Suc a)" by linarith
    then show ?thesis using True ab(1) ih by (simp add: word_le_nat_alt)
  next
    case False
    then have "unat ack + 1 - a = 0" "unat ack + 1 - Suc a = 0" by linarith+
    then show ?thesis using False ab(1) ih by (simp add: word_le_nat_alt)
  qed
qed

definition unacked :: "u32 \<Rightarrow> prediction \<Rightarrow> input_history_entry list" where
  "unacked ack pd = filter (\<lambda>e. ack < he_seq e) (rb_items (pd_history pd))"

lemma on_snapshot_reconciles:
  assumes "rb_inv kInputHistoryRingSize (pd_history pd)" "pd_last_applied_tick pd < snap_tick snap"
    and "find_snap_player snap me = Some ps"
  shows "pd_local_state (on_snapshot snap me pd)
      = advance_by \<lparr>position = position (ps_motion ps), velocity = Vec2Fixed 0 0\<rparr> (unacked (last_input_seq snap) pd)"
    "rb_items (pd_history (on_snapshot snap me pd))
      = replay \<lparr>position = position (ps_motion ps), velocity = Vec2Fixed 0 0\<rparr> (unacked (last_input_seq snap) pd)"
    "rb_inv kInputHistoryRingSize (pd_history (on_snapshot snap me pd))"
    "pd_seq (on_snapshot snap me pd) = pd_seq pd"
    "pd_last_applied_tick (on_snapshot snap me pd) = snap_tick snap"
proof -
  let ?h = "remove_if (\<lambda>e. he_seq e \<le> last_input_seq snap) (pd_history pd)"
  let ?st = "\<lparr>position = position (ps_motion ps), velocity = Vec2Fixed 0 0\<rparr>"
  obtain st' r' where f: "fold replay_step [0..<rb_size ?h] (?st, ?h) = (st', r')" by fastforce
  have h: "rb_inv kInputHistoryRingSize ?h" "rb_items ?h = unacked (last_input_seq snap) pd"
    using remove_if_refines [OF assms(1)] by (simp_all add: unacked_def comp_def not_le)
  note w = replay_whole [OF h(1) f, unfolded h(2)]
  have eq: "\<exists>m. on_snapshot snap me pd = pd\<lparr>pd_last_applied_tick := snap_tick snap, pd_mispredictions := m,
      pd_local_state := st', pd_history := r'\<rparr>"
    using assms(2,3) f unfolding on_snapshot_def Let_def
    by (cases pd) (auto simp: not_less split: option.split)
  then show "pd_local_state (on_snapshot snap me pd) = advance_by ?st (unacked (last_input_seq snap) pd)"
    "rb_items (pd_history (on_snapshot snap me pd)) = replay ?st (unacked (last_input_seq snap) pd)"
    "rb_inv kInputHistoryRingSize (pd_history (on_snapshot snap me pd))"
    "pd_seq (on_snapshot snap me pd) = pd_seq pd"
    "pd_last_applied_tick (on_snapshot snap me pd) = snap_tick snap"
    using w by auto
qed

lemma drop_upt_eq: "drop k [a..<b] = [a + k..<b]"
  by simp

lemma pred_inv_snapshot:
  assumes inv: "pred_inv pd"
  shows "pred_inv (on_snapshot snap me pd)"
proof (cases "pd_last_applied_tick pd < snap_tick snap \<and> find_snap_player snap me \<noteq> None")
  case False
  then show ?thesis using inv by (auto simp: on_snapshot_def pred_inv_def Let_def not_less)
next
  case True
  then obtain ps where ps: "find_snap_player snap me = Some ps" by auto
  let ?pd = "on_snapshot snap me pd" and ?n = "rb_size (pd_history pd)" and ?q = "unat (pd_seq pd) + 1"
  let ?k = "unat (last_input_seq snap) + 1 - (?q - ?n)"
  have h: "rb_inv kInputHistoryRingSize (pd_history pd)"
    and seqs: "map (\<lambda>e. unat (he_seq e)) (rb_items (pd_history pd)) = [?q - ?n..<?q]"
    using inv by (simp_all add: pred_inv_def)
  have tick: "pd_last_applied_tick pd < snap_tick snap" using True by simp
  note r = on_snapshot_reconciles [OF h tick ps]
  have un: "unacked (last_input_seq snap) pd = drop ?k (rb_items (pd_history pd))"
    using filter_acked [OF seqs, of "last_input_seq snap"] by (simp add: unacked_def comp_def not_le)
  have size: "rb_size (pd_history ?pd) = ?n - ?k"
    using length_rb_items [of "pd_history ?pd"] by (simp add: r(2) un)
  have "length (rb_items (pd_history pd)) = length [?q - ?n..<?q]" using seqs by (metis length_map)
  then have le: "?n \<le> ?q" unfolding length_upt length_rb_items by linarith
  have nums: "map (\<lambda>e. unat (he_seq e)) es = map unat (map he_seq es)" for es by simp
  have "map (\<lambda>e. unat (he_seq e)) (rb_items (pd_history ?pd)) = map unat (map he_seq (drop ?k (rb_items (pd_history pd))))"
    unfolding r(2) un nums replay_seqs(1) ..
  also have "\<dots> = drop ?k (map (\<lambda>e. unat (he_seq e)) (rb_items (pd_history pd)))" unfolding nums by (simp only: drop_map)
  also have "\<dots> = drop ?k [?q - ?n..<?q]" unfolding seqs ..
  also have "\<dots> = [?q - (?n - ?k)..<?q]"
  proof (cases "?k \<le> ?n")
    case True
    then show ?thesis using le by (auto intro!: arg_cong2 [where f = upt])
  next
    case False
    then show ?thesis using le by simp
  qed
  finally have "map (\<lambda>e. unat (he_seq e)) (rb_items (pd_history ?pd)) = [?q - (?n - ?k)..<?q]" .
  moreover have "replay st (replay st es) = replay st es" "advance_by st (replay st es) = advance_by st es" for st es
    by (induction es arbitrary: st) (simp_all add: Let_def advance_by_def)
  ultimately show ?thesis
    unfolding pred_inv_def r(4) size using r(1,2,3)
    by (intro conjI exI [of _ "\<lparr>position = position (ps_motion ps), velocity = Vec2Fixed 0 0\<rparr>"]) simp_all
qed

section \<open>Runs of the client\<close>

text \<open>Any interleaving of local ticks and received snapshots; the tick counter does not wrap.\<close>

inductive pred_reachable :: "prediction \<Rightarrow> bool" where
  start: "pred_reachable Prediction"
| ticked: "pred_reachable pd \<Longrightarrow> unat (pd_seq pd) + 1 < 2 ^ 32 \<Longrightarrow> pred_reachable (on_local_tick cmd pd)"
| reconciled: "pred_reachable pd \<Longrightarrow> pred_reachable (on_snapshot snap me pd)"

lemma pred_reachable_inv: "pred_reachable pd \<Longrightarrow> pred_inv pd"
  by (induction rule: pred_reachable.induct) (simp_all add: pred_inv_start pred_inv_tick pred_inv_snapshot)

section \<open>Properties\<close>

text \<open>
  C1 (refinement): reconciliation. A snapshot newer than the last applied one that shows the local
  player puts the predicted position to the server's position advanced by exactly the inputs with a
  sequence number above the acknowledged one, in order, and keeps exactly those in the history; an
  older or repeated snapshot changes nothing.
\<close>

theorem reconciliation_replays_unacked_inputs:
  assumes "pred_reachable pd" "find_snap_player snap me = Some ps"
    and "newer_entries = filter (\<lambda>e. last_input_seq snap < he_seq e) (rb_items (pd_history pd))"
  shows "if pd_last_applied_tick pd < snap_tick snap
    then position (pd_local_state (on_snapshot snap me pd))
           = position (foldl (\<lambda>st e. movement_step st (he_input e)) (ps_motion ps) newer_entries)
         \<and> map (\<lambda>e. (he_seq e, he_input e)) (rb_items (pd_history (on_snapshot snap me pd)))
           = map (\<lambda>e. (he_seq e, he_input e)) newer_entries
    else on_snapshot snap me pd = pd"
proof (cases "pd_last_applied_tick pd < snap_tick snap")
  case True
  let ?st = "\<lparr>position = position (ps_motion ps), velocity = Vec2Fixed 0 0\<rparr>"
  have h: "rb_inv kInputHistoryRingSize (pd_history pd)"
    using pred_reachable_inv [OF assms(1)] by (simp add: pred_inv_def)
  note r = on_snapshot_reconciles [OF h True assms(2)]
  have un: "unacked (last_input_seq snap) pd = newer_entries" by (simp add: unacked_def assms(3))
  have "position (advance_by ?st newer_entries) = position (advance_by (ps_motion ps) newer_entries)"
    by (rule advance_position(2)) simp
  moreover have "map (\<lambda>e. (he_seq e, he_input e)) (replay st es) = map (\<lambda>e. (he_seq e, he_input e)) es" for st es
    by (induction es arbitrary: st) (simp_all add: Let_def)
  ultimately show ?thesis using True r(1,2) by (simp add: un advance_by_def)
next
  case False
  then show ?thesis by (auto simp: on_snapshot_def)
qed

definition one_player_snapshot :: "vec2 \<Rightarrow> u32 \<Rightarrow> world_snapshot" where
  "one_player_snapshot pos ack = default_snapshot\<lparr>snap_tick := 1, last_input_seq := ack, player_count := 1,
     snap_players := (snap_players default_snapshot)[0 := default_player_state\<lparr>ps_motion :=
        \<lparr>position = pos, velocity = Vec2Fixed 0 0\<rparr>\<rparr>]\<rparr>"

lemma find_one_player:
  "find_snap_player (one_player_snapshot pos ack) 0
     = Some (default_player_state\<lparr>ps_motion := \<lparr>position = pos, velocity = Vec2Fixed 0 0\<rparr>\<rparr>)"
  by (simp add: find_snap_player_def one_player_snapshot_def default_snapshot_def kMaxPlayers_def
      default_player_state_def numeral_eq_Suc)

theorem reconciliation_replays_unacked_inputs_witness:
  "position (pd_local_state (on_snapshot (one_player_snapshot (Vec2Fixed 16384 16384) 0) 0 Prediction)) = Vec2Fixed 16384 16384"
  using reconciliation_replays_unacked_inputs [OF pred_reachable.start find_one_player refl, of "Vec2Fixed 16384 16384" 0]
  by (simp add: Prediction_def one_player_snapshot_def rb_items_RingBuffer default_player_state_def)

lemma find_entry:
  assumes "pred_inv pd" "j < rb_size (pd_history pd)" "he_seq (rb_items (pd_history pd) ! j) = ack"
  shows "List.find (\<lambda>e. he_seq e = ack) (rb_items (pd_history pd)) = Some (rb_items (pd_history pd) ! j)"
proof -
  let ?es = "rb_items (pd_history pd)"
  have "map (\<lambda>e. unat (he_seq e)) ?es = [unat (pd_seq pd) + 1 - rb_size (pd_history pd)..<unat (pd_seq pd) + 1]"
    using assms(1) by (simp add: pred_inv_def del: upt_Suc)
  then have "distinct (map (\<lambda>e. unat (he_seq e)) ?es)" by (simp only: distinct_upt)
  then have "he_seq (?es ! i) \<noteq> ack" if "i < j" for i
    using nth_eq_iff_index_eq [of "map (\<lambda>e. unat (he_seq e)) ?es" i j] that assms(2,3) by auto
  then show ?thesis using assms(2,3) by (auto simp: find_Some_iff intro!: exI [of _ j])
qed

text \<open>
  C35 (equivalence): a correct prediction is kept. When the server's position for the acknowledged
  input equals the one predicted for it, the replay reproduces the predicted position, no
  misprediction is counted, and the remaining entries are untouched.
\<close>

theorem correct_prediction_is_kept:
  assumes "pred_reachable pd" "find_snap_player snap me = Some ps" "pd_last_applied_tick pd < snap_tick snap"
    and "j < rb_size (pd_history pd)" "he_seq (rb_items (pd_history pd) ! j) = last_input_seq snap"
    and "position (ps_motion ps) = position (he_state_after (rb_items (pd_history pd) ! j))"
  shows "position (pd_local_state (on_snapshot snap me pd)) = position (pd_local_state pd)
    \<and> pd_mispredictions (on_snapshot snap me pd) = pd_mispredictions pd
    \<and> rb_items (pd_history (on_snapshot snap me pd)) = drop (Suc j) (rb_items (pd_history pd))"
proof -
  let ?es = "rb_items (pd_history pd)" and ?st = "\<lparr>position = position (ps_motion ps), velocity = Vec2Fixed 0 0\<rparr>"
  let ?a = "unat (pd_seq pd) + 1 - rb_size (pd_history pd)" and ?b = "unat (pd_seq pd) + 1"
  have inv: "pred_inv pd" using pred_reachable_inv [OF assms(1)] .
  then obtain st where st: "?es = replay st ?es" "pd_local_state pd = advance_by st ?es" by (auto simp: pred_inv_def)
  have h: "rb_inv kInputHistoryRingSize (pd_history pd)" and seqs: "map (\<lambda>e. unat (he_seq e)) ?es = [?a..<?b]"
    using inv by (simp_all add: pred_inv_def)
  have "map (\<lambda>e. unat (he_seq e)) ?es ! j = [?a..<?b] ! j" unfolding seqs ..
  moreover have "?a + j < ?b" using arg_cong [OF seqs, of length] assms(4) unfolding length_upt length_map length_rb_items by linarith
  ultimately have "unat (last_input_seq snap) = ?a + j" using assms(4,5) by (simp del: upt_Suc)
  then have k: "unat (last_input_seq snap) + 1 - ?a = Suc j" by linarith
  have un: "unacked (last_input_seq snap) pd = drop (Suc j) ?es"
    using filter_acked [OF seqs, of "last_input_seq snap"] unfolding k by (simp add: unacked_def comp_def not_le)
  have "List.find (\<lambda>e. he_seq e = last_input_seq snap) ?es = Some (?es ! j)" by (rule find_entry [OF inv assms(4,5)])
  then have miss: "pd_mispredictions (on_snapshot snap me pd) = pd_mispredictions pd"
    using assms(2,3,6) by (simp add: on_snapshot_def Let_def not_le split: prod.split)
  let ?mid = "advance_by st (take (Suc j) ?es)"
  have split: "?es = take (Suc j) ?es @ drop (Suc j) ?es" by simp
  have "replay st ?es = replay st (take (Suc j) ?es) @ replay ?mid (drop (Suc j) ?es)"
    using replay_append [of st "take (Suc j) ?es" "drop (Suc j) ?es"] by simp
  then have tail: "drop (Suc j) ?es = replay ?mid (drop (Suc j) ?es)"
    using st(1) assms(4) by (metis append_eq_conv_conj length_replay length_take length_rb_items min.absorb2 Suc_leI)
  have at_j: "he_state_after (replay st es ! i) = advance_by st (take (Suc i) es)" if "i < length es" for st es i
    using that by (induction es arbitrary: st i) (auto simp: Let_def advance_by_def nth_Cons split: nat.split)
  have mid: "position ?mid = position ?st"
    using at_j [of j ?es st] st(1) assms(4,6) by simp
  note r = on_snapshot_reconciles [OF h assms(3,2)]
  have "position (advance_by ?st (drop (Suc j) ?es)) = position (advance_by ?mid (drop (Suc j) ?es))"
    using mid by (intro advance_position(2)) simp
  also have "advance_by ?mid (drop (Suc j) ?es) = pd_local_state pd"
    unfolding st(2) advance_by_def by (metis append_take_drop_id foldl_append)
  finally show ?thesis
    using r(1,2) tail advance_position(1) [OF mid [symmetric], of "drop (Suc j) ?es"] miss by (simp add: un)
qed

theorem correct_prediction_is_kept_witness:
  "let pd = on_local_tick \<lparr>buttons = kInputRight, aim_angle = 0\<rparr> Prediction;
       snap = one_player_snapshot (position (pd_local_state pd)) 1
   in position (pd_local_state (on_snapshot snap 0 pd)) = position (pd_local_state pd)
      \<and> pd_mispredictions (on_snapshot snap 0 pd) = 0"
proof -
  let ?pd = "on_local_tick \<lparr>buttons = kInputRight, aim_angle = 0\<rparr> Prediction"
  let ?e = "\<lparr>he_seq = 1, he_input = \<lparr>buttons = kInputRight, aim_angle = 0\<rparr>, he_state_after = pd_local_state ?pd\<rparr>"
  have reach: "pred_reachable ?pd"
    by (rule pred_reachable.ticked [OF pred_reachable.start]) (simp add: Prediction_def)
  have h: "rb_items (pd_history ?pd) = [?e]" "pd_last_applied_tick ?pd = 0" "pd_mispredictions ?pd = 0"
    using rb_items_push_back [OF rb_inv_RingBuffer, of 64 ?e default_history_entry]
    by (simp_all add: on_local_tick_def Prediction_def Let_def rb_items_RingBuffer config_defs)
  then have "rb_size (pd_history ?pd) = 1" using length_rb_items [of "pd_history ?pd"] by simp
  then show ?thesis
    using correct_prediction_is_kept [OF reach find_one_player, of "position (pd_local_state ?pd)" 1 0] h
    by (simp add: Let_def one_player_snapshot_def default_player_state_def)
qed

text \<open>The entry of a player in a snapshot after encoding and decoding.\<close>

lemma find_norm_snapshot:
  assumes "wf_snapshot s"
  shows "find_snap_player (norm_world_snapshot s) pid = map_option norm_player (find_snap_player s pid)"
proof -
  let ?n = "unat (player_count s)"
  have find: "List.find (\<lambda>p. ps_id p = pid) (map norm_player ps) = map_option norm_player (List.find (\<lambda>p. ps_id p = pid) ps)" for ps
    by (induction ps) (simp_all add: norm_player_def)
  have len: "length (map norm_player (take ?n (snap_players s))) = ?n" using assms by (simp add: wf_snapshot_def)
  have "take ?n (snap_players (norm_world_snapshot s)) = map norm_player (take ?n (snap_players s))"
    unfolding norm_world_snapshot_def using len by simp
  moreover have "player_count (norm_world_snapshot s) = player_count s" by (simp add: norm_world_snapshot_def)
  ultimately show ?thesis by (simp add: find_snap_player_def find)
qed

text \<open>
  C40 (error): agreement is counted as a misprediction. Let the server's position for the acknowledged
  input be exactly the predicted one, anywhere inside the map. The snapshot reaches the client with
  its positions truncated to 1/16 pixel, and the comparison is exact: the client counts no
  misprediction if both coordinates are multiples of 1/16 pixel, and one in every other case.
\<close>

theorem agreeing_prediction_counted_as_miss:
  assumes "pred_reachable pd" "wf_snapshot S" "find_snap_player S me = Some ps" "pd_last_applied_tick pd < snap_tick S"
    and "j < rb_size (pd_history pd)" "he_seq (rb_items (pd_history pd) ! j) = last_input_seq S"
    and "pos = position (he_state_after (rb_items (pd_history pd) ! j))" "position (ps_motion ps) = pos"
    and "0 \<le> vx pos" "vx pos \<le> kMapWidthPx * kFixedScale" "0 \<le> vy pos" "vy pos \<le> kMapHeightPx * kFixedScale"
    and "received decode_world_snapshot (sent_bytes 512 (encode_world_snapshot S)) = Some snap"
  shows "pd_mispredictions (on_snapshot snap me pd)
    = pd_mispredictions pd + (if vx pos mod 16 = 0 \<and> vy pos mod 16 = 0 then 0 else 1)"
proof -
  have "length (wire_world_snapshot S) \<le> 512" using assms(2) by (simp add: length_snapshot_image wf_snapshot_def config_defs)
  then have snap: "snap = norm_world_snapshot S" using world_snapshot.received_sent [OF assms(2)] assms(13) by simp
  have found: "find_snap_player snap me = Some (norm_player ps)" using find_norm_snapshot [OF assms(2)] assms(3) by (simp add: snap)
  have same: "snap_tick snap = snap_tick S" "last_input_seq snap = last_input_seq S" by (simp_all add: snap norm_world_snapshot_def)
  have "vx (norm_vec pos) = vx pos - vx pos mod 16" "vy (norm_vec pos) = vy pos - vy pos mod 16"
    using assms(9-12) by (simp_all add: norm_vec_def unwire_wire_coord config_defs)
  moreover have "position (ps_motion (norm_player ps)) = norm_vec pos" using assms(8) by (simp add: norm_player_def)
  moreover note find_entry [OF pred_reachable_inv [OF assms(1)] assms(5,6)]
  ultimately show ?thesis
    using assms(4) by (simp add: on_snapshot_def Let_def found same assms(7) [symmetric] case_prod_beta)
qed

text \<open>One step to the right from the spawn point that the first snapshot gave the client.\<close>

definition spawned_client :: prediction where
  "spawned_client = on_snapshot (one_player_snapshot kRedBasePosition 0) 0 Prediction"

lemma spawned_client_state:
  "pd_local_state spawned_client = \<lparr>position = kRedBasePosition, velocity = Vec2Fixed 0 0\<rparr>"
  "rb_inv kInputHistoryRingSize (pd_history spawned_client)" "rb_items (pd_history spawned_client) = []"
  "pd_last_applied_tick spawned_client = 1" "pd_mispredictions spawned_client = 0" "pd_seq spawned_client = 0"
  "pred_reachable spawned_client"
proof -
  have s: "snap_tick (one_player_snapshot kRedBasePosition 0) = 1" "last_input_seq (one_player_snapshot kRedBasePosition 0) = 0"
    by (simp_all add: one_player_snapshot_def)
  have p: "pd_last_applied_tick Prediction = 0" "rb_items (pd_history Prediction) = []" "pd_mispredictions Prediction = 0" "pd_seq Prediction = 0"
    by (simp_all add: Prediction_def rb_items_RingBuffer)
  show reach: "pred_reachable spawned_client" unfolding spawned_client_def by (intro pred_reachable.intros)
  show "rb_inv kInputHistoryRingSize (pd_history spawned_client)" using pred_reachable_inv [OF reach] by (simp add: pred_inv_def)
  have h: "rb_inv kInputHistoryRingSize (pd_history Prediction)" using pred_reachable_inv [OF pred_reachable.start] by (simp add: pred_inv_def)
  have lt: "pd_last_applied_tick Prediction < snap_tick (one_player_snapshot kRedBasePosition 0)" by (simp add: s p)
  note r = on_snapshot_reconciles [OF h lt find_one_player]
  have "unacked 0 Prediction = []" by (simp add: unacked_def p)
  then show "pd_local_state spawned_client = \<lparr>position = kRedBasePosition, velocity = Vec2Fixed 0 0\<rparr>"
    "rb_items (pd_history spawned_client) = []"
    using r by (simp_all add: spawned_client_def s advance_by_def default_player_state_def)
  show "pd_last_applied_tick spawned_client = 1" "pd_mispredictions spawned_client = 0" "pd_seq spawned_client = 0"
    by (simp_all add: spawned_client_def on_snapshot_def s p find_one_player Let_def case_prod_beta)
qed

theorem agreeing_prediction_counted_as_miss_witness:
  "let pd = on_local_tick \<lparr>buttons = kInputRight, aim_angle = 0\<rparr> spawned_client;
       S = (one_player_snapshot (position (pd_local_state pd)) 1)\<lparr>snap_tick := 2\<rparr>
   in \<exists>snap. received decode_world_snapshot (sent_bytes 512 (encode_world_snapshot S)) = Some snap
      \<and> pd_mispredictions (on_snapshot snap 0 pd) = 1"
proof -
  let ?cmd = "\<lparr>buttons = kInputRight, aim_angle = 0\<rparr>"
  let ?pd = "on_local_tick ?cmd spawned_client" and ?server = "movement_step (pd_local_state spawned_client) ?cmd"
  let ?S = "(one_player_snapshot (position (pd_local_state ?pd)) 1)\<lparr>snap_tick := 2\<rparr>"
  note c = spawned_client_state
  have free: "\<not> aabb_collides (Vec2Fixed 17749 98304)" "\<not> aabb_collides (Vec2Fixed 16384 98304)" by code_simp+
  have pos: "position ?server = Vec2Fixed 17749 98304"
    using free by (simp add: c(1) movement_step_def pressed_def button_defs Let_def kRedBasePosition_def tile_to_fp_def config_defs Vec2Fixed_def)
  have reach: "pred_reachable ?pd" by (rule pred_reachable.ticked [OF c(7)]) (simp add: c(6))
  have h: "rb_items (pd_history ?pd) = [\<lparr>he_seq = 1, he_input = ?cmd, he_state_after = ?server\<rparr>]"
    by (simp add: on_local_tick_def Let_def rb_items_push_back [OF c(2)] c(3,6) keep_last_def) (simp add: config_defs)
  have pd: "pd_last_applied_tick ?pd = 1" "pd_mispredictions ?pd = 0" "pd_local_state ?pd = ?server"
    by (simp_all add: on_local_tick_def Let_def c(4,5))
  have size: "rb_size (pd_history ?pd) = 1" using h length_rb_items [of "pd_history ?pd"] by simp
  have S: "wf_snapshot ?S" "snap_tick ?S = 2" "last_input_seq ?S = 1"
    by (simp_all add: one_player_snapshot_def wf_snapshot_def default_snapshot_def config_defs)
  have found: "find_snap_player ?S 0 = Some (default_player_state\<lparr>ps_motion := \<lparr>position = position ?server, velocity = Vec2Fixed 0 0\<rparr>\<rparr>)"
    using find_one_player [of "position ?server" 1] by (simp add: find_snap_player_def pd(3))
  have "length (wire_world_snapshot ?S) \<le> 512" using S(1) by (simp add: length_snapshot_image wf_snapshot_def config_defs)
  note snap = world_snapshot.received_sent [OF S(1) this]
  have "pd_mispredictions (on_snapshot (norm_world_snapshot ?S) 0 ?pd) = 1"
    using agreeing_prediction_counted_as_miss [OF reach S(1) found _ _ _ refl _ _ _ _ _ snap, of 0] h size pos pd(1,2) S(2,3)
    by (simp add: default_player_state_def config_defs)
  then show ?thesis using snap by (auto simp: Let_def)
qed

end
