(* ===== verification/Float_Model.thy ===== *)
theory Float_Model
  imports Complex_Main Game_Types
begin

text \<open>
  Floating point, as the display code and the bots use it. An operation of IEEE arithmetic returns
  the rounding of the exact result, so the model computes in rationals and applies a rounding after
  every operation that may be inexact; comparisons, \<open>fmod\<close> and the conversion of a 32-bit integer to
  \<open>double\<close> are exact. The rounding is a parameter, and so are the functions of the mathematical
  library. The values of the program stay small, so overflow and NaN do not arise.
\<close>

section \<open>Rounding\<close>

type_synonym rounding = "rat \<Rightarrow> rat"

definition double_rounding :: "rounding \<Rightarrow> bool" where
  "double_rounding rnd \<longleftrightarrow> mono rnd \<and> (\<forall>n. \<bar>n\<bar> \<le> 2 ^ 53 \<longrightarrow> rnd (of_int n) = of_int n)"

text \<open>\<open>std::lround\<close>: to the nearest integer, halves away from zero; the conversion to an integer truncates.\<close>

definition lround :: "rat \<Rightarrow> int" where
  "lround x = (if x < 0 then - \<lfloor>1 / 2 - x\<rfloor> else \<lfloor>x + 1 / 2\<rfloor>)"

definition truncate_rat :: "rat \<Rightarrow> int" where
  "truncate_rat x = (if x < 0 then - \<lfloor>- x\<rfloor> else \<lfloor>x\<rfloor>)"

definition fmod :: "rat \<Rightarrow> rat \<Rightarrow> rat" where
  "fmod x y = x - of_int (truncate_rat (x / y)) * y"

section \<open>Single precision\<close>

record float_lib =
  f_rnd :: rounding
  f_sqrt :: "rat \<Rightarrow> rat"
  f_atan2 :: "rat \<Rightarrow> rat \<Rightarrow> rat"
  f_cos :: "rat \<Rightarrow> rat"
  f_sin :: "rat \<Rightarrow> rat"

text \<open>A fixed-point coordinate in pixels.\<close>

definition to_px :: "float_lib \<Rightarrow> int \<Rightarrow> rat" where
  "to_px fl v = f_rnd fl (f_rnd fl (of_int v) / of_int kFixedScale)"

text \<open>A library for evaluation: exact arithmetic and fixed answers.\<close>

definition plain_floats :: float_lib where
  "plain_floats = \<lparr>f_rnd = (\<lambda>x. x), f_sqrt = (\<lambda>x. x), f_atan2 = (\<lambda>y x. 0), f_cos = (\<lambda>x. 1), f_sin = (\<lambda>x. 0)\<rparr>"

end
