(* ===== verification/Interpolation.thy ===== *)
theory Interpolation
  imports Float_Model Ring_Buffer Movement
begin

text \<open>
  \<open>client/interpolation.h\<close> and \<open>client/interpolation.cpp\<close>: smoothing of remote players between the
  two snapshots around a render time that trails the newest one.

  The code computes in \<open>double\<close>; the model computes in rationals with an explicit rounding, and the
  hypotheses \<open>double_rounding\<close> and \<open>close_rounding\<close> state the facts of IEEE arithmetic that the lemmas
  need: it is monotone, exact on integers, and at magnitudes up to \<open>2\<^sup>3\<^sup>2\<close> its error is at most \<open>2\<^sup>-\<^sup>2\<^sup>0\<close>.
  The lemmas show that the bracket search finds the neighbours of the render time in a ring that
  stays sorted, and that a blended position is the linear interpolation between them, up to rounding.
\<close>

section \<open>State and operations\<close>

record interpolation =
  ip_ring :: "world_snapshot ring_buffer"
  ip_render_tick :: rat
  ip_bootstrapped :: bool

definition Interpolation :: interpolation where
  "Interpolation = \<lparr>ip_ring = RingBuffer kSnapshotRingSize default_snapshot, ip_render_tick = 0, ip_bootstrapped = False\<rparr>"

abbreviation tick_rat :: "world_snapshot \<Rightarrow> rat" where
  "tick_rat snap \<equiv> of_nat (unat (snap_tick snap))"

text \<open>The difference of the angles as a signed 16-bit number.\<close>

definition lerp_angle :: "rounding \<Rightarrow> u16 \<Rightarrow> u16 \<Rightarrow> rat \<Rightarrow> u16" where
  "lerp_angle rnd a b t =
     (let delta = sint (b - a);
          result = rnd (of_nat (unat a) + rnd (of_int delta * t));
          result = fmod result 65536;
          result = (if result < 0 then rnd (result + 65536) else result)
      in word_of_int (truncate_rat (rnd (result + 1 / 2))))"

definition lerp_i32 :: "rounding \<Rightarrow> int \<Rightarrow> int \<Rightarrow> rat \<Rightarrow> int" where
  "lerp_i32 rnd a b t = to_i32 (lround (rnd (of_int a + rnd (rnd (of_int b - of_int a) * t))))"

definition push_snapshot :: "rounding \<Rightarrow> world_snapshot \<Rightarrow> interpolation \<Rightarrow> interpolation" where
  "push_snapshot rnd snap ip =
     (if rb_size (ip_ring ip) \<noteq> 0 \<and> snap_tick snap \<le> snap_tick (rb_back (ip_ring ip)) then ip
      else
        let ip = (if \<not> ip_bootstrapped ip then
                    let target = rnd (tick_rat snap - of_int kInterpolationDelayTicks)
                    in ip\<lparr>ip_render_tick := (if target > 0 then target else 0), ip_bootstrapped := True\<rparr>
                  else ip)
        in ip\<lparr>ip_ring := push_back snap (ip_ring ip)\<rparr>)"

definition advance_render :: "rounding \<Rightarrow> rat \<Rightarrow> interpolation \<Rightarrow> interpolation" where
  "advance_render rnd dt_seconds ip =
     (if rb_size (ip_ring ip) = 0 then ip
      else
        let newest_tick = tick_rat (rb_back (ip_ring ip));
            depth = rnd (newest_tick - ip_render_tick ip);
            rate = (if depth > of_int kInterpolationDelayTicks then rnd (102 / 100)
                    else if depth < of_int kInterpolationDelayTicks then rnd (98 / 100)
                    else 1);
            render = rnd (ip_render_tick ip + rnd (rnd (rate * of_int kTickRateHz) * dt_seconds));
            render = (if render > newest_tick then newest_tick else render);
            oldest_tick = tick_rat (rb_front (ip_ring ip));
            render = (if render < oldest_tick then oldest_tick else render)
        in ip\<lparr>ip_render_tick := render\<rparr>)"

text \<open>The search loop: the last index before the first snapshot beyond the render tick.\<close>

primrec bracket :: "rat \<Rightarrow> world_snapshot ring_buffer \<Rightarrow> nat list \<Rightarrow> nat \<Rightarrow> nat" where
  "bracket render r [] a_idx = a_idx"
| "bracket render r (i # is) a_idx = (if tick_rat (rb_at r i) \<le> render then bracket render r is i else a_idx)"

definition blend :: "rounding \<Rightarrow> rat \<Rightarrow> player_state \<Rightarrow> player_state \<Rightarrow> player_state" where
  "blend rnd t pa pb =
     (let out = (if t < 1 / 2 then pa else pb);
          pos = Vec2Fixed (lerp_i32 rnd (vx (position (ps_motion pa))) (vx (position (ps_motion pb))) t)
                          (lerp_i32 rnd (vy (position (ps_motion pa))) (vy (position (ps_motion pb))) t)
      in out\<lparr>ps_motion := (ps_motion out)\<lparr>position := pos, velocity := Vec2Fixed 0 0\<rparr>,
             ps_aim_angle := lerp_angle rnd (ps_aim_angle pa) (ps_aim_angle pb) t\<rparr>)"

definition sample :: "rounding \<Rightarrow> u8 \<Rightarrow> interpolation \<Rightarrow> player_state" where
  "sample rnd pid ip =
     (let r = ip_ring ip in
      if rb_size r = 0 then default_player_state
      else
        let a_idx = bracket (ip_render_tick ip) r [0..<rb_size r] 0;
            b_idx = (if a_idx + 1 < rb_size r then a_idx + 1 else a_idx);
            a = rb_at r a_idx;
            b = rb_at r b_idx
        in case (find_snap_player a pid, find_snap_player b pid) of
             (None, None) \<Rightarrow> default_player_state
           | (None, Some pb) \<Rightarrow> pb
           | (Some pa, None) \<Rightarrow> pa
           | (Some pa, Some pb) \<Rightarrow>
               let t = (if snap_tick b \<noteq> snap_tick a
                        then let q = rnd (rnd (ip_render_tick ip - tick_rat a) / of_nat (unat (snap_tick b - snap_tick a)))
                             in if q < 0 then 0 else if 1 < q then 1 else q
                        else 0)
               in blend rnd t pa pb)"

section \<open>Blending stays between its ends\<close>

lemma double_roundingD:
  assumes "double_rounding rnd"
  shows "x \<le> y \<Longrightarrow> rnd x \<le> rnd y" "\<bar>n\<bar> \<le> 2 ^ 53 \<Longrightarrow> rnd (of_int n) = of_int n"
  using assms by (simp_all add: double_rounding_def mono_def)

lemma rnd_between:
  assumes "double_rounding rnd" "of_int lo \<le> x" "x \<le> of_int hi" "\<bar>lo\<bar> \<le> 2 ^ 53" "\<bar>hi\<bar> \<le> 2 ^ 53"
  shows "of_int lo \<le> rnd x" "rnd x \<le> of_int hi"
  using double_roundingD(1) [OF assms(1,2)] double_roundingD(1) [OF assms(1,3)] double_roundingD(2) [OF assms(1)] assms(4,5) by simp_all

lemma lround_between:
  assumes "of_int lo \<le> x" "x \<le> of_int hi"
  shows "lo \<le> lround x" "lround x \<le> hi"
  using assms by (auto simp: lround_def le_floor_iff floor_le_iff) linarith+

lemma lerp_parts:
  assumes "double_rounding rnd" "in_i32 a" "in_i32 b" "0 \<le> t" "t \<le> 1"
  shows "between a b (lerp_i32 rnd a b t) \<and> lerp_i32 rnd a b t = lround (rnd (of_int a + rnd (of_int (b - a) * t)))"
proof -
  have diff: "rnd (of_int b - of_int a) = of_int (b - a)"
  proof -
    have "\<bar>b - a\<bar> \<le> 2 ^ 53" using assms(2,3) by (auto simp: in_i32_def abs_le_iff)
    from double_roundingD(2) [OF assms(1) this] show ?thesis by simp
  qed
  have small: "\<bar>min 0 (b - a)\<bar> \<le> 2 ^ 53" "\<bar>max 0 (b - a)\<bar> \<le> 2 ^ 53" "\<bar>min a b\<bar> \<le> 2 ^ 53" "\<bar>max a b\<bar> \<le> 2 ^ 53"
    using assms(2,3) by (auto simp: in_i32_def min_def max_def abs_le_iff)
  define s where "s = rnd (of_int (b - a) * t)"
  have s: "of_int (min 0 (b - a)) \<le> s" "s \<le> of_int (max 0 (b - a))"
  proof -
    have "of_int (min 0 (b - a)) \<le> (of_int (b - a) * t :: rat)" "(of_int (b - a) * t :: rat) \<le> of_int (max 0 (b - a))"
      using assms(4,5) mult_left_le [of t "of_int (b - a)"] mult_left_le [of t "of_int (a - b)"]
        mult_nonneg_nonneg [of "of_int (b - a)" t] mult_nonpos_nonneg [of "of_int (b - a)" t]
      by (auto simp: min_def max_def algebra_simps)
    then show "of_int (min 0 (b - a)) \<le> s" "s \<le> of_int (max 0 (b - a))"
      using rnd_between [OF assms(1), of "min 0 (b - a)" _ "max 0 (b - a)"] small by (simp_all add: s_def)
  qed
  have "of_int (min a b) \<le> of_int a + s" "of_int a + s \<le> of_int (max a b)"
    using s by (auto simp: min_def max_def split: if_splits)
  then have "of_int (min a b) \<le> rnd (of_int a + s)" "rnd (of_int a + s) \<le> of_int (max a b)"
    using rnd_between [OF assms(1), of "min a b" _ "max a b"] small by simp_all
  then have l: "min a b \<le> lround (rnd (of_int a + s))" "lround (rnd (of_int a + s)) \<le> max a b"
    using lround_between by simp_all
  then have "in_i32 (lround (rnd (of_int a + s)))" using assms(2,3) by (simp add: in_i32_def min_def max_def split: if_splits)
  then show ?thesis using l by (simp add: lerp_i32_def diff s_def between_def)
qed

lemmas lerp_between = lerp_parts [THEN conjunct1]

text \<open>The error of one operation and of \<open>lround\<close>, and of the whole.\<close>

definition close_rounding :: "rounding \<Rightarrow> bool" where
  "close_rounding rnd \<longleftrightarrow> (\<forall>x. \<bar>x\<bar> \<le> 2 ^ 32 \<longrightarrow> \<bar>rnd x - x\<bar> \<le> 1 / 2 ^ 20)"

lemma close_roundingD: "close_rounding rnd \<Longrightarrow> \<bar>x\<bar> \<le> 2 ^ 32 \<Longrightarrow> \<bar>rnd x - x\<bar> \<le> 1 / 1048576"
  by (simp add: close_rounding_def)

lemma lround_close: "\<bar>of_int (lround x) - x\<bar> \<le> 1 / 2"
proof (cases "x < 0")
  case True
  then have "(of_int (lround x) :: rat) = - of_int \<lfloor>1 / 2 - x\<rfloor>" by (simp add: lround_def)
  then show ?thesis using floor_correct [of "1 / 2 - x"] by linarith
next
  case False
  then have "(of_int (lround x) :: rat) = of_int \<lfloor>x + 1 / 2\<rfloor>" by (simp add: lround_def)
  then show ?thesis using floor_correct [of "x + 1 / 2"] by linarith
qed

lemma lerp_close:
  assumes "double_rounding rnd" "close_rounding rnd" "in_i32 a" "in_i32 b" "0 \<le> t" "t \<le> 1"
  shows "\<bar>of_int (lerp_i32 rnd a b t) - (of_int a + t * of_int (b - a))\<bar> \<le> 1 / 2 + 1 / 524288"
proof -
  let ?d = "of_int (b - a) :: rat"
  define s where "s = rnd (?d * t)"
  have "\<bar>b - a\<bar> \<le> 2 ^ 32" using assms(3,4) by (auto simp: in_i32_def abs_le_iff)
  then have "of_int \<bar>b - a\<bar> \<le> (of_int (2 ^ 32) :: rat)" by (simp only: of_int_le_iff)
  then have d: "\<bar>?d\<bar> \<le> 2 ^ 32" by simp
  have "\<bar>?d * t\<bar> \<le> \<bar>?d\<bar>" using assms(5,6) mult_left_le [of t "\<bar>?d\<bar>"] by (simp add: abs_mult)
  then have "\<bar>?d * t\<bar> \<le> 2 ^ 32" using d by linarith
  then have s: "\<bar>s - ?d * t\<bar> \<le> 1 / 1048576" unfolding s_def by (rule close_roundingD [OF assms(2)])
  have "of_int (min a b) \<le> of_int a + t * ?d" "of_int a + t * ?d \<le> of_int (max a b)"
    using assms(5,6) mult_left_le [of t ?d] mult_left_le [of t "- ?d"]
      mult_nonneg_nonneg [of ?d t] mult_nonpos_nonneg [of ?d t]
    by (auto simp: min_def max_def algebra_simps)
  moreover have "(- 2147483648 :: rat) \<le> of_int (min a b)" "of_int (max a b) \<le> (2147483648 :: rat)"
    using assms(3,4) by (simp_all add: in_i32_def min_def max_def)
  ultimately have "\<bar>of_int a + t * ?d\<bar> \<le> 2147483648" by linarith
  moreover have "\<bar>s - t * ?d\<bar> \<le> 1" using s by (simp add: mult.commute)
  ultimately have "\<bar>of_int a + s\<bar> \<le> 2147483649" by linarith
  then have "\<bar>of_int a + s\<bar> \<le> 2 ^ 32" by simp
  then have "\<bar>rnd (of_int a + s) - (of_int a + s)\<bar> \<le> 1 / 1048576" by (rule close_roundingD [OF assms(2)])
  moreover have "lerp_i32 rnd a b t = lround (rnd (of_int a + s))" using lerp_parts [OF assms(1,3-6)] by (simp add: s_def)
  moreover note lround_close [of "rnd (of_int a + s)"] s
  ultimately have "\<bar>of_int (lerp_i32 rnd a b t) - (of_int a + ?d * t)\<bar> \<le> 1 / 2 + 1 / 1048576 + 1 / 1048576" by linarith
  then show ?thesis by (simp add: mult.commute)
qed

section \<open>The bracket\<close>

definition interp_inv :: "interpolation \<Rightarrow> bool" where
  "interp_inv ip \<longleftrightarrow> rb_inv kSnapshotRingSize (ip_ring ip) \<and> sorted_wrt (\<lambda>a b. snap_tick a < snap_tick b) (rb_items (ip_ring ip))"

text \<open>The states of an \<open>Interpolation\<close>: snapshots arrive in any order, time advances.\<close>

inductive interp_reachable :: "rounding \<Rightarrow> interpolation \<Rightarrow> bool" for rnd where
  start: "interp_reachable rnd Interpolation"
| pushed: "interp_reachable rnd ip \<Longrightarrow> interp_reachable rnd (push_snapshot rnd snap ip)"
| advanced: "interp_reachable rnd ip \<Longrightarrow> interp_reachable rnd (advance_render rnd dt ip)"

lemma sorted_keep_last: "sorted_wrt P xs \<Longrightarrow> sorted_wrt P (keep_last n xs)"
  by (simp add: keep_last_def sorted_wrt_drop)

lemma interp_inv_push:
  assumes "interp_inv ip"
  shows "interp_inv (push_snapshot rnd snap ip)"
proof (cases "rb_size (ip_ring ip) \<noteq> 0 \<and> snap_tick snap \<le> snap_tick (rb_back (ip_ring ip))")
  case True
  then show ?thesis using assms by (simp add: push_snapshot_def)
next
  case False
  have inv: "rb_inv kSnapshotRingSize (ip_ring ip)" and sorted: "sorted_wrt (\<lambda>a b. snap_tick a < snap_tick b) (rb_items (ip_ring ip))"
    using assms by (simp_all add: interp_inv_def)
  have "snap_tick a < snap_tick snap" if a: "a \<in> set (rb_items (ip_ring ip))" for a
  proof -
    let ?xs = "rb_items (ip_ring ip)"
    have ne: "?xs \<noteq> []" "rb_size (ip_ring ip) \<noteq> 0" using length_pos_if_in_set [OF a] a by auto
    then have "rb_back (ip_ring ip) = last ?xs" using rb_back_last [OF inv] by simp
    then have new: "snap_tick (last ?xs) < snap_tick snap" using False ne by simp
    obtain ys y where "?xs = ys @ [y]" using ne(1) by (cases ?xs rule: rev_cases) auto
    then have "a = last ?xs \<or> snap_tick a < snap_tick (last ?xs)" using sorted a by (auto simp: sorted_wrt_append)
    then show ?thesis using new by auto
  qed
  then have "sorted_wrt (\<lambda>a b. snap_tick a < snap_tick b) (rb_items (ip_ring ip) @ [snap])" using sorted by (simp add: sorted_wrt_append)
  then have "interp_inv (ip\<lparr>ip_ring := push_back snap (ip_ring ip)\<rparr>)"
    using inv by (simp add: interp_inv_def rb_inv_push_back rb_items_push_back sorted_keep_last)
  then show ?thesis using False by (auto simp: push_snapshot_def Let_def interp_inv_def)
qed

lemma interp_reachable_inv: "interp_reachable rnd ip \<Longrightarrow> interp_inv ip"
proof (induction rule: interp_reachable.induct)
  case start
  then show ?case by (simp add: interp_inv_def Interpolation_def rb_inv_RingBuffer rb_items_RingBuffer config_defs)
next
  case (pushed ip snap)
  then show ?case by (simp add: interp_inv_push)
next
  case (advanced ip dt)
  then show ?case by (simp add: interp_inv_def advance_render_def Let_def)
qed

text \<open>The search finds the last snapshot that is not beyond the render tick.\<close>

lemma bracket_result:
  fixes j a n :: nat and r :: "world_snapshot ring_buffer" and render :: rat
  defines "k \<equiv> bracket render r [j..<n] a"
  shows "k = a \<and> (j < n \<longrightarrow> \<not> tick_rat (rb_at r j) \<le> render)
    \<or> j \<le> k \<and> k < n \<and> tick_rat (rb_at r k) \<le> render \<and> (k + 1 < n \<longrightarrow> \<not> tick_rat (rb_at r (k + 1)) \<le> render)"
  unfolding k_def
proof (induction "n - j" arbitrary: j a)
  case 0
  then show ?case by simp
next
  case (Suc m)
  then have cons: "[j..<n] = j # [j + 1..<n]" by (simp add: upt_conv_Cons)
  have "m = n - (j + 1)" using Suc.hyps(2) by simp
  from Suc.hyps(1) [OF this, of j] show ?case unfolding cons using Suc.hyps(2) by (cases "tick_rat (rb_at r j) \<le> render") auto
qed

text \<open>The pair of snapshots that \<open>sample\<close> looks at encloses the render time, as far as the ring reaches.\<close>

lemma bracket_window:
  assumes "interp_inv ip" "xs = rb_items (ip_ring ip)" "xs \<noteq> []"
    and "i = bracket (ip_render_tick ip) (ip_ring ip) [0..<rb_size (ip_ring ip)] 0"
  shows "i < length xs \<and> (tick_rat (xs ! i) \<le> ip_render_tick ip \<or> i = 0) \<and> (i + 1 < length xs \<longrightarrow> ip_render_tick ip < tick_rat (xs ! (i + 1)))"
proof -
  let ?r = "ip_ring ip" and ?render = "ip_render_tick ip"
  have n: "length xs = rb_size ?r" "rb_size ?r \<noteq> 0" using assms(3) by (auto simp: assms(2) simp flip: length_rb_items)
  have nth: "rb_at ?r k = xs ! k" if "k < length xs" for k using that nth_rb_items [of k ?r] by (simp add: assms(2))
  from bracket_result [of ?render ?r 0 "rb_size ?r" 0, folded assms(4)]
  consider (before) "i = 0" "?render < tick_rat (rb_at ?r 0)"
    | (found) "i < rb_size ?r" "tick_rat (rb_at ?r i) \<le> ?render" "i + 1 < rb_size ?r \<longrightarrow> ?render < tick_rat (rb_at ?r (i + 1))"
    using n(2) by (auto simp: not_le)
  then show ?thesis
  proof cases
    case before
    have "tick_rat (xs ! 0) < tick_rat (xs ! 1)" if "1 < length xs"
    proof -
      have "snap_tick (xs ! 0) < snap_tick (xs ! 1)"
        using sorted_wrt_nth_less [of "\<lambda>a b. snap_tick a < snap_tick b" xs 0 1] assms(1) that by (simp add: interp_inv_def assms(2))
      then show ?thesis by (simp only: word_less_nat_alt of_nat_less_iff)
    qed
    then show ?thesis using before n nth [of 0] by fastforce
  next
    case found
    then show ?thesis using n nth by simp
  qed
qed

text \<open>The weight that the code computes, and the exact fraction of the time between the two snapshots.\<close>

definition code_weight :: "rounding \<Rightarrow> rat \<Rightarrow> world_snapshot \<Rightarrow> world_snapshot \<Rightarrow> rat" where
  "code_weight rnd render a b =
     (if snap_tick b \<noteq> snap_tick a
      then let q = rnd (rnd (render - tick_rat a) / of_nat (unat (snap_tick b - snap_tick a)))
           in if q < 0 then 0 else if 1 < q then 1 else q
      else 0)"

definition time_fraction :: "rat \<Rightarrow> world_snapshot \<Rightarrow> world_snapshot \<Rightarrow> rat" where
  "time_fraction render a b =
     (if snap_tick b = snap_tick a then 0 else max 0 (min 1 ((render - tick_rat a) / (tick_rat b - tick_rat a))))"

lemma code_weight_range: "0 \<le> code_weight rnd render a b" "code_weight rnd render a b \<le> 1"
  by (simp_all add: code_weight_def Let_def)

lemma tick_range: "0 \<le> tick_rat s" "tick_rat s \<le> 4294967295" "uint (snap_tick s) \<le> 4294967295"
proof -
  have "unat (snap_tick s) < 2 ^ 32" using unsigned_less [of "snap_tick s", where ?'a = nat] by simp
  then have "unat (snap_tick s) \<le> 4294967295" by simp
  then have "tick_rat s \<le> of_nat 4294967295" by (simp only: of_nat_le_iff)
  then show "0 \<le> tick_rat s" "tick_rat s \<le> 4294967295" by (simp_all only: of_nat_0_le_iff of_nat_numeral)
  show "uint (snap_tick s) \<le> 4294967295" using unsigned_less [of "snap_tick s", where ?'a = int] by simp
qed

lemma clamp_close: "\<bar>max 0 (min 1 x) - max 0 (min 1 y)\<bar> \<le> \<bar>x - y\<bar>" for x y :: rat
  by (simp add: min_def max_def)

lemma code_weight_close:
  assumes "close_rounding rnd" "snap_tick a \<le> snap_tick b" "0 \<le> render" "render \<le> 4294967295"
  shows "\<bar>code_weight rnd render a b - time_fraction render a b\<bar> \<le> 1 / 524288"
proof (cases "snap_tick b = snap_tick a")
  case True
  then show ?thesis by (simp add: code_weight_def time_fraction_def)
next
  case False
  let ?n = "of_nat (unat (snap_tick b - snap_tick a)) :: rat" and ?x = "render - tick_rat a"
  have lt: "unat (snap_tick a) < unat (snap_tick b)" using assms(2) False by (metis le_neq_trans word_less_nat_alt)
  then have diff: "unat (snap_tick b - snap_tick a) = unat (snap_tick b) - unat (snap_tick a)" using assms(2) by (simp add: unat_sub)
  have "of_nat 1 \<le> ?n" unfolding diff of_nat_le_iff using lt by simp
  then have n: "?n = tick_rat b - tick_rat a" "1 \<le> ?n" unfolding diff using lt by (simp_all only: of_nat_diff less_imp_le of_nat_1)
  have x: "\<bar>?x\<bar> \<le> 4294967295" using assms(3,4) tick_range [of a] by linarith
  then have r1: "\<bar>rnd ?x - ?x\<bar> \<le> 1 / 1048576" by (intro close_roundingD [OF assms(1)]) simp
  have shrink: "\<bar>y / ?n\<bar> \<le> \<bar>y\<bar>" for y using n(2) divide_left_mono [of 1 ?n "\<bar>y\<bar>"] by (simp add: abs_divide)
  have "\<bar>rnd ?x / ?n - ?x / ?n\<bar> \<le> 1 / 1048576" using shrink [of "rnd ?x - ?x"] r1 by (simp add: diff_divide_distrib)
  moreover have "\<bar>rnd ?x\<bar> \<le> 4294967296" using r1 x by linarith
  then have "\<bar>rnd ?x\<bar> \<le> 2 ^ 32" by simp
  then have "\<bar>rnd (rnd ?x / ?n) - rnd ?x / ?n\<bar> \<le> 1 / 1048576" using shrink [of "rnd ?x"] by (intro close_roundingD [OF assms(1)]) linarith
  ultimately have "\<bar>rnd (rnd ?x / ?n) - ?x / ?n\<bar> \<le> 1 / 1048576 + 1 / 1048576" by linarith
  then have q: "\<bar>rnd (rnd ?x / ?n) - ?x / ?n\<bar> \<le> 1 / 524288" by simp
  have "code_weight rnd render a b = max 0 (min 1 (rnd (rnd ?x / ?n)))" using False by (simp add: code_weight_def Let_def min_def max_def)
  moreover have "time_fraction render a b = max 0 (min 1 (?x / ?n))" using False n(1) by (simp add: time_fraction_def)
  ultimately show ?thesis using order_trans [OF clamp_close q] by simp
qed

lemma render_tick_range:
  assumes "double_rounding rnd"
  shows "interp_reachable rnd ip \<Longrightarrow> 0 \<le> ip_render_tick ip \<and> ip_render_tick ip \<le> 4294967295"
proof (induction rule: interp_reachable.induct)
  case start
  then show ?case by (simp add: Interpolation_def)
next
  case (pushed ip snap)
  let ?k = "int (unat (snap_tick snap)) - kInterpolationDelayTicks"
  have "?k \<le> 4294967295" "\<bar>?k\<bar> \<le> 2 ^ 53" using tick_range(3) [of snap] by (simp_all add: config_defs abs_le_iff order_trans [of _ 0])
  then have "rnd (tick_rat snap - of_int kInterpolationDelayTicks) = of_int ?k" "of_int ?k \<le> (of_int 4294967295 :: rat)"
    using double_roundingD(2) [OF assms, of ?k] by (simp_all only: of_int_le_iff of_int_diff of_int_of_nat_eq)
  then show ?case using pushed.IH by (simp add: push_snapshot_def Let_def)
next
  case (advanced ip dt)
  then show ?case using tick_range [of "rb_back (ip_ring ip)"] tick_range [of "rb_front (ip_ring ip)"]
    by (auto simp: advance_render_def Let_def)
qed

text \<open>What \<open>sample\<close> returns: the player of one of the two snapshots, or a blend of both.\<close>

lemma sample_window:
  assumes "xs = rb_items (ip_ring ip)" "xs \<noteq> []" "i = bracket (ip_render_tick ip) (ip_ring ip) [0..<rb_size (ip_ring ip)] 0"
    and "i < length xs" "j = (if i + 1 < length xs then i + 1 else i)"
  shows "sample rnd pid ip = (case (find_snap_player (xs ! i) pid, find_snap_player (xs ! j) pid) of
       (None, None) \<Rightarrow> default_player_state | (None, Some pb) \<Rightarrow> pb | (Some pa, None) \<Rightarrow> pa
     | (Some pa, Some pb) \<Rightarrow> blend rnd (code_weight rnd (ip_render_tick ip) (xs ! i) (xs ! j)) pa pb)"
proof -
  let ?r = "ip_ring ip"
  have n: "length xs = rb_size ?r" "rb_size ?r \<noteq> 0" using assms(2) by (auto simp: assms(1) simp flip: length_rb_items)
  have nth: "rb_at ?r k = xs ! k" if "k < length xs" for k using that nth_rb_items [of k ?r] by (simp add: assms(1))
  have j: "j < length xs" using assms(4,5) by auto
  show ?thesis
    unfolding sample_def code_weight_def Let_def assms(3) [symmetric] assms(5) [unfolded n(1), symmetric] nth [OF assms(4)] nth [OF j]
    by (simp only: n(2) if_False)
qed

text \<open>A blended position: between the two on both axes, and close to the exact interpolation.\<close>

lemma blend_position:
  assumes "double_rounding rnd" "close_rounding rnd" "0 \<le> t" "t \<le> 1" "\<bar>t - w\<bar> \<le> 1 / 524288"
    and "in_i32 a" "in_i32 b"
  shows "between a b (lerp_i32 rnd a b t) \<and> \<bar>of_int (lerp_i32 rnd a b t) - (of_int a + w * of_int (b - a))\<bar> \<le> 1 + of_int \<bar>b - a\<bar> / 524288"
proof -
  let ?d = "of_int (b - a) :: rat"
  have "\<bar>t * ?d - w * ?d\<bar> = \<bar>t - w\<bar> * \<bar>?d\<bar>" by (simp only: left_diff_distrib [symmetric] abs_mult)
  also have "\<dots> \<le> 1 / 524288 * \<bar>?d\<bar>" using assms(5) by (intro mult_right_mono) simp_all
  finally have "\<bar>t * ?d - w * ?d\<bar> \<le> of_int \<bar>b - a\<bar> / 524288" by simp
  moreover have "\<bar>of_int (lerp_i32 rnd a b t) - (of_int a + t * ?d)\<bar> \<le> 1"
    using lerp_close [OF assms(1,2,6,7,3,4)] by linarith
  ultimately have "\<bar>of_int (lerp_i32 rnd a b t) - (of_int a + w * ?d)\<bar> \<le> 1 + of_int \<bar>b - a\<bar> / 524288" by linarith
  then show ?thesis using lerp_between [OF assms(1,6,7,3,4)] by blast
qed

section \<open>Properties\<close>

text \<open>
  C26 (functional): remote players are interpolated, never extrapolated. Whatever order the snapshots
  came in, \<open>sample\<close> looks at two neighbouring snapshots of the ring: the last one that is not beyond
  the render time (the oldest, if all are) and its successor (or the same one, if it is the newest).
  A player that is in neither has the default state; one that is in a single one of them is shown as
  it is there; one that is in both is shown at the linear interpolation of its two positions with the
  fraction of the time that has passed between them, the same on both axes: on each axis the result
  lies between the two coordinates and within one fixed-point unit plus \<open>2\<^sup>-\<^sup>1\<^sup>9\<close> of their distance of
  the exact value.
\<close>

theorem interpolation_never_extrapolates:
  assumes "double_rounding rnd" "close_rounding rnd" "interp_reachable rnd ip" "xs = rb_items (ip_ring ip)"
    and "\<forall>s \<in> set xs. \<forall>ps. find_snap_player s pid = Some ps \<longrightarrow>
        in_i32 (vx (position (ps_motion ps))) \<and> in_i32 (vy (position (ps_motion ps)))"
    and "ps = sample rnd pid ip"
  shows "if xs = [] then ps = default_player_state
    else \<exists>i j. i < length xs \<and> j = (if i + 1 < length xs then i + 1 else i)
      \<and> (tick_rat (xs ! i) \<le> ip_render_tick ip \<or> i = 0) \<and> (i + 1 < length xs \<longrightarrow> ip_render_tick ip < tick_rat (xs ! (i + 1)))
      \<and> (case (find_snap_player (xs ! i) pid, find_snap_player (xs ! j) pid) of
           (None, None) \<Rightarrow> ps = default_player_state
         | (None, Some pb) \<Rightarrow> ps = pb
         | (Some pa, None) \<Rightarrow> ps = pa
         | (Some pa, Some pb) \<Rightarrow>
             let w = time_fraction (ip_render_tick ip) (xs ! i) (xs ! j);
                 p = position (ps_motion ps); a = position (ps_motion pa); b = position (ps_motion pb)
             in between (vx a) (vx b) (vx p) \<and> \<bar>of_int (vx p) - (of_int (vx a) + w * of_int (vx b - vx a))\<bar> \<le> 1 + of_int \<bar>vx b - vx a\<bar> / 524288
              \<and> between (vy a) (vy b) (vy p) \<and> \<bar>of_int (vy p) - (of_int (vy a) + w * of_int (vy b - vy a))\<bar> \<le> 1 + of_int \<bar>vy b - vy a\<bar> / 524288)"
proof (cases "xs = []")
  case True
  then have "rb_size (ip_ring ip) = 0" using assms(4) length_rb_items [of "ip_ring ip"] by simp
  then show ?thesis using True by (simp add: assms(6) sample_def)
next
  case False
  define i where "i = bracket (ip_render_tick ip) (ip_ring ip) [0..<rb_size (ip_ring ip)] 0"
  define j where "j = (if i + 1 < length xs then i + 1 else i)"
  let ?t = "code_weight rnd (ip_render_tick ip) (xs ! i) (xs ! j)" and ?w = "time_fraction (ip_render_tick ip) (xs ! i) (xs ! j)"
  have inv: "interp_inv ip" using interp_reachable_inv [OF assms(3)] .
  note i = bracket_window [OF inv assms(4) False i_def]
  note ps = trans [OF assms(6) sample_window [OF assms(4) False i_def conjunct1 [OF i] j_def]]
  have "snap_tick (xs ! i) \<le> snap_tick (xs ! j)"
    using sorted_wrt_nth_less [of "\<lambda>a b. snap_tick a < snap_tick b" xs i "i + 1"] inv by (auto simp: j_def interp_inv_def assms(4))
  then have w: "\<bar>?t - ?w\<bar> \<le> 1 / 524288" using code_weight_close [OF assms(2)] render_tick_range [OF assms(1,3)] by blast
  note pos = blend_position [OF assms(1,2) code_weight_range w]
  have j: "j < length xs" using i by (simp add: j_def)
  have range: "in_i32 (vx (position (ps_motion p)))" "in_i32 (vy (position (ps_motion p)))"
    if "find_snap_player (xs ! k) pid = Some p" "k < length xs" for p k
    using assms(5) that nth_mem by blast+
  have both: "let p = position (ps_motion ps); a = position (ps_motion pa); b = position (ps_motion pb)
      in between (vx a) (vx b) (vx p) \<and> \<bar>of_int (vx p) - (of_int (vx a) + ?w * of_int (vx b - vx a))\<bar> \<le> 1 + of_int \<bar>vx b - vx a\<bar> / 524288
       \<and> between (vy a) (vy b) (vy p) \<and> \<bar>of_int (vy p) - (of_int (vy a) + ?w * of_int (vy b - vy a))\<bar> \<le> 1 + of_int \<bar>vy b - vy a\<bar> / 524288"
    if "find_snap_player (xs ! i) pid = Some pa" "find_snap_player (xs ! j) pid = Some pb" for pa pb
  proof -
    have "position (ps_motion ps) = Vec2Fixed (lerp_i32 rnd (vx (position (ps_motion pa))) (vx (position (ps_motion pb))) ?t)
        (lerp_i32 rnd (vy (position (ps_motion pa))) (vy (position (ps_motion pb))) ?t)"
      using that by (simp add: ps blend_def Let_def)
    then show ?thesis unfolding Let_def using pos range [OF that(1) conjunct1 [OF i]] range [OF that(2) j] by simp
  qed
  show ?thesis unfolding if_not_P [OF False]
  proof (rule exI [of _ i], rule exI [of _ j], intro conjI)
    show "case (find_snap_player (xs ! i) pid, find_snap_player (xs ! j) pid) of
        (None, None) \<Rightarrow> ps = default_player_state | (None, Some pb) \<Rightarrow> ps = pb | (Some pa, None) \<Rightarrow> ps = pa
      | (Some pa, Some pb) \<Rightarrow>
          let w = ?w; p = position (ps_motion ps); a = position (ps_motion pa); b = position (ps_motion pb)
          in between (vx a) (vx b) (vx p) \<and> \<bar>of_int (vx p) - (of_int (vx a) + w * of_int (vx b - vx a))\<bar> \<le> 1 + of_int \<bar>vx b - vx a\<bar> / 524288
           \<and> between (vy a) (vy b) (vy p) \<and> \<bar>of_int (vy p) - (of_int (vy a) + w * of_int (vy b - vy a))\<bar> \<le> 1 + of_int \<bar>vy b - vy a\<bar> / 524288"
      using both ps by (cases "find_snap_player (xs ! i) pid"; cases "find_snap_player (xs ! j) pid") (simp_all add: Let_def)
  qed (use i j_def in blast)+
qed

text \<open>A rounding with the required properties: to the nearest multiple of \<open>2\<^sup>-\<^sup>2\<^sup>0\<close>.\<close>

definition fixed_rounding :: rounding where
  "fixed_rounding x = of_int \<lfloor>x * 2 ^ 20 + 1 / 2\<rfloor> / 2 ^ 20"

lemma fixed_rounding_ok: "double_rounding fixed_rounding"
proof -
  have "\<lfloor>of_int n * 2 ^ 20 + (1 / 2 :: rat)\<rfloor> = n * 2 ^ 20" for n :: int
    using floor_unique [of "n * 2 ^ 20" "of_int n * 2 ^ 20 + (1 / 2 :: rat)"] by simp
  then show ?thesis
    unfolding double_rounding_def fixed_rounding_def
    by (auto intro!: monoI divide_right_mono floor_mono)
qed

lemma fixed_rounding_close: "close_rounding fixed_rounding"
proof -
  have "\<bar>fixed_rounding x - x\<bar> \<le> 1 / 1048576" for x
  proof -
    have "\<bar>of_int \<lfloor>x * 1048576 + 1 / 2\<rfloor> - x * 1048576\<bar> \<le> 1" using floor_correct [of "x * 1048576 + 1 / 2"] by linarith
    then show ?thesis by (simp add: fixed_rounding_def field_simps abs_le_iff)
  qed
  then show ?thesis by (simp add: close_rounding_def)
qed

text \<open>Player 3 runs from the corner of the map in the four ticks between two snapshots; two ticks later it is sampled.\<close>

definition runner_snapshot :: "u32 \<Rightarrow> vec2 \<Rightarrow> world_snapshot" where
  "runner_snapshot k pos = default_snapshot\<lparr>snap_tick := k, player_count := 1,
     snap_players := (snap_players default_snapshot)[0 := default_player_state\<lparr>ps_id := 3, ps_motion :=
        \<lparr>position = pos, velocity = Vec2Fixed 0 0\<rparr>\<rparr>]\<rparr>"

definition two_snapshots :: interpolation where
  "two_snapshots = push_snapshot fixed_rounding (runner_snapshot 4 (Vec2Fixed 1024 512))
     (push_snapshot fixed_rounding (runner_snapshot 0 (Vec2Fixed 0 0)) Interpolation)"

lemma find_runner: "find_snap_player (runner_snapshot k pos) 3
   = Some (default_player_state\<lparr>ps_id := 3, ps_motion := \<lparr>position = pos, velocity = Vec2Fixed 0 0\<rparr>\<rparr>)"
  "snap_tick (runner_snapshot k pos) = k"
  by (simp_all add: find_snap_player_def runner_snapshot_def default_snapshot_def config_defs eval_nat_numeral)

lemma two_snapshots_state:
  "rb_items (ip_ring two_snapshots) = [runner_snapshot 0 (Vec2Fixed 0 0), runner_snapshot 4 (Vec2Fixed 1024 512)]"
  "ip_render_tick two_snapshots = 0"
proof -
  let ?ip = "push_snapshot fixed_rounding (runner_snapshot 0 (Vec2Fixed 0 0)) Interpolation"
  have r0: "rb_inv kSnapshotRingSize (RingBuffer kSnapshotRingSize default_snapshot)" by (simp add: rb_inv_RingBuffer config_defs)
  have zero: "fixed_rounding (- 2) = - 2" using double_roundingD(2) [OF fixed_rounding_ok, of "- 2"] by simp
  have ip: "?ip = \<lparr>ip_ring = push_back (runner_snapshot 0 (Vec2Fixed 0 0)) (RingBuffer kSnapshotRingSize default_snapshot),
      ip_render_tick = 0, ip_bootstrapped = True\<rparr>"
    by (simp add: push_snapshot_def Interpolation_def Let_def find_runner zero config_defs) (simp add: RingBuffer_def)
  have items: "rb_items (ip_ring ?ip) = [runner_snapshot 0 (Vec2Fixed 0 0)]"
    unfolding ip by (simp add: rb_items_push_back [OF r0] rb_items_RingBuffer keep_last_def) (simp add: config_defs)
  have inv: "rb_inv kSnapshotRingSize (ip_ring ?ip)" unfolding ip by (simp add: rb_inv_push_back [OF r0])
  have "rb_size (ip_ring ?ip) = 1" "rb_back (ip_ring ?ip) = runner_snapshot 0 (Vec2Fixed 0 0)"
    using items length_rb_items [of "ip_ring ?ip"] rb_back_last [OF inv] by simp_all
  then have two: "two_snapshots = ?ip\<lparr>ip_ring := push_back (runner_snapshot 4 (Vec2Fixed 1024 512)) (ip_ring ?ip)\<rparr>"
    unfolding two_snapshots_def by (subst push_snapshot_def) (simp add: find_runner, simp add: ip)
  have "rb_items (push_back (runner_snapshot 4 (Vec2Fixed 1024 512)) (ip_ring ?ip))
      = [runner_snapshot 0 (Vec2Fixed 0 0), runner_snapshot 4 (Vec2Fixed 1024 512)]"
    unfolding rb_items_push_back [OF inv] items by (simp add: keep_last_def config_defs)
  then show "rb_items (ip_ring two_snapshots) = [runner_snapshot 0 (Vec2Fixed 0 0), runner_snapshot 4 (Vec2Fixed 1024 512)]"
    unfolding two by simp
  show "ip_render_tick two_snapshots = 0" unfolding two by (simp add: ip)
qed

lemma two_snapshots_advanced:
  fixes ip :: interpolation
  defines "ip \<equiv> advance_render fixed_rounding (1 / 15) two_snapshots"
  shows "rb_items (ip_ring ip) = [runner_snapshot 0 (Vec2Fixed 0 0), runner_snapshot 4 (Vec2Fixed 1024 512)]"
    "2 < ip_render_tick ip" "ip_render_tick ip < 3"
proof -
  let ?r = "ip_ring two_snapshots"
  have "interp_inv two_snapshots" unfolding two_snapshots_def
    by (intro interp_reachable_inv [where rnd = fixed_rounding] interp_reachable.intros)
  then have inv: "rb_inv kSnapshotRingSize ?r" by (simp add: interp_inv_def)
  have size: "rb_size ?r = 2" using two_snapshots_state(1) length_rb_items [of ?r] by simp
  then have ends: "rb_back ?r = runner_snapshot 4 (Vec2Fixed 1024 512)" "rb_front ?r = runner_snapshot 0 (Vec2Fixed 0 0)"
    using two_snapshots_state(1) rb_back_last [OF inv] rb_front_hd [OF _ inv] by simp_all
  have r: "fixed_rounding 4 = 4" "fixed_rounding (51 / 50) = 267387 / 262144" "fixed_rounding (4010805 / 131072) = 4010805 / 131072"
      "fixed_rounding (267387 / 131072) = 267387 / 131072"
    by (simp_all add: fixed_rounding_def floor_eq_iff)
  show "rb_items (ip_ring ip) = [runner_snapshot 0 (Vec2Fixed 0 0), runner_snapshot 4 (Vec2Fixed 1024 512)]"
    by (simp add: ip_def advance_render_def Let_def two_snapshots_state(1))
  show "2 < ip_render_tick ip" "ip_render_tick ip < 3"
    using two_snapshots_state(2) by (simp_all add: ip_def advance_render_def Let_def size ends find_runner config_defs r)
qed

theorem interpolation_never_extrapolates_witness:
  "let p = position (ps_motion (sample fixed_rounding 3 (advance_render fixed_rounding (1 / 15) two_snapshots)))
   in 510 < vx p \<and> vx p < 770 \<and> \<bar>vx p - 2 * vy p\<bar> \<le> 3"
proof -
  define ip where "ip = advance_render fixed_rounding (1 / 15) two_snapshots"
  let ?xs = "[runner_snapshot 0 (Vec2Fixed 0 0), runner_snapshot 4 (Vec2Fixed 1024 512)]"
  note st = two_snapshots_advanced [folded ip_def]
  have reach: "interp_reachable fixed_rounding ip"
    unfolding ip_def two_snapshots_def by (intro interp_reachable.intros)
  have "\<forall>s \<in> set ?xs. \<forall>ps. find_snap_player s 3 = Some ps \<longrightarrow>
        in_i32 (vx (position (ps_motion ps))) \<and> in_i32 (vy (position (ps_motion ps)))" by (auto simp: find_runner in_i32_def)
  from interpolation_never_extrapolates [OF fixed_rounding_ok fixed_rounding_close reach st(1) [symmetric] this refl]
  obtain i j where ij: "i < length ?xs" "j = (if i + 1 < length ?xs then i + 1 else i)" "of_nat (unat (snap_tick (?xs ! i))) \<le> ip_render_tick ip \<or> i = 0"
      and res: "case (find_snap_player (?xs ! i) 3, find_snap_player (?xs ! j) 3) of
           (None, None) \<Rightarrow> sample fixed_rounding 3 ip = default_player_state
         | (None, Some pb) \<Rightarrow> sample fixed_rounding 3 ip = pb
         | (Some pa, None) \<Rightarrow> sample fixed_rounding 3 ip = pa
         | (Some pa, Some pb) \<Rightarrow>
             let w = time_fraction (ip_render_tick ip) (?xs ! i) (?xs ! j);
                 p = position (ps_motion (sample fixed_rounding 3 ip)); a = position (ps_motion pa); b = position (ps_motion pb)
             in between (vx a) (vx b) (vx p) \<and> \<bar>of_int (vx p) - (of_int (vx a) + w * of_int (vx b - vx a))\<bar> \<le> 1 + of_int \<bar>vx b - vx a\<bar> / 524288
              \<and> between (vy a) (vy b) (vy p) \<and> \<bar>of_int (vy p) - (of_int (vy a) + w * of_int (vy b - vy a))\<bar> \<le> 1 + of_int \<bar>vy b - vy a\<bar> / 524288"
    unfolding if_not_P [OF list.distinct(2)] by blast
  have "i = 0 \<or> i = 1" using ij(1) by auto
  then have idx: "i = 0" "j = 1" using ij(2,3) st(2,3) by (auto simp: find_runner)
  define p where "p = position (ps_motion (sample fixed_rounding 3 ip))"
  have near: "\<bar>of_int (vx p) - 256 * ip_render_tick ip\<bar> \<le> (513 / 512 :: rat)" "\<bar>of_int (vy p) - 128 * ip_render_tick ip\<bar> \<le> (1025 / 1024 :: rat)"
    using res st(2,3) by (simp_all add: idx find_runner time_fraction_def Let_def p_def)
  have "(of_int 510 :: rat) < of_int (vx p)" "of_int (vx p) < (of_int 770 :: rat)"
    "of_int (vx p - 2 * vy p) < (of_int 4 :: rat)" "(of_int (- 4) :: rat) < of_int (vx p - 2 * vy p)"
    unfolding of_int_diff of_int_mult of_int_numeral of_int_minus using near st(2,3) by linarith+
  then have "510 < vx p" "vx p < 770" "vx p - 2 * vy p < 4" "- 4 < vx p - 2 * vy p" unfolding of_int_less_iff by simp_all
  then show ?thesis by (simp add: Let_def p_def ip_def)
qed

end
