(* ===== verification/Render_Policy.thy ===== *)
theory Render_Policy
  imports Interpolation
begin

text \<open>
  \<open>client/render_policy.h\<close>: which state the renderer draws for the local player, for a remote player
  and for a flag. The drawing itself is not modelled.
\<close>

definition resolve_local_position :: "bool \<Rightarrow> vec2 \<Rightarrow> vec2 \<Rightarrow> vec2" where
  "resolve_local_position prediction_enabled predicted_position raw_authoritative_position =
     (if prediction_enabled then predicted_position else raw_authoritative_position)"

definition resolve_remote_state :: "rounding \<Rightarrow> bool \<Rightarrow> player_state \<Rightarrow> interpolation \<Rightarrow> player_state" where
  "resolve_remote_state rnd interpolation_enabled raw ip =
     (if \<not> interpolation_enabled then raw
      else let interp = sample rnd (ps_id raw) ip in if ps_id interp = ps_id raw then interp else raw)"

definition resolve_flag_position :: "flag_state \<Rightarrow> u8 \<Rightarrow> world_snapshot \<Rightarrow> vec2 \<Rightarrow> vec2 \<Rightarrow> vec2" where
  "resolve_flag_position st carrier_id latest base_position dropped_cache =
     (if st = AtBase then base_position
      else if st = Carried then
        (case find_snap_player latest carrier_id of
           Some p \<Rightarrow> position (ps_motion p)
         | None \<Rightarrow> base_position)
      else dropped_cache)"

text \<open>The state that is drawn for a remote player belongs to that player, interpolated or not.\<close>

lemma remote_state_same_player: "ps_id (resolve_remote_state rnd on raw ip) = ps_id raw"
  by (simp add: resolve_remote_state_def Let_def)

lemma blend_id: "ps_id pa = ps_id pb \<Longrightarrow> ps_id (blend rnd t pa pb) = ps_id pa"
  by (simp add: blend_def Let_def)

lemma find_snap_player_id: "find_snap_player s pid = Some p \<Longrightarrow> ps_id p = pid"
  by (auto simp: find_snap_player_def find_Some_iff)

lemma sample_unknown:
  assumes "\<forall>s \<in> set (rb_items (ip_ring ip)). find_snap_player s pid = None"
  shows "sample rnd pid ip = default_player_state"
proof (cases "rb_size (ip_ring ip) = 0")
  case True
  then show ?thesis by (simp add: sample_def Let_def)
next
  case False
  let ?r = "ip_ring ip"
  let ?k = "bracket (ip_render_tick ip) ?r [0..<rb_size ?r] 0"
  have none: "find_snap_player (rb_at ?r k) pid = None" if "k < rb_size ?r" for k
    using assms that nth_rb_items [of k ?r] nth_mem [of k "rb_items ?r"] by simp
  have "?k < rb_size ?r" using bracket_result [of "ip_render_tick ip" ?r 0 "rb_size ?r" 0] False by auto
  then show ?thesis using none False by (simp add: sample_def Let_def)
qed

text \<open>
  A player that the ring does not know yet falls back to its raw state, except the player with id 0:
  the default state that \<open>sample\<close> returns has id 0 as well and passes for that player.
\<close>

lemma unknown_player_falls_back:
  assumes "\<forall>s \<in> set (rb_items (ip_ring ip)). find_snap_player s (ps_id raw) = None"
  shows "resolve_remote_state rnd True raw ip = (if ps_id raw = 0 then default_player_state else raw)"
  using sample_unknown [OF assms, of rnd] by (auto simp: resolve_remote_state_def Let_def default_player_state_def)

end
