(* ===== verification/Client_Loop.thy ===== *)
theory Client_Loop
  imports Net_Client Prediction Render_Policy Net_Server_Props
begin

text \<open>
  The loops of \<open>client/main.cpp\<close> and \<open>bot/main.cpp\<close> around the network client and the prediction:
  which packet a tick sends, what a frame does with new snapshots, and when a tick predicts.

  Keyboard, mouse and clock are arguments. The aim angle is computed in floating point from the
  mouse position and is an argument as well. The tick loops take the outcome of their comparison of
  the accumulated time before each round, \<open>due i\<close>, which the programs compute from the accumulator
  with \<open>tick_due\<close>. Drawing and the figures of the HUD follow in \<open>Programs\<close>.
\<close>

section \<open>One tick\<close>

definition find_self :: "world_snapshot \<Rightarrow> u8 \<Rightarrow> player_state option" where
  "find_self snap pid = List.find (\<lambda>p. ps_id p = pid) (map (\<lambda>i. snap_players snap ! i) [0..<unat (player_count snap)])"

definition collect_inputs :: "input_history_entry ring_buffer \<Rightarrow> input_cmd list \<times> u8" where
  "collect_inputs history =
     (let cap = kInputRedundancy;
          start = (if rb_size history > cap then rb_size history - cap else 0)
      in fold (\<lambda>i (last, count). (last[unat count := he_input (rb_at history i)], count + 1))
           [start..<rb_size history] (replicate kInputRedundancy default_input, 0))"

definition send_current_input :: "prediction \<Rightarrow> net_client \<Rightarrow> net_client" where
  "send_current_input pd nc =
     (if rb_size (pd_history pd) = 0 then send_input 0 [default_input] 1 nc
      else let (last, count) = collect_inputs (pd_history pd) in send_input (pd_seq pd) last count nc)"

text \<open>The keys that \<open>sample_input\<close> reads, each the disjunction of its two bindings.\<close>

record sampled_keys =
  key_up :: bool
  key_down :: bool
  key_left :: bool
  key_right :: bool
  mouse_left :: bool

definition sample_input :: "sampled_keys \<Rightarrow> u16 \<Rightarrow> input_cmd" where
  "sample_input k aim =
     (let b = 0;
          b = (if key_up k then b OR kInputUp else b);
          b = (if key_down k then b OR kInputDown else b);
          b = (if key_left k then b OR kInputLeft else b);
          b = (if key_right k then b OR kInputRight else b);
          b = (if mouse_left k then b OR kInputFire else b)
      in \<lparr>buttons = b, aim_angle = aim\<rparr>)"

section \<open>One frame\<close>

text \<open>What the loops of the client and of the bot both keep, and what the client adds.\<close>

record player_loop =
  ca_net :: net_client
  ca_my_id :: u8
  ca_prediction :: prediction
  ca_latest_snapshot :: world_snapshot
  ca_have_snapshot :: bool

record client_app = player_loop +
  ca_interpolation :: interpolation

definition client_start :: "net_client \<Rightarrow> client_app" where
  "client_start net = \<lparr>ca_net = net, ca_my_id = nc_player_id net, ca_prediction = Prediction,
     ca_latest_snapshot = default_snapshot, ca_have_snapshot = False, ca_interpolation = Interpolation\<rparr>"

definition game_started :: "net_client \<Rightarrow> bool" where
  "game_started nc \<longleftrightarrow> nc_state nc = NcInGame"

definition alive_in_match :: "'a player_loop_scheme \<Rightarrow> bool" where
  "alive_in_match ca =
     (if \<not> game_started (ca_net ca) \<or> \<not> ca_have_snapshot ca then False
      else case find_self (ca_latest_snapshot ca) (ca_my_id ca) of
        None \<Rightarrow> False
      | Some self \<Rightarrow> ps_alive self)"

text \<open>The body of the tick loop; \<open>read_input\<close> gives the input for a position.\<close>

definition client_tick :: "(vec2 \<Rightarrow> input_cmd) \<Rightarrow> client_app \<Rightarrow> client_app" where
  "client_tick read_input ca =
     (let ca = (if alive_in_match ca
                then ca\<lparr>ca_prediction := on_local_tick (read_input (position (pd_local_state (ca_prediction ca)))) (ca_prediction ca)\<rparr>
                else ca)
      in ca\<lparr>ca_net := send_current_input (ca_prediction ca) (ca_net ca)\<rparr>)"

function client_ticks :: "(nat \<Rightarrow> bool) \<Rightarrow> nat \<Rightarrow> (nat \<Rightarrow> vec2 \<Rightarrow> input_cmd) \<Rightarrow> nat \<Rightarrow> client_app \<Rightarrow> client_app" where
  "client_ticks due limit read_input i ca =
     (if due i \<and> i < limit then client_ticks due limit read_input (i + 1) (client_tick (read_input i) ca) else ca)"
  by pat_completeness auto
termination by (relation "measure (\<lambda>(due, limit, read_input, i, ca). limit - i)") auto

declare client_ticks.simps [simp del]

definition client_snapshot :: "rounding \<Rightarrow> world_snapshot \<Rightarrow> client_app \<Rightarrow> client_app" where
  "client_snapshot rnd snap ca =
     ca\<lparr>ca_latest_snapshot := snap, ca_have_snapshot := True, ca_interpolation := push_snapshot rnd snap (ca_interpolation ca),
        ca_prediction := on_snapshot snap (ca_my_id ca) (ca_prediction ca)\<rparr>"

text \<open>
  The accumulator of frame time: what is left of it after \<open>i\<close> rounds, and whether the comparison
  before round \<open>i\<close> (from 0) lets it run; \<open>ticks_due\<close> counts the rounds of a loop with a limit.
\<close>

definition tick_dt :: "rounding \<Rightarrow> rat" where
  "tick_dt rnd = rnd (1 / of_int kTickRateHz)"

primrec time_left :: "rounding \<Rightarrow> rat \<Rightarrow> nat \<Rightarrow> rat" where
  "time_left rnd acc 0 = acc"
| "time_left rnd acc (Suc i) = rnd (time_left rnd acc i - tick_dt rnd)"

definition tick_due :: "rounding \<Rightarrow> rat \<Rightarrow> nat \<Rightarrow> bool" where
  "tick_due rnd acc i \<longleftrightarrow> time_left rnd acc i \<ge> tick_dt rnd"

definition ticks_due :: "rounding \<Rightarrow> rat \<Rightarrow> nat \<Rightarrow> nat" where
  "ticks_due rnd acc limit = length (takeWhile (tick_due rnd acc) [0..<limit])"

text \<open>The loop stops at its limit or when less than one tick is left; in exact arithmetic no time is lost.\<close>

lemma ticks_due_stop: "ticks_due rnd acc limit = limit \<or> time_left rnd acc (ticks_due rnd acc limit) < tick_dt rnd"
proof (rule disjCI)
  assume more_time: "\<not> time_left rnd acc (ticks_due rnd acc limit) < tick_dt rnd"
  show "ticks_due rnd acc limit = limit"
  proof (rule ccontr)
    assume "ticks_due rnd acc limit \<noteq> limit"
    moreover have "ticks_due rnd acc limit \<le> limit" using length_takeWhile_le [of "tick_due rnd acc" "[0..<limit]"] by (simp add: ticks_due_def)
    ultimately have less: "length (takeWhile (tick_due rnd acc) [0..<limit]) < length [0..<limit]" by (simp add: ticks_due_def)
    from nth_length_takeWhile [OF this] less more_time show False by (simp add: tick_due_def ticks_due_def)
  qed
qed

lemma time_left_exact: "time_left (\<lambda>x. x) acc i + of_nat i / of_int kTickRateHz = acc"
  by (induction i) (simp_all add: tick_dt_def add_divide_distrib)

text \<open>What a frame takes from outside: the answers of the sockets, the clock, the keys and the timer.\<close>

record frame_input =
  fr_tcp :: "recv_outcome list"
  fr_udp :: "recv_outcome list"
  fr_now1 :: u32
  fr_now2 :: u32
  fr_dt :: rat
  fr_enter :: bool
  fr_due :: "nat \<Rightarrow> bool"
  fr_sample :: "nat \<Rightarrow> vec2 \<Rightarrow> input_cmd"

text \<open>A frame up to drawing; the events are returned for the renderer.\<close>

definition client_frame :: "rounding \<Rightarrow> frame_input \<Rightarrow> client_app \<Rightarrow> game_event list \<times> client_app" where
  "client_frame rnd fr ca =
     (let ca = ca\<lparr>ca_net := client_poll (fr_tcp fr) (fr_udp fr) (fr_now1 fr) (fr_now2 fr) (ca_net ca)\<rparr>;
          (snaps, net) = take_snapshots (ca_net ca);
          ca = fold (client_snapshot rnd) snaps (ca\<lparr>ca_net := net\<rparr>);
          (events, net) = take_events (ca_net ca);
          net = (if \<not> game_started net \<and> is_host net \<and> fr_enter fr then send_start_request net else net);
          ca = client_ticks (fr_due fr) 10 (fr_sample fr) 0 (ca\<lparr>ca_net := net\<rparr>)
      in (events, ca\<lparr>ca_interpolation := advance_render rnd (fr_dt fr) (ca_interpolation ca)\<rparr>))"

section \<open>What reaches the server\<close>

definition history_command :: "u8 \<Rightarrow> input_history_entry \<Rightarrow> inbound_command" where
  "history_command pid e =
     default_inbound_command\<lparr>ic_type := CmdPlayerInput, ic_player_id := pid, ic_seq := he_seq e, ic_input := he_input e\<rparr>"

lemma collect_loop:
  "length xs + k \<le> 255 \<Longrightarrow>
   fold (\<lambda>x (last, count). (last[unat count := x], count + 1)) xs (ys, word_of_nat k :: u8)
    = (update_range ys k xs, word_of_nat (k + length xs))"
proof (induction xs arbitrary: ys k)
  case Nil
  then show ?case by simp
next
  case (Cons x xs)
  have "unat (word_of_nat k :: u8) = k" using Cons.prems by (simp add: unsigned_of_nat take_bit_nat_eq_self)
  then show ?case using Cons.IH [of "Suc k" "ys[k := x]"] Cons.prems by (simp add: add.commute)
qed

lemma keep_last_map: "keep_last n (map f xs) = map f (keep_last n xs)"
  by (simp add: keep_last_def drop_map)

lemma collect_inputs_result:
  "collect_inputs h = (update_range (replicate kInputRedundancy default_input) 0
      (map he_input (keep_last kInputRedundancy (rb_items h))), word_of_nat (min kInputRedundancy (rb_size h)))"
proof -
  let ?start = "if rb_size h > kInputRedundancy then rb_size h - kInputRedundancy else 0"
  have start: "?start = rb_size h - kInputRedundancy" by simp
  have items: "map (\<lambda>i. he_input (rb_at h i)) [?start..<rb_size h] = map he_input (keep_last kInputRedundancy (rb_items h))"
    unfolding start by (rule nth_equalityI) (simp_all add: keep_last_def nth_rb_items min_def)
  have "fold (\<lambda>i (last, count). (last[unat count := he_input (rb_at h i)], count + 1)) [?start..<rb_size h] (ys, 0 :: u8)
      = fold (\<lambda>x (last, count). (last[unat count := x], count + 1)) (map (\<lambda>i. he_input (rb_at h i)) [?start..<rb_size h]) (ys, word_of_nat 0)" for ys
    by (simp add: fold_map comp_def)
  then show ?thesis
    using collect_loop [of "map he_input (keep_last kInputRedundancy (rb_items h))" 0 "replicate kInputRedundancy default_input"]
    by (simp add: collect_inputs_def Let_def items) (simp add: config_defs)
qed

lemma sent_input_datagram:
  assumes "0 \<le> nc_udp_fd nc" "unat cnt \<le> kInputRedundancy"
    and msg: "msg = \<lparr>pi_player_id = nc_player_id nc, pi_session_token = nc_session_token nc, pi_base_seq = base_seq, pi_count = cnt,
      pi_inputs = update_range (replicate kInputRedundancy default_input) 0 (map (\<lambda>i. inputs ! i) [0..<unat cnt])\<rparr>"
    and hdr: "hdr = \<lparr>uh_magic = kMagic, uh_version = kProtocolVersion, uh_type = message_type_byte PlayerInput, uh_tick = base_seq\<rparr>"
  shows "send_input base_seq inputs cnt nc = nc\<lparr>nc_udp_sent := nc_udp_sent nc @ [wire_udp_header hdr @ wire_player_input msg]\<rparr>"
    and "valid_player_input msg"
proof -
  let ?cap = "kUdpHeaderBytes + 4 + 4 + 4 + 1 + kInputRedundancy * 3"
  let ?w = "ByteWriter (replicate ?cap 0) ?cap"
  show v: "valid_player_input msg" using assms(2) by (simp add: msg valid_player_input_def)
  have "length (concat (map (\<lambda>i. buttons (pi_inputs msg ! i) # be16 (aim_angle (pi_inputs msg ! i))) [0..<n])) = 3 * n" for n
    by (induction n) simp_all
  then have len: "length (wire_player_input msg) \<le> 19" using assms(2) by (simp add: wire_player_input_def msg config_defs)
  have "valid_udp_header hdr" by (simp add: hdr valid_udp_header_def)
  note h = emits_fits [OF udp_header.enc_emits [OF this], of ?w]
  have w: "writer_wf ?w" "\<not> bw_overflow ?w" "bw_pos ?w = 0" "bw_cap ?w = ?cap" "written ?w = []"
    by (simp_all add: ByteWriter_def writer_wf_def written_def)
  have hl: "length (wire_udp_header hdr) = 8" by (simp add: wire_udp_header_def)
  let ?w' = "after (encode_udp_header hdr) ?w"
  have w': "writer_wf ?w'" "\<not> bw_overflow ?w'" "written ?w' = wire_udp_header hdr" "bw_cap ?w' = ?cap" "bw_pos ?w' = 8"
    using h w hl by (simp_all add: config_defs)
  note p = emits_fits [OF player_input.enc_emits [OF v] w'(1,2)]
  have "\<not> bw_overflow (after (encode_player_input msg) ?w')"
      "written (after (encode_player_input msg) ?w') = wire_udp_header hdr @ wire_player_input msg"
    using p w' len by (simp_all add: config_defs)
  moreover have "send_input base_seq inputs cnt nc = (if bw_overflow (after (encode_player_input msg) ?w') then nc
      else nc\<lparr>nc_udp_sent := nc_udp_sent nc @ [written (after (encode_player_input msg) ?w')]\<rparr>)"
    using assms(1,2) by (simp add: send_input_def Let_def msg hdr del: message_type_byte.simps)
  ultimately show "send_input base_seq inputs cnt nc = nc\<lparr>nc_udp_sent := nc_udp_sent nc @ [wire_udp_header hdr @ wire_player_input msg]\<rparr>"
    by simp
qed

lemma send_current_input_one:
  assumes "0 \<le> nc_udp_fd nc"
  shows "\<exists>d. send_current_input pd nc = nc\<lparr>nc_udp_sent := nc_udp_sent nc @ [d]\<rparr>"
proof (cases "rb_size (pd_history pd) = 0")
  case True
  have "unat (1 :: u8) \<le> kInputRedundancy" by (simp add: config_defs)
  from sent_input_datagram(1) [OF assms this refl refl, of 0 "[default_input]"] True show ?thesis
    by (auto simp: send_current_input_def)
next
  case False
  let ?n = "min kInputRedundancy (rb_size (pd_history pd))"
  have "?n \<le> 3" by (simp add: config_defs)
  then have "unat (word_of_nat ?n :: u8) = ?n" by (simp only: unsigned_of_nat) (simp add: take_bit_nat_eq_self)
  then have n: "unat (word_of_nat ?n :: u8) \<le> kInputRedundancy" by simp
  from sent_input_datagram(1) [OF assms n refl refl, of "pd_seq pd" "fst (collect_inputs (pd_history pd))"] False show ?thesis
    by (auto simp: send_current_input_def collect_inputs_result)
qed

lemma input_datagram_served:
  assumes "valid_player_input msg" "hdr = \<lparr>uh_magic = kMagic, uh_version = kProtocolVersion,
      uh_type = message_type_byte PlayerInput, uh_tick = t\<rparr>"
  shows "on_udp_packet now src (wire_udp_header hdr @ wire_player_input msg) ns = on_player_input now src (norm_player_input msg) ns"
proof -
  have "received decode_udp_header (wire_udp_header hdr @ wire_player_input msg) = Some hdr"
    using udp_header.decode_wire [of hdr "wire_player_input msg"] assms(2) by (simp add: received_def valid_udp_header_def)
  moreover have "drop kUdpHeaderBytes (wire_udp_header hdr @ wire_player_input msg) = wire_player_input msg"
    by (simp add: wire_udp_header_def config_defs)
  moreover have "received decode_player_input (wire_player_input msg) = Some (norm_player_input msg)"
    using player_input.decode_wire [OF assms(1), of "[]"] by (simp add: received_def)
  ultimately show ?thesis by (simp add: on_udp_packet_def assms(2))
qed

text \<open>The packet for a history: the server turns it into one command per entry, under the entry's own number.\<close>

lemma history_unat:
  assumes "pred_inv pd" "i < n" "n = length es" "es = keep_last kInputRedundancy (rb_items (pd_history pd))"
  shows "unat (he_seq (es ! i)) = unat (pd_seq pd) + 1 - n + i" "n \<le> unat (pd_seq pd) + 1"
proof -
  let ?h = "pd_history pd" and ?q = "unat (pd_seq pd)"
  have seqs: "map (\<lambda>e. unat (he_seq e)) (rb_items ?h) = [?q + 1 - rb_size ?h..<?q + 1]" using assms(1) by (simp add: pred_inv_def)
  from arg_cong [OF this, of length] have room: "rb_size ?h \<le> ?q + 1" by (simp del: upt_Suc)
  have n: "n = min kInputRedundancy (rb_size ?h)" using assms(3,4) by simp
  have "es ! i = rb_items ?h ! (rb_size ?h - n + i)" using assms(2-4) by (simp add: keep_last_def)
  moreover have "unat (he_seq (rb_items ?h ! j)) = ?q + 1 - rb_size ?h + j" if "j < rb_size ?h" for j
    using arg_cong [OF seqs, of "\<lambda>xs. xs ! j"] that room by (simp del: upt_Suc)
  moreover have "rb_size ?h - n + i < rb_size ?h" "n \<le> rb_size ?h" using assms(2) n by arith+
  ultimately show "unat (he_seq (es ! i)) = ?q + 1 - n + i" using room by simp
  show "n \<le> ?q + 1" using n room by simp
qed

lemma history_numbers:
  assumes "pred_inv pd" "i < n" "n = length es" "es = keep_last kInputRedundancy (rb_items (pd_history pd))"
  shows "pd_seq pd - word_of_nat n + 1 + word_of_nat i = he_seq (es ! i)"
proof -
  let ?q = "unat (pd_seq pd)"
  note h = history_unat [OF assms]
  have "he_seq (es ! i) = word_of_nat (?q + 1 - n + i)" using h(1) by (metis of_nat_unat ucast_id)
  also have "\<dots> = pd_seq pd + 1 - word_of_nat n + word_of_nat i" using h(2) by (simp add: of_nat_diff)
  finally show ?thesis by simp
qed

text \<open>The history entries that a packet carries, and its base sequence number.\<close>

definition packet_entries :: "prediction \<Rightarrow> input_history_entry list" where
  "packet_entries pd = (if rb_items (pd_history pd) = [] then [default_history_entry]
     else keep_last kInputRedundancy (rb_items (pd_history pd)))"

definition packet_base :: "prediction \<Rightarrow> u32" where
  "packet_base pd = (if rb_items (pd_history pd) = [] then 0 else pd_seq pd)"

lemma length_packet: "length (packet_entries pd) \<le> 3"
  by (simp add: packet_entries_def config_defs)

lemma packet_sent:
  obtains inputs where "send_current_input pd nc = send_input (packet_base pd) inputs (word_of_nat (length (packet_entries pd))) nc"
    "map (\<lambda>i. inputs ! i) [0..<length (packet_entries pd)] = map he_input (packet_entries pd)"
proof -
  let ?h = "pd_history pd"
  define inputs where "inputs = (if rb_items ?h = [] then [default_input]
    else update_range (replicate kInputRedundancy default_input) 0 (map he_input (packet_entries pd)))"
  have empty: "rb_items ?h = [] \<longleftrightarrow> rb_size ?h = 0" using length_rb_items [of ?h] by (metis length_0_conv)
  show thesis
  proof (rule that [of inputs])
    show "send_current_input pd nc = send_input (packet_base pd) inputs (word_of_nat (length (packet_entries pd))) nc"
      by (auto simp: send_current_input_def collect_inputs_result packet_base_def inputs_def packet_entries_def empty)
    show "map (\<lambda>i. inputs ! i) [0..<length (packet_entries pd)] = map he_input (packet_entries pd)"
      by (rule nth_equalityI) (auto simp: inputs_def packet_entries_def nth_update_range default_history_entry_def config_defs)
  qed
qed

lemma packet_numbers:
  assumes "pred_inv pd" "i < length (packet_entries pd)"
  shows "packet_base pd - word_of_nat (length (packet_entries pd)) + 1 + word_of_nat i = he_seq (packet_entries pd ! i)"
proof (cases "rb_items (pd_history pd) = []")
  case True
  then show ?thesis using assms(2) by (simp add: packet_base_def packet_entries_def default_history_entry_def)
next
  case False
  then show ?thesis using history_numbers [OF assms(1), of i] assms(2) by (simp add: packet_base_def packet_entries_def)
qed

lemma small_count: "n \<le> 3 \<Longrightarrow> unat (word_of_nat n :: u8) = n \<and> ucast (word_of_nat n :: u8) = (word_of_nat n :: u32)"
proof -
  assume "n \<le> 3"
  then have "n \<in> {0, 1, 2, 3}" by auto
  then show ?thesis by auto
qed

text \<open>
  C6 (refinement): inputs reach the simulation under their own numbers. The datagram that a client
  sends in a tick, once it arrives and authenticates, appends to the command queue exactly the last
  three inputs of the prediction history (or the fewer there are), in order, each with the sequence
  number under which the client predicted it; with an empty history it is one idle input numbered 0.
\<close>

theorem inputs_arrive_with_their_numbers:
  assumes "pred_reachable pd" "0 \<le> nc_udp_fd nc"
    and "auth_udp_sender src (nc_player_id nc) (nc_session_token nc) (ns_registry ns) = Some k"
  shows "\<exists>datagram. nc_udp_sent (send_current_input pd nc) = nc_udp_sent nc @ [datagram]
    \<and> in_items (ns_inbound (on_udp_packet now src datagram ns)) = in_items (ns_inbound ns) @
        (if rb_items (pd_history pd) = [] then [history_command (nc_player_id nc) default_history_entry]
         else map (history_command (nc_player_id nc)) (keep_last 3 (rb_items (pd_history pd))))"
proof -
  let ?pid = "nc_player_id nc"
  define es where "es = packet_entries pd"
  define n where "n = length es"
  obtain inputs where sent: "send_current_input pd nc = send_input (packet_base pd) inputs (word_of_nat n) nc"
    and inputs: "map (\<lambda>i. inputs ! i) [0..<n] = map he_input es"
    unfolding n_def es_def by (rule packet_sent)
  have n3: "n \<le> 3" "n \<le> kInputRedundancy" using length_packet by (simp_all add: n_def es_def config_defs)
  note cnt = small_count [OF n3(1)]
  define msg where "msg = \<lparr>pi_player_id = ?pid, pi_session_token = nc_session_token nc, pi_base_seq = packet_base pd, pi_count = word_of_nat n,
      pi_inputs = update_range (replicate kInputRedundancy default_input) 0 (map he_input es)\<rparr>"
  define hdr where "hdr = \<lparr>uh_magic = kMagic, uh_version = kProtocolVersion, uh_type = message_type_byte PlayerInput, uh_tick = packet_base pd\<rparr>"
  note d = sent_input_datagram [OF assms(2), of "word_of_nat n" msg "packet_base pd" inputs, unfolded conjunct1 [OF cnt] inputs, OF n3(2) msg_def hdr_def]
  have norm: "pi_player_id (norm_player_input msg) = ?pid" "pi_session_token (norm_player_input msg) = nc_session_token nc"
    "pi_count (norm_player_input msg) = word_of_nat n" "pi_base_seq (norm_player_input msg) = packet_base pd"
    "i < n \<Longrightarrow> pi_inputs (norm_player_input msg) ! i = he_input (es ! i)" for i
    using n3(2) cnt [unfolded n_def] by (simp_all add: norm_player_input_def msg_def nth_append n_def nth_update_range)
  have clamp: "(if n < kInputRedundancy then word_of_nat n else word_of_nat kInputRedundancy) = (word_of_nat n :: u8)"
    using n3(2) by simp
  have "input_command (norm_player_input msg) (word_of_nat n) i = history_command ?pid (es ! i)" if "i < n" for i
    using packet_numbers [OF pred_reachable_inv [OF assms(1)], of i] that cnt
    by (simp add: input_command_def history_command_def norm n_def es_def)
  then have cmds: "map (input_command (norm_player_input msg) (word_of_nat n)) [0..<n] = map (history_command ?pid) es"
    by (intro nth_equalityI) (simp_all add: n_def)
  have "in_items (ns_inbound (on_player_input now src (norm_player_input msg) ns)) = in_items (ns_inbound ns) @ map (history_command ?pid) es"
    using player_input_items [of now src "norm_player_input msg" ns]
    by (simp only: norm assms(3) option.case Let_def clamp conjunct1 [OF cnt] cmds)
  moreover have "on_udp_packet now src (wire_udp_header hdr @ wire_player_input msg) ns = on_player_input now src (norm_player_input msg) ns"
    using input_datagram_served [OF d(2) hdr_def] .
  moreover have "map (history_command ?pid) es = (if rb_items (pd_history pd) = [] then [history_command ?pid default_history_entry]
      else map (history_command ?pid) (keep_last 3 (rb_items (pd_history pd))))"
    by (simp add: es_def packet_entries_def config_defs)
  ultimately show ?thesis by (intro exI [of _ "wire_udp_header hdr @ wire_player_input msg"] conjI) (simp_all add: sent d(1))
qed

section \<open>Every tick sends\<close>

text \<open>
  A loop that runs its body while a tick is due, up to a limit per frame. The client and the bot
  have one each.
\<close>

locale tick_loop =
  fixes loop :: "nat \<Rightarrow> 's \<Rightarrow> 's" and body :: "nat \<Rightarrow> 's \<Rightarrow> 's" and due :: "nat \<Rightarrow> bool" and limit :: nat
    and open_socket :: "'s \<Rightarrow> bool" and sent :: "'s \<Rightarrow> u8 list list"
  assumes loop_eq: "loop i s = (if due i \<and> i < limit then loop (i + 1) (body i s) else s)"
    and body_sends: "open_socket s \<Longrightarrow> open_socket (body i s) \<and> (\<exists>d. sent (body i s) = sent s @ [d])"
begin

lemma loop_sends: "open_socket s \<Longrightarrow> \<exists>ds. sent (loop i s) = sent s @ ds \<and> length ds = length (takeWhile due [i..<limit])"
proof (induction "limit - i" arbitrary: i s)
  case 0
  then show ?case using loop_eq [of i s] by simp
next
  case (Suc n)
  then have cons: "[i..<limit] = i # [i + 1..<limit]" by (simp add: upt_conv_Cons)
  show ?case
  proof (cases "due i")
    case False
    then show ?thesis using loop_eq [of i s] by (simp add: cons)
  next
    case True
    obtain d where d: "sent (body i s) = sent s @ [d]" "open_socket (body i s)" using body_sends [OF Suc.prems] by blast
    have "n = limit - (i + 1)" using Suc.hyps(2) by simp
    from Suc.hyps(1) [OF this d(2)] obtain ds where
      "sent (loop (i + 1) (body i s)) = sent (body i s) @ ds" "length ds = length (takeWhile due [i + 1..<limit])" by blast
    then show ?thesis using loop_eq [of i s] True Suc.hyps(2) d(1) by (intro exI [of _ "d # ds"]) (simp add: cons)
  qed
qed

end

lemma client_tick_sends:
  assumes "0 \<le> nc_udp_fd (ca_net ca)"
  shows "\<exists>d. ca_net (client_tick read_input ca) = (ca_net ca)\<lparr>nc_udp_sent := nc_udp_sent (ca_net ca) @ [d]\<rparr>"
  using send_current_input_one [OF assms] by (simp add: client_tick_def Let_def)

interpretation client_tick_loop: tick_loop "client_ticks due limit read_input" "\<lambda>i. client_tick (read_input i)" due limit
    "\<lambda>ca. 0 \<le> nc_udp_fd (ca_net ca)" "\<lambda>ca. nc_udp_sent (ca_net ca)"
  for due limit read_input
proof
  show "client_ticks due limit read_input i ca = (if due i \<and> i < limit then client_ticks due limit read_input (i + 1) (client_tick (read_input i) ca) else ca)" for i ca
    by (rule client_ticks.simps)
  show "0 \<le> nc_udp_fd (ca_net (client_tick (read_input i) ca)) \<and> (\<exists>d. nc_udp_sent (ca_net (client_tick (read_input i) ca)) = nc_udp_sent (ca_net ca) @ [d])"
    if "0 \<le> nc_udp_fd (ca_net ca)" for i ca
    using client_tick_sends [OF that, of "read_input i"] that by auto
qed

definition sample_prediction :: prediction where
  "sample_prediction = on_local_tick \<lparr>buttons = 8, aim_angle = 0\<rparr> Prediction"

definition sample_client :: net_client where
  "sample_client = NetClient\<lparr>nc_udp_fd := 4, nc_session_token := 9\<rparr>"

definition sample_server :: net_server where
  "sample_server = (NetServer InboundQueue OutboundQueue 3000)
     \<lparr>ns_registry := [default_client_entry\<lparr>ce_tcp_fd := 7, ce_session_token := 9\<rparr>]\<rparr>"

theorem inputs_arrive_with_their_numbers_witness:
  "\<exists>datagram. nc_udp_sent (send_current_input sample_prediction sample_client) = [datagram]
    \<and> map (\<lambda>c. (ic_seq c, buttons (ic_input c))) (in_items (ns_inbound (on_udp_packet 5 (1, 2) datagram sample_server))) = [(1, 8)]"
proof -
  let ?pd = sample_prediction and ?nc = sample_client and ?ns = sample_server
  have r: "pred_reachable ?pd" unfolding sample_prediction_def
    by (rule pred_reachable.ticked [OF pred_reachable.start]) (simp add: Prediction_def)
  have auth: "auth_udp_sender (1, 2) (nc_player_id ?nc) (nc_session_token ?nc) (ns_registry ?ns) = Some 0"
    by (simp add: auth_udp_sender_def find_by_id_def sample_client_def sample_server_def NetClient_def default_client_entry_def kFreeFd_def)
  have h: "rb_items (pd_history ?pd) = [\<lparr>he_seq = 1, he_input = \<lparr>buttons = 8, aim_angle = 0\<rparr>, he_state_after = pd_local_state ?pd\<rparr>]"
    unfolding sample_prediction_def on_local_tick_def Let_def
    by (simp add: Prediction_def rb_items_push_back [OF rb_inv_RingBuffer] rb_items_RingBuffer config_defs)
  have empty: "nc_udp_sent ?nc = []" "in_items (ns_inbound ?ns) = []" "0 \<le> nc_udp_fd ?nc"
    by (simp_all add: sample_client_def sample_server_def NetClient_def NetServer_def InboundQueue_def)
  from inputs_arrive_with_their_numbers [OF r empty(3) auth, of 5] show ?thesis
    unfolding h empty by (fastforce simp: history_command_def)
qed

end
