(* ===== verification/Flow_Field.thy ===== *)
theory Flow_Field
  imports Movement
begin

text \<open>
  \<open>bot/flow_field.cpp\<close>: the breadth-first distance field of the bots and the steering along it.

  The loop of \<open>build\<close> is \<open>bfs\<close>, a partial function on options: a run that never empties its queue
  would be \<open>None\<close>. The lemmas show that it always returns, that the field holds exactly the lengths
  of the shortest walks through passable tiles (\<open>walk\<close> is the reference definition), that the
  16-bit distances never reach \<open>kUnreachable\<close>, and that the buttons \<open>steer\<close> returns are feasible:
  no pressed direction runs into a wall, so the physics step really moves the player.
\<close>

section \<open>The field\<close>

definition kTileFp :: int where "kTileFp = kTileSizePx * kFixedScale"
definition kBoxFp :: int where "kBoxFp = kPlayerSizePx * kFixedScale"
definition kCenterMarginFp :: int where "kCenterMarginFp = cdiv (kTileFp - kBoxFp) 2"

record tile =
  tile_x :: int
  tile_y :: int

definition Tile :: "int \<Rightarrow> int \<Rightarrow> tile" where
  "Tile x y = \<lparr>tile_x = x, tile_y = y\<rparr>"

type_synonym flow_field = "u16 list list"

definition kUnreachable :: u16 where "kUnreachable = 0xFFFF"

definition outside :: "int \<Rightarrow> int \<Rightarrow> bool" where
  "outside tx ty \<longleftrightarrow> tx < 0 \<or> ty < 0 \<or> tx \<ge> kMapWidthTiles \<or> ty \<ge> kMapHeightTiles"

definition tile_of :: "vec2 \<Rightarrow> tile" where
  "tile_of pos_fp =
     (let x = cdiv (vx pos_fp) kTileFp;
          y = cdiv (vy pos_fp) kTileFp;
          x = (if x < 0 then 0 else x);
          y = (if y < 0 then 0 else y);
          x = (if x \<ge> kMapWidthTiles then kMapWidthTiles - 1 else x);
          y = (if y \<ge> kMapHeightTiles then kMapHeightTiles - 1 else y)
      in Tile x y)"

definition tile_passable :: "int \<Rightarrow> int \<Rightarrow> bool" where
  "tile_passable tx ty =
     (if outside tx ty then False
      else if is_wall tx ty then False
      else \<not> aabb_collides (Vec2Fixed (tx * kTileFp + kCenterMarginFp) (ty * kTileFp + kCenterMarginFp)))"

definition dist_get :: "flow_field \<Rightarrow> tile \<Rightarrow> u16" where
  "dist_get ff t = ff ! nat (tile_y t) ! nat (tile_x t)"

definition dist_set :: "tile \<Rightarrow> u16 \<Rightarrow> flow_field \<Rightarrow> flow_field" where
  "dist_set t d ff = ff[nat (tile_y t) := (ff ! nat (tile_y t))[nat (tile_x t) := d]]"

definition neighbors :: "tile \<Rightarrow> tile list" where
  "neighbors c = [Tile (tile_x c + 1) (tile_y c), Tile (tile_x c - 1) (tile_y c),
                  Tile (tile_x c) (tile_y c + 1), Tile (tile_x c) (tile_y c - 1)]"

text \<open>The body of the inner loop for one neighbour.\<close>

definition visit :: "u16 \<Rightarrow> tile \<Rightarrow> tile list \<times> flow_field \<Rightarrow> tile list \<times> flow_field" where
  "visit next n = (\<lambda>(queue, ff).
     if outside (tile_x n) (tile_y n) then (queue, ff)
     else if dist_get ff n \<noteq> kUnreachable then (queue, ff)
     else if \<not> tile_passable (tile_x n) (tile_y n) then (queue, ff)
     else (queue @ [n], dist_set n next ff))"

partial_function (option) bfs :: "tile list \<Rightarrow> flow_field \<Rightarrow> flow_field option" where
  "bfs queue ff =
     (case queue of
        [] \<Rightarrow> Some ff
      | cur # queue' \<Rightarrow>
          (case fold (visit (dist_get ff cur + 1)) (neighbors cur) (queue', ff) of
             (queue'', ff') \<Rightarrow> bfs queue'' ff'))"

declare bfs.simps [code]

text \<open>\<open>build\<close> overwrites the whole field, so the old one does not matter.\<close>

definition build :: "vec2 \<Rightarrow> flow_field option" where
  "build source_fp =
     (let ff = replicate (nat kMapHeightTiles) (replicate (nat kMapWidthTiles) kUnreachable);
          s = tile_of source_fp
      in if \<not> tile_passable (tile_x s) (tile_y s) then Some ff
         else bfs [s] (dist_set s 0 ff))"

definition dist_at :: "flow_field \<Rightarrow> int \<Rightarrow> int \<Rightarrow> u16" where
  "dist_at ff tx ty = (if outside tx ty then kUnreachable else dist_get ff (Tile tx ty))"

section \<open>Steering\<close>

definition axis_feasible :: "vec2 \<Rightarrow> int \<Rightarrow> int \<Rightarrow> bool" where
  "axis_feasible pos_fp dx dy \<longleftrightarrow>
     \<not> aabb_collides (Vec2Fixed (vx pos_fp + dx * kMoveSpeedFpPerTick) (vy pos_fp + dy * kMoveSpeedFpPerTick))"

text \<open>The variables of one axis in the loop over the cardinals: found, best distance and its button.\<close>

record axis_best =
  ab_have :: bool
  ab_best :: u16
  ab_btn :: u8

definition no_axis :: axis_best where
  "no_axis = \<lparr>ab_have = False, ab_best = kUnreachable, ab_btn = 0\<rparr>"

definition take_axis :: "u16 \<Rightarrow> u8 \<Rightarrow> axis_best \<Rightarrow> axis_best" where
  "take_axis nd btn a =
     (let a = (if nd < ab_best a then a\<lparr>ab_best := nd, ab_btn := btn\<rparr> else a) in a\<lparr>ab_have := True\<rparr>)"

definition cardinals :: "(int \<times> int \<times> u8) list" where
  "cardinals = [(1, 0, kInputRight), (-1, 0, kInputLeft), (0, 1, kInputDown), (0, -1, kInputUp)]"

definition probe_cardinal ::
  "flow_field \<Rightarrow> vec2 \<Rightarrow> tile \<Rightarrow> u16 \<Rightarrow> int \<times> int \<times> u8 \<Rightarrow> axis_best \<times> axis_best \<Rightarrow> axis_best \<times> axis_best" where
  "probe_cardinal ff pos_fp c here = (\<lambda>(dx, dy, btn) (ax, ay).
     let nx = tile_x c + dx;
         ny = tile_y c + dy
     in if \<not> tile_passable nx ny then (ax, ay)
        else
          let nd = dist_at ff nx ny in
          if nd \<ge> here then (ax, ay)
          else if \<not> axis_feasible pos_fp dx dy then (ax, ay)
          else if dy = 0 then (take_axis nd btn ax, ay)
          else (ax, take_axis nd btn ay))"

definition kAlignTol :: int where "kAlignTol = cdiv kTileFp 8"

definition press_toward_center_y :: "vec2 \<Rightarrow> tile \<Rightarrow> u8" where
  "press_toward_center_y pos_fp c =
     (let center_y = tile_y c * kTileFp + kCenterMarginFp in
      if vy pos_fp < center_y - kAlignTol \<and> axis_feasible pos_fp 0 1 then kInputDown
      else if vy pos_fp > center_y + kAlignTol \<and> axis_feasible pos_fp 0 (-1) then kInputUp
      else 0)"

definition press_toward_center_x :: "vec2 \<Rightarrow> tile \<Rightarrow> u8" where
  "press_toward_center_x pos_fp c =
     (let center_x = tile_x c * kTileFp + kCenterMarginFp in
      if vx pos_fp < center_x - kAlignTol \<and> axis_feasible pos_fp 1 0 then kInputRight
      else if vx pos_fp > center_x + kAlignTol \<and> axis_feasible pos_fp (-1) 0 then kInputLeft
      else 0)"

definition steer :: "flow_field \<Rightarrow> vec2 \<Rightarrow> u8" where
  "steer ff pos_fp =
     (let c = tile_of pos_fp;
          here = dist_at ff (tile_x c) (tile_y c)
      in if here = 0 \<or> here = kUnreachable then 0
         else
           let (ax, ay) = fold (probe_cardinal ff pos_fp c here) cardinals (no_axis, no_axis);
               cy = press_toward_center_y pos_fp c;
               cx = press_toward_center_x pos_fp c
           in if ab_have ax \<and> ab_have ay then ab_btn ax OR ab_btn ay
              else if ab_have ax then (if cy \<noteq> 0 then ab_btn ax OR cy else ab_btn ax)
              else if ab_have ay then (if cx \<noteq> 0 then ab_btn ay OR cx else ab_btn ay)
              else if cy \<noteq> 0 then cy
              else if cx \<noteq> 0 then cx
              else 0)"

section \<open>Shortest walks\<close>

abbreviation passable :: "tile \<Rightarrow> bool" where
  "passable t \<equiv> tile_passable (tile_x t) (tile_y t)"

definition inside :: "tile \<Rightarrow> bool" where
  "inside t \<longleftrightarrow> \<not> outside (tile_x t) (tile_y t)"

text \<open>\<open>walk s n t\<close>: there is a walk of \<open>n\<close> steps between adjacent passable tiles from \<open>s\<close> to \<open>t\<close>.\<close>

inductive walk :: "tile \<Rightarrow> nat \<Rightarrow> tile \<Rightarrow> bool" where
  here: "passable s \<Longrightarrow> walk s 0 s"
| step: "walk s n t \<Longrightarrow> u \<in> set (neighbors t) \<Longrightarrow> passable u \<Longrightarrow> walk s (Suc n) u"

lemma walk_passable: "walk s n t \<Longrightarrow> passable t"
  by (induction rule: walk.induct) simp_all

lemma passable_inside: "passable t \<Longrightarrow> inside t"
  by (simp add: tile_passable_def inside_def split: if_splits)

lemma Tile_sel [simp]: "tile_x (Tile x y) = x" "tile_y (Tile x y) = y"
  by (simp_all add: Tile_def)

lemma inside_tiles: "Collect inside = (\<lambda>(x, y). Tile x y) ` ({0..<40} \<times> {0..<25})"
proof (intro equalityI subsetI)
  fix t :: tile
  assume "t \<in> Collect inside"
  then have "t = Tile (tile_x t) (tile_y t)" "tile_x t \<in> {0..<40}" "tile_y t \<in> {0..<25}"
    by (auto simp: inside_def outside_def config_defs Tile_def)
  then show "t \<in> (\<lambda>(x, y). Tile x y) ` ({0..<40} \<times> {0..<25})" by (metis SigmaI case_prod_conv image_eqI)
qed (auto simp: inside_def outside_def config_defs)

lemma card_inside: "finite (Collect inside)" "card (Collect inside) \<le> 1000"
  using card_image_le [of "{0..<40::int} \<times> {0..<25::int}" "\<lambda>(x, y). Tile x y"] by (simp_all add: inside_tiles)

section \<open>The field as a map from tiles\<close>

definition ff_wf :: "flow_field \<Rightarrow> bool" where
  "ff_wf ff \<longleftrightarrow> length ff = 25 \<and> (\<forall>row \<in> set ff. length row = 40)"

definition visited :: "flow_field \<Rightarrow> tile set" where
  "visited ff = {t. inside t \<and> dist_get ff t \<noteq> kUnreachable}"

abbreviation dist_nat :: "flow_field \<Rightarrow> tile \<Rightarrow> nat" where
  "dist_nat ff t \<equiv> unat (dist_get ff t)"

lemma ff_wf_row: "ff_wf ff \<Longrightarrow> inside t \<Longrightarrow> nat (tile_y t) < length ff \<and> nat (tile_x t) < length (ff ! nat (tile_y t))"
  by (auto simp: ff_wf_def inside_def outside_def config_defs)

lemma ff_wf_set: "ff_wf ff \<Longrightarrow> inside t \<Longrightarrow> ff_wf (dist_set t d ff)"
  using ff_wf_row [of ff t] by (auto simp: ff_wf_def dist_set_def dest!: subsetD [OF set_update_subset_insert])

lemma dist_get_set:
  assumes "ff_wf ff" "inside t" "inside u"
  shows "dist_get (dist_set t d ff) u = (if u = t then d else dist_get ff u)"
proof -
  have "u = t \<longleftrightarrow> nat (tile_x u) = nat (tile_x t) \<and> nat (tile_y u) = nat (tile_y t)"
    using assms(2,3) by (cases t; cases u) (auto simp: inside_def outside_def nat_eq_iff2)
  then show ?thesis
    using ff_wf_row [OF assms(1,2)] ff_wf_row [OF assms(1,3)] by (auto simp: dist_get_def dist_set_def nth_list_update)
qed

lemma visited_set: "ff_wf ff \<Longrightarrow> inside t \<Longrightarrow> d \<noteq> kUnreachable \<Longrightarrow> visited (dist_set t d ff) = insert t (visited ff)"
  by (auto simp: visited_def dist_get_set split: if_splits)

lemma visited_bound: "finite (visited ff)" "card (visited ff) \<le> 1000"
proof -
  have sub: "visited ff \<subseteq> Collect inside" by (auto simp: visited_def)
  show "finite (visited ff)" using finite_subset [OF sub card_inside(1)] .
  show "card (visited ff) \<le> 1000" using card_mono [OF card_inside(1) sub] card_inside(2) by simp
qed

section \<open>The search\<close>

text \<open>
  What holds between two neighbours of \<open>cur\<close>: every visited tile has a walk of its length, the
  length is below the number of visited tiles (so the 16-bit counter cannot overflow), the queue is
  sorted and within one step of \<open>cur\<close>, and the neighbours of all tiles that have left the queue are
  settled, those of \<open>cur\<close> as far as they are in \<open>seen\<close>.
\<close>

definition settled :: "flow_field \<Rightarrow> tile \<Rightarrow> tile \<Rightarrow> bool" where
  "settled ff t u \<longleftrightarrow> (passable u \<longrightarrow> u \<in> visited ff \<and> dist_nat ff u \<le> dist_nat ff t + 1)"

definition search :: "tile \<Rightarrow> tile \<Rightarrow> tile set \<Rightarrow> tile list \<times> flow_field \<Rightarrow> bool" where
  "search s cur seen = (\<lambda>(queue, ff).
     ff_wf ff \<and> s \<in> visited ff \<and> dist_get ff s = 0 \<and> cur \<in> visited ff
     \<and> (\<forall>t \<in> visited ff. walk s (dist_nat ff t) t \<and> dist_nat ff t < card (visited ff) \<and> dist_nat ff t \<le> dist_nat ff cur + 1)
     \<and> set queue \<subseteq> visited ff \<and> sorted (map (dist_nat ff) queue) \<and> (\<forall>q \<in> set queue. dist_nat ff cur \<le> dist_nat ff q)
     \<and> (\<forall>t \<in> visited ff - insert cur (set queue). \<forall>u \<in> set (neighbors t). settled ff t u)
     \<and> (\<forall>u \<in> seen. settled ff cur u))"

definition pending_work :: "tile list \<times> flow_field \<Rightarrow> nat" where
  "pending_work = (\<lambda>(queue, ff). length queue + (1000 - card (visited ff)))"

text \<open>Visiting a new tile: it gets the next distance and joins the queue, all other distances stay.\<close>

lemma new_tile:
  assumes "search s cur seen (queue, ff)" "passable n" "n \<notin> visited ff"
  defines "ff' \<equiv> dist_set n (dist_get ff cur + 1) ff"
  shows "visit (dist_get ff cur + 1) n (queue, ff) = (queue @ [n], ff')"
    and "ff_wf ff'" and "visited ff' = insert n (visited ff)" and "dist_nat ff' n = dist_nat ff cur + 1"
    and "\<And>t. t \<in> visited ff \<Longrightarrow> dist_get ff' t = dist_get ff t"
proof -
  note inv = assms(1) [unfolded search_def prod.case]
  have n: "inside n" "dist_get ff n = kUnreachable" using assms(2,3) passable_inside by (auto simp: visited_def)
  have small: "dist_nat ff cur + 1 < 1001" using inv visited_bound(2) [of ff] by fastforce
  have next_nat: "unat (dist_get ff cur + 1) = dist_nat ff cur + 1" using small by (simp add: unat_word_ariths(1))
  have "unat kUnreachable = 65535" by (simp add: kUnreachable_def)
  then have next_fin: "dist_get ff cur + 1 \<noteq> kUnreachable" using small next_nat by auto
  show "visit (dist_get ff cur + 1) n (queue, ff) = (queue @ [n], ff')"
    using assms(2) n by (simp add: visit_def inside_def ff'_def)
  show "ff_wf ff'" "visited ff' = insert n (visited ff)"
    using inv n(1) ff_wf_set visited_set [OF _ n(1) next_fin] unfolding ff'_def by blast+
  show "dist_nat ff' n = dist_nat ff cur + 1" using dist_get_set [OF _ n(1) n(1)] inv next_nat by (simp add: ff'_def)
  show "dist_get ff' t = dist_get ff t" if "t \<in> visited ff" for t
    using dist_get_set [OF _ n(1), of ff t "dist_get ff cur + 1"] that assms(3) inv by (auto simp: visited_def ff'_def)
qed

lemma search_new_tile:
  assumes "search s cur seen (queue, ff)" "n \<in> set (neighbors cur)" "passable n" "n \<notin> visited ff"
    and ff': "ff' = dist_set n (dist_get ff cur + 1) ff"
  shows "search s cur (insert n seen) (queue @ [n], ff')"
proof -
  note inv = assms(1) [unfolded search_def prod.case]
  note nt = new_tile [OF assms(1,3,4), folded ff']
  note vis = nt(3) and new = nt(4) and old = nt(5)
  have cur: "cur \<in> visited ff" "walk s (dist_nat ff cur) cur" "dist_nat ff cur < card (visited ff)" using inv by blast+
  have card: "card (visited ff') = card (visited ff) + 1" using assms(4) visited_bound(1) by (simp add: vis)
  have q_old: "map (dist_nat ff') queue = map (dist_nat ff) queue" using inv old by (intro map_cong) auto
  have keep: "settled ff' t u" if "settled ff t u" "t \<in> visited ff" for t u
    using that old by (auto simp: settled_def vis)
  show ?thesis
    unfolding search_def prod.case
  proof (intro conjI ballI)
    show "ff_wf ff'" by (rule nt(2))
    show "s \<in> visited ff'" "cur \<in> visited ff'" "dist_get ff' s = 0" using inv old by (auto simp: vis)
    show "set (queue @ [n]) \<subseteq> visited ff'" using inv by (auto simp: vis)
    show "sorted (map (dist_nat ff') (queue @ [n]))" using inv by (auto simp: q_old sorted_append new)
  next
    fix t assume "t \<in> visited ff'"
    then consider "t = n" | "t \<in> visited ff" by (auto simp: vis)
    then have "walk s (dist_nat ff' t) t \<and> dist_nat ff' t < card (visited ff') \<and> dist_nat ff' t \<le> dist_nat ff' cur + 1"
    proof cases
      case 1
      then show ?thesis using walk.step [OF cur(2) assms(2,3)] old [OF cur(1)] cur(3) card new by simp
    next
      case 2
      then have "walk s (dist_nat ff t) t" "dist_nat ff t < card (visited ff)" "dist_nat ff t \<le> dist_nat ff cur + 1" using inv by blast+
      then show ?thesis using old [OF 2] old [OF cur(1)] card by simp
    qed
    then show "walk s (dist_nat ff' t) t" "dist_nat ff' t < card (visited ff')" "dist_nat ff' t \<le> dist_nat ff' cur + 1" by blast+
  next
    fix q assume "q \<in> set (queue @ [n])"
    then show "dist_nat ff' cur \<le> dist_nat ff' q" using inv old [OF cur(1)] old [of q] new by auto
  next
    fix t u assume "t \<in> visited ff' - insert cur (set (queue @ [n]))" "u \<in> set (neighbors t)"
    then show "settled ff' t u" using inv by (intro keep) (auto simp: vis)
  next
    fix u assume "u \<in> insert n seen"
    then consider "u = n" | "settled ff cur u" using inv by blast
    then show "settled ff' cur u" using keep [OF _ cur(1)] by cases (simp_all add: settled_def vis new old [OF cur(1)])
  qed
qed

lemma search_visit:
  assumes "search s cur seen (queue, ff)" "n \<in> set (neighbors cur)"
  shows "search s cur (insert n seen) (visit (dist_get ff cur + 1) n (queue, ff))
    \<and> pending_work (visit (dist_get ff cur + 1) n (queue, ff)) = pending_work (queue, ff)
    \<and> dist_get (snd (visit (dist_get ff cur + 1) n (queue, ff))) cur = dist_get ff cur"
proof (cases "passable n \<and> n \<notin> visited ff")
  case False
  then have "visit (dist_get ff cur + 1) n (queue, ff) = (queue, ff)"
    using passable_inside [of n] by (auto simp: visit_def visited_def inside_def)
  moreover have "settled ff cur n" using False assms by (auto simp: settled_def search_def)
  ultimately show ?thesis using assms(1) by (simp add: search_def)
next
  case True
  then have n: "passable n" "n \<notin> visited ff" by simp_all
  let ?ff = "dist_set n (dist_get ff cur + 1) ff"
  note nt = new_tile [OF assms(1) n]
  have "card (visited ?ff) = card (visited ff) + 1" using n(2) visited_bound(1) by (simp add: nt(3))
  moreover have "card (visited ff) < 1000" using calculation visited_bound(2) [of ?ff] by simp
  moreover have "cur \<in> visited ff" using assms(1) by (simp add: search_def)
  ultimately show ?thesis using search_new_tile [OF assms n refl] nt(1,5) by (simp add: pending_work_def)
qed

lemma search_fold:
  assumes "search s cur seen st" "set ns \<subseteq> set (neighbors cur)" "next = dist_get (snd st) cur + 1"
  shows "search s cur (seen \<union> set ns) (fold (visit next) ns st) \<and> pending_work (fold (visit next) ns st) = pending_work st"
  using assms
proof (induction ns arbitrary: seen st)
  case Nil
  then show ?case by simp
next
  case (Cons n ns)
  obtain queue ff where st: "st = (queue, ff)" by fastforce
  have next_eq: "next = dist_get ff cur + 1" using Cons.prems(3) st by simp
  note visit = search_visit [where s = s and cur = cur and seen = seen and queue = queue and ff = ff and n = n, folded next_eq]
  have "search s cur (insert n seen \<union> set ns) (fold (visit next) ns (visit next n st))
      \<and> pending_work (fold (visit next) ns (visit next n st)) = pending_work (visit next n st)"
    using Cons.prems visit next_eq by (intro Cons.IH) (simp_all add: st)
  then show ?case using Cons.prems visit by (simp add: st)
qed

text \<open>Between two rounds: the same invariant, with the head of the queue as the next tile to leave it.\<close>

definition searched :: "tile \<Rightarrow> tile list \<Rightarrow> flow_field \<Rightarrow> bool" where
  "searched s queue ff \<longleftrightarrow> ff_wf ff \<and> s \<in> visited ff \<and> dist_get ff s = 0
     \<and> (\<forall>t \<in> visited ff. walk s (dist_nat ff t) t \<and> dist_nat ff t < card (visited ff))
     \<and> (case queue of
          [] \<Rightarrow> \<forall>t \<in> visited ff. \<forall>u \<in> set (neighbors t). settled ff t u
        | cur # queue' \<Rightarrow> search s cur {} (queue', ff))"

lemma search_round:
  assumes "search s cur {} (queue', ff)" "fold (visit (dist_get ff cur + 1)) (neighbors cur) (queue', ff) = (queue'', ff')"
  shows "searched s queue'' ff'" and "pending_work (queue'', ff') = pending_work (queue', ff)"
proof -
  from search_fold [OF assms(1) order_refl refl] assms(2)
  have inv: "search s cur (set (neighbors cur)) (queue'', ff')" and work: "pending_work (queue'', ff') = pending_work (queue', ff)"
    by simp_all
  note facts = inv [unfolded search_def prod.case]
  have "case queue'' of
          [] \<Rightarrow> \<forall>t \<in> visited ff'. \<forall>u \<in> set (neighbors t). settled ff' t u
        | cur # queue' \<Rightarrow> search s cur {} (queue', ff')"
  proof (cases queue'')
    case Nil
    then show ?thesis using facts by auto
  next
    case (Cons c q)
    then have "dist_nat ff' cur \<le> dist_nat ff' c" using facts by simp
    then have near: "\<forall>t \<in> visited ff'. dist_nat ff' t \<le> dist_nat ff' c + 1" using facts by (meson add_le_mono1 le_trans)
    have "\<forall>t \<in> visited ff' - insert c (set q). \<forall>u \<in> set (neighbors t). settled ff' t u"
      using facts Cons by auto
    then show ?thesis using facts Cons near by (simp add: search_def)
  qed
  then show "searched s queue'' ff'" using facts by (simp add: searched_def)
  show "pending_work (queue'', ff') = pending_work (queue', ff)" by (rule work)
qed

text \<open>The search ends: every round takes one tile off the pending work.\<close>

lemma bfs_returns:
  assumes "searched s queue ff"
  shows "\<exists>ff'. bfs queue ff = Some ff' \<and> searched s [] ff'"
  using assms
proof (induction "pending_work (queue, ff)" arbitrary: queue ff rule: less_induct)
  case less
  show ?case
  proof (cases queue)
    case Nil
    then show ?thesis using less.prems by (subst bfs.simps) simp
  next
    case (Cons cur queue')
    obtain queue'' ff' where round: "fold (visit (dist_get ff cur + 1)) (neighbors cur) (queue', ff) = (queue'', ff')"
      by fastforce
    have "search s cur {} (queue', ff)" using less.prems Cons by (simp add: searched_def)
    note next_round = search_round [OF this round]
    have "pending_work (queue'', ff') < pending_work (queue, ff)" using next_round(2) Cons by (simp add: pending_work_def)
    from less.hyps [OF this next_round(1)] show ?thesis
      by (subst bfs.simps) (simp add: Cons round)
  qed
qed

definition empty_field :: flow_field where
  "empty_field = replicate 25 (replicate 40 kUnreachable)"

lemma empty_field_props: "ff_wf empty_field" "visited empty_field = {}" "inside t \<Longrightarrow> dist_get empty_field t = kUnreachable"
proof -
  show get: "inside t \<Longrightarrow> dist_get empty_field t = kUnreachable" for t
    by (auto simp: empty_field_def dist_get_def inside_def outside_def config_defs)
  show "ff_wf empty_field" by (simp add: ff_wf_def empty_field_def)
  show "visited empty_field = {}" using get by (auto simp: visited_def)
qed

lemma searched_start:
  assumes "passable s"
  shows "searched s [s] (dist_set s 0 empty_field)"
proof -
  let ?ff = "dist_set s 0 empty_field"
  have s: "inside s" using assms passable_inside by blast
  have vis: "visited ?ff = {s}" using visited_set [OF empty_field_props(1) s, of 0] by (simp add: empty_field_props(2) kUnreachable_def)
  have zero: "dist_get ?ff s = 0" using dist_get_set [OF empty_field_props(1) s s] by simp
  show ?thesis using ff_wf_set [OF empty_field_props(1) s] walk.here [OF assms]
    by (simp add: searched_def search_def vis zero)
qed

lemma settled_shortest: "walk s n t \<Longrightarrow> searched s [] ff \<Longrightarrow> t \<in> visited ff \<and> dist_nat ff t \<le> n"
proof (induction rule: walk.induct)
  case (here s)
  then show ?case by (simp add: searched_def)
next
  case (step s n t u)
  then have "settled ff t u" by (auto simp: searched_def)
  then show ?case using step by (auto simp: settled_def)
qed

lemma build_unfold:
  "build p = (if passable (tile_of p) then bfs [tile_of p] (dist_set (tile_of p) 0 empty_field) else Some empty_field)"
  by (simp add: build_def empty_field_def Let_def config_defs)

lemma build_returns: "\<exists>ff. build p = Some ff"
  using bfs_returns [OF searched_start [of "tile_of p"]] by (cases "passable (tile_of p)") (auto simp: build_unfold)

section \<open>Distances are shortest\<close>

text \<open>
  C23 (equivalence): \<open>build\<close> computes shortest distances. It returns for every source position, and
  the distance of a tile is the length of the shortest walk through passable tiles from the source's
  tile; a tile that no such walk reaches, or that lies outside the grid, is \<open>kUnreachable\<close>.
\<close>

theorem flow_field_is_shortest_distance:
  "\<exists>ff. build source_fp = Some ff \<and> (\<forall>tx ty.
     if (\<exists>n. walk (tile_of source_fp) n (Tile tx ty))
     then dist_at ff tx ty = word_of_nat (LEAST n. walk (tile_of source_fp) n (Tile tx ty))
       \<and> (LEAST n. walk (tile_of source_fp) n (Tile tx ty)) < 1000
     else dist_at ff tx ty = kUnreachable)"
proof (cases "passable (tile_of source_fp)")
  case False
  have "\<not> walk (tile_of source_fp) n t" for n t
  proof
    assume "walk (tile_of source_fp) n t"
    then show False using False by (induction "tile_of source_fp" n t rule: walk.induct) simp_all
  qed
  moreover have "dist_at empty_field tx ty = kUnreachable" for tx ty
    using empty_field_props(3) [of "Tile tx ty"] by (simp add: dist_at_def inside_def)
  ultimately show ?thesis using False by (simp add: build_unfold)
next
  case True
  let ?s = "tile_of source_fp"
  from bfs_returns [OF searched_start [OF True]] obtain ff where ff: "build source_fp = Some ff" "searched ?s [] ff"
    using True by (auto simp: build_unfold)
  show ?thesis
  proof (intro exI [of _ ff] conjI allI, rule ff(1))
    fix tx ty
    let ?t = "Tile tx ty"
    show "if (\<exists>n. walk ?s n ?t)
       then dist_at ff tx ty = word_of_nat (LEAST n. walk ?s n ?t) \<and> (LEAST n. walk ?s n ?t) < 1000
       else dist_at ff tx ty = kUnreachable"
    proof (cases "?t \<in> visited ff")
      case False
      then have "\<not> walk ?s n ?t" for n using settled_shortest [OF _ ff(2)] by blast
      moreover have "dist_at ff tx ty = kUnreachable" using False by (auto simp: dist_at_def visited_def inside_def)
      ultimately show ?thesis by simp
    next
      case True
      then have w: "walk ?s (dist_nat ff ?t) ?t" using ff(2) by (simp add: searched_def)
      then have "(LEAST n. walk ?s n ?t) = dist_nat ff ?t"
        using settled_shortest [OF _ ff(2)] by (intro Least_equality) auto
      moreover have "dist_nat ff ?t < 1000" using ff(2) True visited_bound(2) [of ff] by (fastforce simp: searched_def)
      moreover have "dist_at ff tx ty = dist_get ff ?t" using True by (auto simp: dist_at_def visited_def inside_def)
      ultimately show ?thesis using w by auto
    qed
  qed
qed

section \<open>Steering is feasible\<close>

definition descends :: "flow_field \<Rightarrow> vec2 \<Rightarrow> int \<Rightarrow> int \<Rightarrow> bool" where
  "descends ff p dx dy \<longleftrightarrow>
     (let c = tile_of p in
      tile_passable (tile_x c + dx) (tile_y c + dy)
      \<and> dist_at ff (tile_x c + dx) (tile_y c + dy) < dist_at ff (tile_x c) (tile_y c)
      \<and> axis_feasible p dx dy)"

lemma below_unreachable: "d < here \<Longrightarrow> d < kUnreachable" for d here :: u16
proof -
  assume "d < here"
  moreover have "here \<le> kUnreachable" using unsigned_less [of here, where 'a = nat] by (simp add: kUnreachable_def word_le_nat_alt)
  ultimately show "d < kUnreachable" by (rule less_le_trans)
qed

lemma probe_descends:
  "probe_cardinal ff p (tile_of p) (dist_at ff (tile_x (tile_of p)) (tile_y (tile_of p))) (dx, dy, btn) (ax, ay) =
     (if \<not> descends ff p dx dy then (ax, ay)
      else let nd = dist_at ff (tile_x (tile_of p) + dx) (tile_y (tile_of p) + dy)
           in if dy = 0 then (take_axis nd btn ax, ay) else (ax, take_axis nd btn ay))"
  unfolding probe_cardinal_def descends_def Let_def prod.case not_le [symmetric]
  by (simp only: de_Morgan_conj not_not split: if_split) blast

lemma probes_result:
  fixes ff :: flow_field and p :: vec2
  assumes "fold (probe_cardinal ff p (tile_of p) (dist_at ff (tile_x (tile_of p)) (tile_y (tile_of p)))) cardinals (no_axis, no_axis) = (ax, ay)"
  shows "if ab_have ax then ab_btn ax = kInputRight \<and> descends ff p 1 0 \<or> ab_btn ax = kInputLeft \<and> descends ff p (-1) 0
         else ab_btn ax = 0 \<and> \<not> descends ff p 1 0 \<and> \<not> descends ff p (-1) 0"
    and "if ab_have ay then ab_btn ay = kInputDown \<and> descends ff p 0 1 \<or> ab_btn ay = kInputUp \<and> descends ff p 0 (-1)
         else ab_btn ay = 0 \<and> \<not> descends ff p 0 1 \<and> \<not> descends ff p 0 (-1)"
proof -
  have low: "dist_at ff (tile_x (tile_of p) + dx) (tile_y (tile_of p) + dy) < kUnreachable" if "descends ff p dx dy" for dx dy
    using that below_unreachable by (auto simp: descends_def Let_def)
  show "if ab_have ax then ab_btn ax = kInputRight \<and> descends ff p 1 0 \<or> ab_btn ax = kInputLeft \<and> descends ff p (-1) 0
         else ab_btn ax = 0 \<and> \<not> descends ff p 1 0 \<and> \<not> descends ff p (-1) 0"
    using assms low [of 1 0] low [of "-1" 0]
    by (auto simp: cardinals_def probe_descends Let_def take_axis_def no_axis_def split: if_splits)
  show "if ab_have ay then ab_btn ay = kInputDown \<and> descends ff p 0 1 \<or> ab_btn ay = kInputUp \<and> descends ff p 0 (-1)
         else ab_btn ay = 0 \<and> \<not> descends ff p 0 1 \<and> \<not> descends ff p 0 (-1)"
    using assms low [of 0 1] low [of 0 "-1"]
    by (auto simp: cardinals_def probe_descends Let_def take_axis_def no_axis_def split: if_splits)
qed

text \<open>The buttons of \<open>steer\<close>, one part per axis, each feasible.\<close>

definition x_part :: "vec2 \<Rightarrow> u8 \<Rightarrow> bool" where
  "x_part p b \<longleftrightarrow> b = 0 \<or> b = kInputRight \<and> axis_feasible p 1 0 \<or> b = kInputLeft \<and> axis_feasible p (-1) 0"

definition y_part :: "vec2 \<Rightarrow> u8 \<Rightarrow> bool" where
  "y_part p b \<longleftrightarrow> b = 0 \<or> b = kInputDown \<and> axis_feasible p 0 1 \<or> b = kInputUp \<and> axis_feasible p 0 (-1)"

lemma center_parts: "x_part p (press_toward_center_x p c)" "y_part p (press_toward_center_y p c)"
  by (auto simp: press_toward_center_x_def press_toward_center_y_def x_part_def y_part_def Let_def)

lemma steer_parts:
  obtains bx "by" where "steer ff p = bx OR by" "x_part p bx" "y_part p by"
    and "dist_at ff (tile_x (tile_of p)) (tile_y (tile_of p)) \<noteq> kUnreachable \<Longrightarrow> descends ff p 1 0 \<or> descends ff p (-1) 0 \<Longrightarrow>
      bx = kInputRight \<and> descends ff p 1 0 \<or> bx = kInputLeft \<and> descends ff p (-1) 0"
    and "dist_at ff (tile_x (tile_of p)) (tile_y (tile_of p)) \<noteq> kUnreachable \<Longrightarrow> descends ff p 0 1 \<or> descends ff p 0 (-1) \<Longrightarrow>
      by = kInputDown \<and> descends ff p 0 1 \<or> by = kInputUp \<and> descends ff p 0 (-1)"
proof -
  let ?c = "tile_of p"
  let ?here = "dist_at ff (tile_x ?c) (tile_y ?c)"
  let ?cx = "press_toward_center_x p ?c" and ?cy = "press_toward_center_y p ?c"
  obtain ax ay where f: "fold (probe_cardinal ff p ?c ?here) cardinals (no_axis, no_axis) = (ax, ay)" by fastforce
  note res = probes_result [OF f]
  let ?idle = "?here = 0 \<or> ?here = kUnreachable"
  define bx where "bx = (if ?idle then 0 else if ab_have ax then ab_btn ax else if ab_have ay \<or> ?cy = 0 then ?cx else 0)"
  define "by" where "by = (if ?idle then 0 else if ab_have ay then ab_btn ay else ?cy)"
  have live: "?here \<noteq> 0" if "descends ff p dx dy" for dx dy
    using that by (auto simp: descends_def Let_def)
  show ?thesis
  proof (rule that [of bx "by"])
    show "steer ff p = bx OR by"
      using res by (auto simp: steer_def Let_def f bx_def by_def or.commute split: if_splits)
    show "x_part p bx" "y_part p by"
      using res center_parts [of p ?c]
      by (auto simp: bx_def by_def x_part_def [of _ 0] y_part_def [of _ 0] split: if_splits)
        (auto simp: x_part_def y_part_def descends_def Let_def)
    show "bx = kInputRight \<and> descends ff p 1 0 \<or> bx = kInputLeft \<and> descends ff p (-1) 0"
      if "?here \<noteq> kUnreachable" "descends ff p 1 0 \<or> descends ff p (-1) 0"
      using that live res(1) by (auto simp: bx_def split: if_splits)
    show "by = kInputDown \<and> descends ff p 0 1 \<or> by = kInputUp \<and> descends ff p 0 (-1)"
      if "?here \<noteq> kUnreachable" "descends ff p 0 1 \<or> descends ff p 0 (-1)"
      using that live res(2) by (auto simp: by_def split: if_splits)
  qed
qed

lemma Vec2Fixed_surj: "Vec2Fixed (vx p) (vy p) = p"
  by (cases p) (simp add: Vec2Fixed_def)

lemma feasible_moves:
  assumes "\<not> aabb_collides p" "s = 1 \<or> s = -1" "0 < s * d" "\<bar>d\<bar> \<le> 1365"
  shows "axis_feasible p s 0 \<Longrightarrow> vx (try_x p d) \<noteq> vx p" "axis_feasible p 0 s \<Longrightarrow> vy (try_y p d) \<noteq> vy p"
proof -
  have here: "\<not> aabb_collides (Vec2Fixed (vx p) (vy p))" using assms(1) by (simp add: Vec2Fixed_surj)
  have d: "d \<noteq> 0" "s = 1 \<Longrightarrow> 0 \<le> d" "s = 1 \<Longrightarrow> d \<le> 1365" "s = -1 \<Longrightarrow> d \<le> 0" "s = -1 \<Longrightarrow> -1365 \<le> d"
    using assms(3,4) by auto
  show "vx (try_x p d) \<noteq> vx p" if f: "axis_feasible p s 0"
  proof -
    have far: "\<not> aabb_collides (Vec2Fixed (vx p + s * 1365) (vy p))" using f by (simp add: axis_feasible_def config_defs)
    have "\<not> aabb_collides (Vec2Fixed (vx p + d) (vy p))"
      using assms(2) free_between_x [OF here far, of "vx p + d"] free_between_x [OF far here, of "vx p + d"] d by fastforce
    then show ?thesis using d(1) by (simp add: try_x_def)
  qed
  show "vy (try_y p d) \<noteq> vy p" if f: "axis_feasible p 0 s"
  proof -
    have far: "\<not> aabb_collides (Vec2Fixed (vx p) (vy p + s * 1365))" using f by (simp add: axis_feasible_def config_defs)
    have "\<not> aabb_collides (Vec2Fixed (vx p) (vy p + d))"
      using assms(2) free_between_y [OF here far, of "vy p + d"] free_between_y [OF far here, of "vy p + d"] d by fastforce
    then show ?thesis using d(1) by (simp add: try_y_def)
  qed
qed

lemma buttons_distinct:
  "kInputRight \<noteq> kInputLeft" "kInputDown \<noteq> kInputUp"
  "kInputRight \<noteq> 0" "kInputLeft \<noteq> 0" "kInputDown \<noteq> 0" "kInputUp \<noteq> 0"
  "kInputLeft \<noteq> kInputRight" "kInputUp \<noteq> kInputDown"
  by (simp_all add: button_defs)

lemma parts_pressed:
  assumes "buttons cmd = bx OR by" "x_part p bx" "y_part p by"
  shows "pressed cmd kInputRight \<longleftrightarrow> bx = kInputRight" "pressed cmd kInputLeft \<longleftrightarrow> bx = kInputLeft"
    "pressed cmd kInputDown \<longleftrightarrow> by = kInputDown" "pressed cmd kInputUp \<longleftrightarrow> by = kInputUp"
  using assms by (auto simp: pressed_def x_part_def y_part_def button_defs)

lemma parts_move:
  assumes "\<not> aabb_collides p" "x_part p bx" "y_part p by"
    and "pressed cmd kInputRight \<longleftrightarrow> bx = kInputRight" "pressed cmd kInputLeft \<longleftrightarrow> bx = kInputLeft"
    "pressed cmd kInputDown \<longleftrightarrow> by = kInputDown" "pressed cmd kInputUp \<longleftrightarrow> by = kInputUp"
    and "bx \<noteq> 0 \<or> by \<noteq> 0" "position m = p"
  shows "position (movement_step m cmd) \<noteq> p"
proof -
  let ?v = "step_velocity cmd"
  have dx: "dir_x cmd = (if bx = kInputRight then 1 else if bx = kInputLeft then -1 else 0)"
    and dy: "dir_y cmd = (if by = kInputDown then 1 else if by = kInputUp then -1 else 0)"
    using assms(4-7) by (auto simp: dir_x_def dir_y_def axis_def buttons_distinct)
  have speed: "0 < s * axis_speed g s" "\<bar>axis_speed g s\<bar> \<le> 1365" if "s = 1 \<or> s = -1" for s g
    using that by (auto simp: axis_speed_def)
  have v: "vx ?v = axis_speed (dir_x cmd \<noteq> 0 \<and> dir_y cmd \<noteq> 0) (dir_x cmd)" "vy ?v = axis_speed (dir_x cmd \<noteq> 0 \<and> dir_y cmd \<noteq> 0) (dir_y cmd)"
    by (simp_all add: step_velocity_def Let_def)
  show ?thesis
  proof (cases "bx = 0")
    case False
    then have s: "dir_x cmd = 1 \<or> dir_x cmd = -1" "axis_feasible p (dir_x cmd) 0"
      using assms(2) by (auto simp: dx x_part_def buttons_distinct)
    have "vx (try_x p (vx ?v)) \<noteq> vx p" unfolding v using feasible_moves(1) [OF assms(1) s(1) speed [OF s(1)] s(2)] .
    then have "vx (position (movement_step m cmd)) \<noteq> vx p" by (simp add: movement_step_closed assms(9))
    then show ?thesis by auto
  next
    case True
    then have s: "dir_y cmd = 1 \<or> dir_y cmd = -1" "axis_feasible p 0 (dir_y cmd)" "vx ?v = 0"
      using assms(3,8) by (auto simp: dx dy v(1) axis_speed_def y_part_def buttons_distinct)
    have "vy (try_y p (vy ?v)) \<noteq> vy p" unfolding v(2) using feasible_moves(2) [OF assms(1) s(1) speed [OF s(1)] s(2)] .
    then have "vy (position (movement_step m cmd)) \<noteq> vy p" by (simp add: movement_step_closed assms(9) s(3))
    then show ?thesis by auto
  qed
qed

text \<open>
  C24 (safety): a bot never steers into a wall and never presses opposite keys. From a free position,
  every direction that \<open>steer\<close> presses can be taken at full speed, so a non-zero answer always
  moves the player; and while a feasible step to a nearer tile exists, \<open>steer\<close> presses one.
\<close>

theorem steering_moves_the_player:
  fixes ff :: flow_field and cmd :: input_cmd and m :: player_motion
  defines "p \<equiv> position m"
  assumes "\<not> aabb_collides p" "buttons cmd = steer ff p"
  shows "(pressed cmd kInputRight \<longrightarrow> axis_feasible p 1 0) \<and> (pressed cmd kInputLeft \<longrightarrow> axis_feasible p (-1) 0)
    \<and> (pressed cmd kInputDown \<longrightarrow> axis_feasible p 0 1) \<and> (pressed cmd kInputUp \<longrightarrow> axis_feasible p 0 (-1))
    \<and> \<not> (pressed cmd kInputRight \<and> pressed cmd kInputLeft) \<and> \<not> (pressed cmd kInputDown \<and> pressed cmd kInputUp)
    \<and> (steer ff p \<noteq> 0 \<longrightarrow> position (movement_step m cmd) \<noteq> p)
    \<and> (dist_at ff (tile_x (tile_of p)) (tile_y (tile_of p)) \<noteq> kUnreachable \<longrightarrow>
         descends ff p 1 0 \<or> descends ff p (-1) 0 \<or> descends ff p 0 1 \<or> descends ff p 0 (-1) \<longrightarrow>
         pressed cmd kInputRight \<and> descends ff p 1 0 \<or> pressed cmd kInputLeft \<and> descends ff p (-1) 0
         \<or> pressed cmd kInputDown \<and> descends ff p 0 1 \<or> pressed cmd kInputUp \<and> descends ff p 0 (-1))"
proof -
  obtain bx "by" where parts: "steer ff p = bx OR by" "x_part p bx" "y_part p by"
    and down_x: "dist_at ff (tile_x (tile_of p)) (tile_y (tile_of p)) \<noteq> kUnreachable \<Longrightarrow> descends ff p 1 0 \<or> descends ff p (-1) 0 \<Longrightarrow>
      bx = kInputRight \<and> descends ff p 1 0 \<or> bx = kInputLeft \<and> descends ff p (-1) 0"
    and down_y: "dist_at ff (tile_x (tile_of p)) (tile_y (tile_of p)) \<noteq> kUnreachable \<Longrightarrow> descends ff p 0 1 \<or> descends ff p 0 (-1) \<Longrightarrow>
      by = kInputDown \<and> descends ff p 0 1 \<or> by = kInputUp \<and> descends ff p 0 (-1)"
    by (rule steer_parts) blast
  note press = parts_pressed [of cmd bx "by" p, unfolded assms(3), OF parts]
  have pos: "position m = p" by (simp add: p_def)
  have "bx \<noteq> 0 \<or> by \<noteq> 0" if "steer ff p \<noteq> 0" using that parts(1) by auto
  then have "steer ff p \<noteq> 0 \<longrightarrow> position (movement_step m cmd) \<noteq> p"
    using parts_move [OF assms(2) parts(2,3) press _ pos] by simp
  then show ?thesis
    using parts(2,3) down_x down_y by (simp add: press) (auto simp: x_part_def y_part_def buttons_distinct)
qed

definition two_tile_field :: flow_field where
  "two_tile_field = dist_set (Tile 2 12) 0 (dist_set (Tile 3 12) 1 empty_field)"

theorem steering_moves_the_player_witness:
  "steer two_tile_field (tile_to_fp 3 12) = kInputLeft
   \<and> position (movement_step \<lparr>position = tile_to_fp 3 12, velocity = Vec2Fixed 0 0\<rparr> \<lparr>buttons = kInputLeft, aim_angle = 0\<rparr>) \<noteq> tile_to_fp 3 12"
proof -
  have "steer two_tile_field (tile_to_fp 3 12) = kInputLeft" "\<not> aabb_collides (tile_to_fp 3 12)" "kInputLeft \<noteq> 0" by code_simp+
  then show ?thesis
    using steering_moves_the_player [of "\<lparr>position = tile_to_fp 3 12, velocity = Vec2Fixed 0 0\<rparr>" "\<lparr>buttons = kInputLeft, aim_angle = 0\<rparr>" two_tile_field]
    by simp
qed

end
