(* ===== verification/Bot_AI.thy ===== *)
theory Bot_AI
  imports Flow_Field Float_Model
begin

text \<open>
  \<open>bot/bot_ai.h\<close> and \<open>bot/bot_ai.cpp\<close>: one decision of a bot from the latest snapshot.

  The code computes distances and angles in \<open>float\<close>; the record \<open>float_lib\<close> holds the rounding and the
  functions of the library. The lemmas need no hypothesis about any of them. The values
  that a decision draws from the random generator are arguments: the spread of the aim and whether
  to fire. The conversion of an angle to 16 bits is taken modulo \<open>2 ^ 16\<close>; for the negative angles
  that \<open>std::atan2\<close> returns the language leaves it undefined.

  The lemmas show that the greedy step is the best of the free candidates, and that a decision that
  presses a direction always moves the player, whichever way it was made.
\<close>

section \<open>Angles\<close>

definition to_angle :: "float_lib \<Rightarrow> rat \<Rightarrow> u16" where
  "to_angle fl a =
     (let pi_f = f_rnd fl (314159265 / 100000000)
      in word_of_int (truncate_rat (f_rnd fl (f_rnd fl (a / f_rnd fl (2 * pi_f)) * 65536))))"

section \<open>Greedy steps\<close>

record candidate =
  cd_btn :: u8
  cd_dist :: rat
  cd_ok :: bool

definition step_dist :: "float_lib \<Rightarrow> vec2 \<Rightarrow> rat \<Rightarrow> rat \<Rightarrow> int \<Rightarrow> int \<Rightarrow> rat" where
  "step_dist fl my_pos target_x target_y off_x off_y =
     (let nx = f_rnd fl (to_px fl (vx my_pos) + to_px fl off_x);
          ny = f_rnd fl (to_px fl (vy my_pos) + to_px fl off_y);
          ndx = f_rnd fl (target_x - nx);
          ndy = f_rnd fl (target_y - ny)
      in f_rnd fl (f_rnd fl (ndx * ndx) + f_rnd fl (ndy * ndy)))"

definition try_candidate :: "float_lib \<Rightarrow> vec2 \<Rightarrow> rat \<Rightarrow> rat \<Rightarrow> u8 \<times> int \<times> int \<Rightarrow> candidate \<Rightarrow> candidate" where
  "try_candidate fl my_pos target_x target_y = (\<lambda>(btn, off_x, off_y) best.
     if aabb_collides (Vec2Fixed (vx my_pos + off_x) (vy my_pos + off_y)) then best
     else
       let ndist = step_dist fl my_pos target_x target_y off_x off_y
       in if ndist < cd_dist best then \<lparr>cd_btn = btn, cd_dist = ndist, cd_ok = True\<rparr> else best)"

definition greedy_dirs :: "(u8 \<times> int \<times> int) list" where
  "greedy_dirs = (let step = kMoveSpeedFpPerTick
     in [(kInputRight, step, 0), (kInputLeft, - step, 0), (kInputDown, 0, step), (kInputUp, 0, - step)])"

definition diagonal_dir :: "rat \<Rightarrow> rat \<Rightarrow> u8 \<times> int \<times> int" where
  "diagonal_dir dx dy =
     (let step = kMoveSpeedFpPerTick
      in ((if dx > 0 then kInputRight else kInputLeft) OR (if dy > 0 then kInputDown else kInputUp),
          if dx > 0 then step else - step, if dy > 0 then step else - step))"

definition greedy_buttons :: "float_lib \<Rightarrow> vec2 \<Rightarrow> rat \<Rightarrow> rat \<Rightarrow> u8" where
  "greedy_buttons fl my_pos target_x target_y =
     (let dx = f_rnd fl (target_x - to_px fl (vx my_pos));
          dy = f_rnd fl (target_y - to_px fl (vy my_pos))
      in if \<bar>dx\<bar> \<le> 4 \<and> \<bar>dy\<bar> \<le> 4 then 0
         else
           let best = \<lparr>cd_btn = 0, cd_dist = 10 ^ 9, cd_ok = False\<rparr>;
               best = fold (try_candidate fl my_pos target_x target_y) greedy_dirs best;
               best = (if \<bar>dx\<bar> > 4 \<and> \<bar>dy\<bar> > 4
                       then try_candidate fl my_pos target_x target_y (diagonal_dir dx dy) best else best)
           in if cd_ok best then cd_btn best else 0)"

section \<open>The decision\<close>

record bot_ai =
  ba_my_id :: u8
  ba_my_team :: team
  ba_own_base_field :: flow_field
  ba_enemy_base_field :: flow_field

definition BotAI :: "u8 \<Rightarrow> team \<Rightarrow> bot_ai option" where
  "BotAI pid team =
     (case build (if team = Blue then kBlueBasePosition else kRedBasePosition) of
        None \<Rightarrow> None
      | Some own \<Rightarrow>
          (case build (if team = Blue then kRedBasePosition else kBlueBasePosition) of
             None \<Rightarrow> None
           | Some enemy \<Rightarrow>
               Some \<lparr>ba_my_id = pid, ba_my_team = team, ba_own_base_field = own, ba_enemy_base_field = enemy\<rparr>))"

record enemy_scan =
  es_nearest_dist :: rat
  es_dx :: rat
  es_dy :: rat
  es_have_enemy :: bool

definition scan_enemy :: "float_lib \<Rightarrow> bot_ai \<Rightarrow> vec2 \<Rightarrow> player_state \<Rightarrow> enemy_scan \<Rightarrow> enemy_scan" where
  "scan_enemy fl ai my_pos p es =
     (if ps_id p = ba_my_id ai \<or> ps_team p = ba_my_team ai \<or> \<not> ps_alive p then es
      else
        let dx = f_rnd fl (to_px fl (vx (position (ps_motion p))) - to_px fl (vx my_pos));
            dy = f_rnd fl (to_px fl (vy (position (ps_motion p))) - to_px fl (vy my_pos));
            dist = f_sqrt fl (f_rnd fl (f_rnd fl (dx * dx) + f_rnd fl (dy * dy)))
        in if dist < es_nearest_dist es
           then \<lparr>es_nearest_dist = dist, es_dx = dx, es_dy = dy, es_have_enemy = True\<rparr> else es)"

definition nearest_enemy :: "float_lib \<Rightarrow> bot_ai \<Rightarrow> vec2 \<Rightarrow> world_snapshot \<Rightarrow> enemy_scan" where
  "nearest_enemy fl ai my_pos snap =
     fold (scan_enemy fl ai my_pos) (take (unat (player_count snap)) (snap_players snap))
       \<lparr>es_nearest_dist = 99999, es_dx = 0, es_dy = 0, es_have_enemy = False\<rparr>"

text \<open>Where to go: along a field to its base, or straight to a position.\<close>

datatype nav_goal = Follow flow_field vec2 | Chase vec2

definition nav_goal_of :: "bot_ai \<Rightarrow> world_snapshot \<Rightarrow> player_state \<Rightarrow> nav_goal" where
  "nav_goal_of ai snap self =
     (let red_is_mine = (ba_my_team ai = Red);
          own_base = (if red_is_mine then kRedBasePosition else kBlueBasePosition);
          enemy_base = (if red_is_mine then kBlueBasePosition else kRedBasePosition);
          own_flag_state = (if red_is_mine then flag_state_red snap else flag_state_blue snap);
          own_flag_carrier = (if red_is_mine then flag_carrier_red snap else flag_carrier_blue snap)
      in if ps_carrying_flag self then Follow (ba_own_base_field ai) own_base
         else if own_flag_state = Carried \<and> unat own_flag_carrier < kMaxPlayers then
           (case find_snap_player snap own_flag_carrier of
              Some carrier \<Rightarrow>
                if ps_team carrier \<noteq> ba_my_team ai then Chase (position (ps_motion carrier))
                else Follow (ba_enemy_base_field ai) enemy_base
            | None \<Rightarrow> Follow (ba_enemy_base_field ai) enemy_base)
         else Follow (ba_enemy_base_field ai) enemy_base)"

definition nav_buttons :: "float_lib \<Rightarrow> vec2 \<Rightarrow> nav_goal \<Rightarrow> u8" where
  "nav_buttons fl my_pos goal =
     (case goal of
        Chase target \<Rightarrow> greedy_buttons fl my_pos (to_px fl (vx target)) (to_px fl (vy target))
      | Follow field target \<Rightarrow>
          let b = steer field my_pos;
              t = tile_of my_pos
          in if dist_at field (tile_x t) (tile_y t) \<le> 2 \<or> b = 0
             then greedy_buttons fl my_pos (to_px fl (vx target)) (to_px fl (vy target)) else b)"

definition kFireRange :: rat where "kFireRange = 350"

definition ai_tick :: "float_lib \<Rightarrow> rat \<Rightarrow> bool \<Rightarrow> bot_ai \<Rightarrow> world_snapshot \<Rightarrow> input_cmd" where
  "ai_tick fl spread fire ai snap =
     (case find_snap_player snap (ba_my_id ai) of
        None \<Rightarrow> default_input
      | Some self \<Rightarrow>
          let my_pos = position (ps_motion self);
              es = nearest_enemy fl ai my_pos snap;
              b = nav_buttons fl my_pos (nav_goal_of ai snap self)
          in if es_have_enemy es \<and> es_nearest_dist es < kFireRange then
               let angle = f_rnd fl (f_atan2 fl (es_dy es) (es_dx es) + spread);
                   aim = to_angle fl angle
               in \<lparr>buttons = (if fire then b OR kInputFire else b), aim_angle = aim\<rparr>
             else if b AND (kInputLeft OR kInputRight OR kInputUp OR kInputDown) \<noteq> 0 then
               let mx = 0;
                   my = 0;
                   mx = (if b AND kInputRight \<noteq> 0 then mx + 1 else mx);
                   mx = (if b AND kInputLeft \<noteq> 0 then mx - 1 else mx);
                   my = (if b AND kInputDown \<noteq> 0 then my + 1 else my);
                   my = (if b AND kInputUp \<noteq> 0 then my - 1 else my)
               in \<lparr>buttons = b, aim_angle = to_angle fl (f_atan2 fl my mx)\<rparr>
             else \<lparr>buttons = b, aim_angle = 0\<rparr>)"

section \<open>The greedy step is the best free candidate\<close>

definition greedy_options :: "rat \<Rightarrow> rat \<Rightarrow> (u8 \<times> int \<times> int) list" where
  "greedy_options dx dy = greedy_dirs @ (if \<bar>dx\<bar> > 4 \<and> \<bar>dy\<bar> > 4 then [diagonal_dir dx dy] else [])"

definition free_step :: "vec2 \<Rightarrow> u8 \<times> int \<times> int \<Rightarrow> bool" where
  "free_step p = (\<lambda>(btn, off_x, off_y). \<not> aabb_collides (Vec2Fixed (vx p + off_x) (vy p + off_y)))"

definition option_dist :: "float_lib \<Rightarrow> vec2 \<Rightarrow> rat \<Rightarrow> rat \<Rightarrow> u8 \<times> int \<times> int \<Rightarrow> rat" where
  "option_dist fl p tx ty = (\<lambda>(btn, off_x, off_y). step_dist fl p tx ty off_x off_y)"

lemma try_candidate_result:
  "try_candidate fl p tx ty c best =
     (if free_step p c \<and> option_dist fl p tx ty c < cd_dist best
      then \<lparr>cd_btn = fst c, cd_dist = option_dist fl p tx ty c, cd_ok = True\<rparr> else best)"
  by (cases c) (simp add: try_candidate_def free_step_def option_dist_def Let_def)

lemma fold_try_candidate:
  fixes best :: candidate and fl :: float_lib and p :: vec2 and tx ty :: rat and cs :: "(u8 \<times> int \<times> int) list"
  defines "r \<equiv> fold (try_candidate fl p tx ty) cs best"
  shows "(r = best \<or> (\<exists>c \<in> set cs. free_step p c \<and> r = \<lparr>cd_btn = fst c, cd_dist = option_dist fl p tx ty c, cd_ok = True\<rparr>))
    \<and> cd_dist r \<le> cd_dist best \<and> (\<forall>c \<in> set cs. free_step p c \<longrightarrow> cd_dist r \<le> option_dist fl p tx ty c)"
  unfolding r_def
proof (induction cs arbitrary: best)
  case (Cons c cs)
  show ?case
    using Cons.IH [of "try_candidate fl p tx ty c best"]
    by (auto simp: try_candidate_result split: if_splits intro: order_trans)
qed simp

lemma greedy_buttons_options:
  fixes fl :: float_lib and p :: vec2 and tx ty :: rat
  defines "dx \<equiv> f_rnd fl (tx - to_px fl (vx p))" and "dy \<equiv> f_rnd fl (ty - to_px fl (vy p))"
  shows "greedy_buttons fl p tx ty =
    (if \<bar>dx\<bar> \<le> 4 \<and> \<bar>dy\<bar> \<le> 4 then 0
     else let best = fold (try_candidate fl p tx ty) (greedy_options dx dy) \<lparr>cd_btn = 0, cd_dist = 10 ^ 9, cd_ok = False\<rparr>
          in if cd_ok best then cd_btn best else 0)"
  unfolding greedy_buttons_def greedy_options_def dx_def dy_def Let_def by simp

lemma greedy_takes_nearest_step:
  fixes fl :: float_lib and p :: vec2 and tx ty :: rat
  defines "dx \<equiv> f_rnd fl (tx - to_px fl (vx p))" and "dy \<equiv> f_rnd fl (ty - to_px fl (vy p))"
  defines "b \<equiv> greedy_buttons fl p tx ty"
  shows "b = 0 \<or> (\<exists>c \<in> set (greedy_options dx dy). b = fst c \<and> free_step p c
    \<and> (\<forall>c' \<in> set (greedy_options dx dy). free_step p c' \<longrightarrow> option_dist fl p tx ty c \<le> option_dist fl p tx ty c'))"
proof -
  define r where "r = fold (try_candidate fl p tx ty) (greedy_options dx dy) \<lparr>cd_btn = 0, cd_dist = 10 ^ 9, cd_ok = False\<rparr>"
  have b: "b = (if \<bar>dx\<bar> \<le> 4 \<and> \<bar>dy\<bar> \<le> 4 then 0 else if cd_ok r then cd_btn r else 0)"
    unfolding b_def r_def dx_def dy_def by (subst greedy_buttons_options) (simp add: Let_def)
  note res = fold_try_candidate [of fl p tx ty "greedy_options dx dy" "\<lparr>cd_btn = 0, cd_dist = 10 ^ 9, cd_ok = False\<rparr>", folded r_def]
  show ?thesis
  proof (cases "b = 0")
    case False
    then have "cd_ok r" "b = cd_btn r" using b by (auto split: if_splits)
    then obtain c where c: "c \<in> set (greedy_options dx dy)" "free_step p c"
      "r = \<lparr>cd_btn = fst c, cd_dist = option_dist fl p tx ty c, cd_ok = True\<rparr>"
      using res by auto
    then show ?thesis using res \<open>b = cd_btn r\<close> by (intro disjI2 bexI [OF _ c(1)]) simp
  qed simp
qed

section \<open>A decision to move moves\<close>

lemma grid_line: "z < z' \<Longrightarrow> z div 8192 \<noteq> z' div 8192 \<Longrightarrow> \<exists>k. z < 8192 * k \<and> 8192 * k \<le> z'" for z z' :: int
proof (intro exI [of _ "z' div 8192"] conjI)
  assume "z < z'" "z div 8192 \<noteq> z' div 8192"
  then have "z div 8192 < z' div 8192" by (meson le_less less_imp_le zdiv_mono1 zero_less_numeral)
  then show "z < 8192 * (z' div 8192)" by simp
qed simp

text \<open>
  A box that is free here and one diagonal step away is not blocked on both axes: the two walls that
  would block it are less than a tile apart, and tiles lie on a grid.
\<close>

lemma corner_not_blocked:
  assumes "\<not> aabb_collides (Vec2Fixed x y)" "\<not> aabb_collides (Vec2Fixed (x + a) (y + b))"
    and "between 0 a d" "between 0 b e" "\<bar>a\<bar> \<le> 1365" "\<bar>b\<bar> \<le> 1365"
  shows "\<not> aabb_collides (Vec2Fixed (x + d) y) \<or> \<not> aabb_collides (Vec2Fixed x (y + e))"
proof (rule ccontr)
  have here: "\<not> is_wall (a' div 8192) (b' div 8192)" if "x \<le> a'" "a' < x + 6144" "y \<le> b'" "b' < y + 6144" for a' b'
    using assms(1) that by (auto simp: aabb_collides_geometric box_hits_wall_def config_defs)
  have there: "\<not> is_wall (a' div 8192) (b' div 8192)"
    if "x + a \<le> a'" "a' < x + a + 6144" "y + b \<le> b'" "b' < y + b + 6144" for a' b'
    using assms(2) that by (auto simp: aabb_collides_geometric box_hits_wall_def config_defs)
  have ends: "min 0 a \<le> d" "d \<le> max 0 a" "min 0 b \<le> e" "e \<le> max 0 b" using assms(3,4) by (simp_all add: between_def)
  assume "\<not> ?thesis"
  then obtain a1 b1 a2 b2 where
    h1: "x + d \<le> a1" "a1 < x + d + 6144" "y \<le> b1" "b1 < y + 6144" "is_wall (a1 div 8192) (b1 div 8192)" and
    h2: "x \<le> a2" "a2 < x + 6144" "y + e \<le> b2" "b2 < y + e + 6144" "is_wall (a2 div 8192) (b2 div 8192)"
    by (auto simp: aabb_collides_geometric box_hits_wall_def config_defs)
  have out1: "a1 < x \<or> x + 6144 \<le> a1" using here [of a1 b1] h1 by linarith
  have "b2 < y \<or> y + 6144 \<le> b2" using here [of a2 b2] h2 by linarith
  then have y2: "y + b \<le> b2" "b2 < y + b + 6144" using h2 ends(3,4) assms(6) by (auto simp: min_def max_def split: if_splits)
  have out2: "a2 < x + a \<or> x + a + 6144 \<le> a2" using there [of a2 b2] h2 y2 by linarith
  have n1: "(x + 6143) div 8192 \<noteq> a1 div 8192" "x div 8192 \<noteq> a1 div 8192"
    using here [of "x + 6143" b1] here [of x b1] h1 by auto
  have n2: "(x + a) div 8192 \<noteq> a2 div 8192" "(x + a + 6143) div 8192 \<noteq> a2 div 8192"
    using there [of "x + a" b2] there [of "x + a + 6143" b2] h2 y2 by auto
  show False
  proof (cases "0 \<le> a")
    case True
    then have "x + 6143 < a1" "a2 < x + a" using out1 out2 h1 h2 ends assms(5) by (auto simp: min_def max_def split: if_splits)
    then obtain k l where "x + 6143 < 8192 * k" "8192 * k \<le> a1" "a2 < 8192 * l" "8192 * l \<le> x + a"
      using grid_line [of "x + 6143" a1] grid_line [of a2 "x + a"] n1 n2 by metis
    then have "l < k" "k < l + 1" using h1(2) h2(1) ends(2) assms(5) True by (simp_all add: max_def)
    then show False by simp
  next
    case False
    then have "a1 < x" "x + a + 6143 < a2" using out1 out2 h1 h2 ends assms(5) by (auto simp: min_def max_def split: if_splits)
    then obtain k l where "a1 < 8192 * k" "8192 * k \<le> x" "x + a + 6143 < 8192 * l" "8192 * l \<le> a2"
      using grid_line [of a1 x] grid_line [of "x + a + 6143" a2] n1 n2 by metis
    then have "k < l" "l < k + 1" using h1(1) h2(2) ends(1) assms(5) False by (simp_all add: min_def)
    then show False by simp
  qed
qed

text \<open>\<open>moving p b\<close>: the buttons \<open>b\<close> hold at most one direction per axis, and if any, it moves a player at \<open>p\<close>.\<close>

definition moving :: "vec2 \<Rightarrow> u8 \<Rightarrow> bool" where
  "moving p b \<longleftrightarrow> (\<exists>bx by. b = bx OR by \<and> bx \<in> {0, kInputRight, kInputLeft} \<and> by \<in> {0, kInputDown, kInputUp})
     \<and> (\<forall>m cmd. position m = p \<longrightarrow> buttons cmd = b \<longrightarrow> b \<noteq> 0 \<longrightarrow> position (movement_step m cmd) \<noteq> p)"

lemma moving_parts:
  assumes "\<not> aabb_collides p" "x_part p bx" "y_part p by"
  shows "moving p (bx OR by)"
proof -
  have "position (movement_step m cmd) \<noteq> p" if "position m = p" "buttons cmd = bx OR by" "bx OR by \<noteq> 0" for m cmd
  proof -
    have "bx \<noteq> 0 \<or> by \<noteq> 0" using that(3) by auto
    then show ?thesis using parts_move [OF assms parts_pressed [OF that(2) assms(2,3)] _ that(1)] by blast
  qed
  moreover have "bx \<in> {0, kInputRight, kInputLeft}" "by \<in> {0, kInputDown, kInputUp}"
    using assms(2,3) by (auto simp: x_part_def y_part_def)
  ultimately show ?thesis unfolding moving_def by blast
qed

lemma steer_moving: "\<not> aabb_collides p \<Longrightarrow> moving p (steer ff p)"
  by (rule steer_parts [of ff p]) (simp add: moving_parts)

lemma cardinal_moving:
  assumes "\<not> aabb_collides p" "c \<in> set greedy_dirs" "free_step p c"
  shows "moving p (fst c)"
proof -
  have "moving p bx" if "bx = kInputRight \<and> axis_feasible p 1 0 \<or> bx = kInputLeft \<and> axis_feasible p (-1) 0" for bx
    using moving_parts [OF assms(1), of bx 0] that by (simp add: x_part_def y_part_def)
  moreover have "moving p by" if "by = kInputDown \<and> axis_feasible p 0 1 \<or> by = kInputUp \<and> axis_feasible p 0 (-1)" for "by"
    using moving_parts [OF assms(1), of 0 "by"] that by (simp add: x_part_def y_part_def)
  ultimately show ?thesis
    using assms(2,3) by (auto simp: greedy_dirs_def free_step_def axis_feasible_def Let_def)
qed

lemma diagonal_moving:
  assumes "\<not> aabb_collides p" "free_step p (diagonal_dir dx dy)"
  shows "moving p (fst (diagonal_dir dx dy))"
proof -
  define bx where "bx = (if dx > 0 then kInputRight else kInputLeft)"
  define "by" where "by = (if dy > 0 then kInputDown else kInputUp)"
  define sx :: int where "sx = (if dx > 0 then 1 else -1)"
  define sy :: int where "sy = (if dy > 0 then 1 else -1)"
  have dir: "diagonal_dir dx dy = (bx OR by, sx * 1365, sy * 1365)"
    by (simp add: diagonal_dir_def bx_def by_def sx_def sy_def config_defs)
  have "position (movement_step m cmd) \<noteq> p" if m: "position m = p" "buttons cmd = bx OR by" for m cmd
  proof -
    have "dir_x cmd = sx" "dir_y cmd = sy"
      using m(2) by (auto simp: dir_x_def dir_y_def axis_def pressed_def bx_def by_def sx_def sy_def button_defs)
    then have v: "vx (step_velocity cmd) = axis_speed True sx" "vy (step_velocity cmd) = axis_speed True sy" "sx \<noteq> 0" "sy \<noteq> 0"
      by (auto simp: step_velocity_def Let_def sx_def sy_def)
    let ?d = "axis_speed True sx" and ?e = "axis_speed True sy"
    have d: "between 0 (sx * 1365) ?d" "between 0 (sy * 1365) ?e" "?d \<noteq> 0" "?e \<noteq> 0"
      by (auto simp: between_def axis_speed_def sx_def sy_def)
    have "\<not> aabb_collides (Vec2Fixed (vx p + ?d) (vy p)) \<or> \<not> aabb_collides (Vec2Fixed (vx p) (vy p + ?e))"
      using assms d(1,2) by (intro corner_not_blocked [of _ _ "sx * 1365" "sy * 1365"]) (auto simp: dir free_step_def Vec2Fixed_surj sx_def sy_def)
    then have "try_y (try_x p ?d) ?e \<noteq> p" using d(3,4) by (cases p) (auto simp: try_x_def try_y_def Vec2Fixed_def)
    then show ?thesis using m(1) v by (simp add: movement_step_closed)
  qed
  moreover have "bx \<in> {0, kInputRight, kInputLeft}" "by \<in> {0, kInputDown, kInputUp}" by (simp_all add: bx_def by_def)
  ultimately show ?thesis unfolding moving_def dir fst_conv by blast
qed

lemma greedy_moving:
  assumes "\<not> aabb_collides p"
  shows "moving p (greedy_buttons fl p tx ty)"
  using greedy_takes_nearest_step [of fl p tx ty]
proof (elim disjE bexE conjE)
  assume "greedy_buttons fl p tx ty = 0"
  then show ?thesis by (auto simp: moving_def intro!: exI [of _ 0])
next
  fix c
  let ?dx = "f_rnd fl (tx - to_px fl (vx p))" and ?dy = "f_rnd fl (ty - to_px fl (vy p))"
  assume c: "c \<in> set (greedy_options ?dx ?dy)" "greedy_buttons fl p tx ty = fst c" "free_step p c"
  then consider "c \<in> set greedy_dirs" | "c = diagonal_dir ?dx ?dy" by (auto simp: greedy_options_def split: if_splits)
  then show ?thesis using cardinal_moving [OF assms] diagonal_moving [OF assms] c by cases auto
qed

lemma nav_moving: "\<not> aabb_collides p \<Longrightarrow> moving p (nav_buttons fl p goal)"
  by (simp add: nav_buttons_def Let_def greedy_moving steer_moving split: nav_goal.split)

section \<open>The enemy in sight\<close>

definition living_enemy :: "bot_ai \<Rightarrow> player_state \<Rightarrow> bool" where
  "living_enemy ai p \<longleftrightarrow> ps_id p \<noteq> ba_my_id ai \<and> ps_team p \<noteq> ba_my_team ai \<and> ps_alive p"

definition player_dist :: "float_lib \<Rightarrow> vec2 \<Rightarrow> player_state \<Rightarrow> rat" where
  "player_dist fl my_pos p =
     (let dx = f_rnd fl (to_px fl (vx (position (ps_motion p))) - to_px fl (vx my_pos));
          dy = f_rnd fl (to_px fl (vy (position (ps_motion p))) - to_px fl (vy my_pos))
      in f_sqrt fl (f_rnd fl (f_rnd fl (dx * dx) + f_rnd fl (dy * dy))))"

lemma scan_enemy_fields:
  "es_nearest_dist (scan_enemy fl ai my_pos p es) =
     (if living_enemy ai p \<and> player_dist fl my_pos p < es_nearest_dist es then player_dist fl my_pos p else es_nearest_dist es)"
  "es_have_enemy (scan_enemy fl ai my_pos p es) =
     (living_enemy ai p \<and> player_dist fl my_pos p < es_nearest_dist es \<or> es_have_enemy es)"
  by (simp_all add: scan_enemy_def living_enemy_def player_dist_def Let_def)

lemma nearest_of_fold:
  fixes ps :: "player_state list" and es :: enemy_scan and fl :: float_lib and ai :: bot_ai and my_pos :: vec2
  defines "r \<equiv> fold (scan_enemy fl ai my_pos) ps es"
  shows "(es_nearest_dist r = es_nearest_dist es \<and> es_have_enemy r = es_have_enemy es
      \<or> es_have_enemy r \<and> (\<exists>e \<in> set ps. living_enemy ai e \<and> es_nearest_dist r = player_dist fl my_pos e))
    \<and> es_nearest_dist r \<le> es_nearest_dist es \<and> (\<forall>e \<in> set ps. living_enemy ai e \<longrightarrow> es_nearest_dist r \<le> player_dist fl my_pos e)"
  unfolding r_def
proof (induction ps arbitrary: es)
  case (Cons p ps)
  show ?case using Cons.IH [of "scan_enemy fl ai my_pos p es"]
    by (auto simp: scan_enemy_fields split: if_splits)
qed simp

text \<open>The scan reports an enemy exactly when a living one is close enough, and then the distance of the nearest.\<close>

lemma nearest_enemy_is_nearest:
  fixes fl :: float_lib and ai :: bot_ai and my_pos :: vec2 and snap :: world_snapshot
  defines "ps \<equiv> take (unat (player_count snap)) (snap_players snap)" and "es \<equiv> nearest_enemy fl ai my_pos snap"
  shows "es_have_enemy es \<Longrightarrow> \<exists>e \<in> set ps. living_enemy ai e \<and> es_nearest_dist es = player_dist fl my_pos e"
    and "e \<in> set ps \<Longrightarrow> living_enemy ai e \<Longrightarrow> es_nearest_dist es \<le> player_dist fl my_pos e"
  using nearest_of_fold [of fl ai my_pos ps "\<lparr>es_nearest_dist = 99999, es_dx = 0, es_dy = 0, es_have_enemy = False\<rparr>"]
  by (auto simp: es_def nearest_enemy_def ps_def)

section \<open>Properties\<close>

text \<open>Both fields are built, so a bot always comes into being, with the fields of the two bases.\<close>

lemma BotAI_returns:
  "\<exists>own enemy. BotAI pid team = Some \<lparr>ba_my_id = pid, ba_my_team = team, ba_own_base_field = own, ba_enemy_base_field = enemy\<rparr>
    \<and> build (if team = Blue then kBlueBasePosition else kRedBasePosition) = Some own
    \<and> build (if team = Blue then kRedBasePosition else kBlueBasePosition) = Some enemy"
proof -
  obtain own enemy where "build (if team = Blue then kBlueBasePosition else kRedBasePosition) = Some own"
      "build (if team = Blue then kRedBasePosition else kBlueBasePosition) = Some enemy"
    using build_returns by blast
  then show ?thesis by (simp add: BotAI_def)
qed

lemma ai_tick_buttons:
  fixes fl :: float_lib and ai :: bot_ai and snap :: world_snapshot and self :: player_state
  defines "b \<equiv> nav_buttons fl (position (ps_motion self)) (nav_goal_of ai snap self)"
    and "es \<equiv> nearest_enemy fl ai (position (ps_motion self)) snap"
  assumes "find_snap_player snap (ba_my_id ai) = Some self"
  shows "buttons (ai_tick fl spread fire ai snap)
    = (if es_have_enemy es \<and> es_nearest_dist es < kFireRange \<and> fire then b OR kInputFire else b)"
  using assms(3) by (simp add: ai_tick_def Let_def b_def es_def)

lemma fire_ignored:
  "buttons cmd = b OR kInputFire \<Longrightarrow> buttons cmd' = b \<Longrightarrow> k \<in> {kInputRight, kInputLeft, kInputDown, kInputUp} \<Longrightarrow> pressed cmd k = pressed cmd' k"
  by (auto simp: pressed_def button_defs bit.conj_disj_distrib2)

lemma step_ignores_fire:
  assumes "buttons cmd = b OR kInputFire"
  shows "position (movement_step m cmd) = position (movement_step m \<lparr>buttons = b, aim_angle = 0\<rparr>)"
proof -
  have "pressed cmd k = pressed \<lparr>buttons = b, aim_angle = 0\<rparr> k" if "k \<in> {kInputRight, kInputLeft, kInputDown, kInputUp}" for k
    using fire_ignored [OF assms _ that] by simp
  then have "step_velocity cmd = step_velocity \<lparr>buttons = b, aim_angle = 0\<rparr>" by (simp add: step_velocity_def dir_x_def dir_y_def)
  then show ?thesis by (simp add: movement_step_closed)
qed

text \<open>
  C25 (safety): a decision of a bot never pushes against a wall. Whatever the floating-point functions
  return and whatever is drawn at random, if the bot stands free and its decision presses a
  direction, the physics step moves it; it never presses opposite keys; and it fires only when the
  nearest living enemy is within range.
\<close>

theorem bot_decisions_move:
  fixes cmd :: input_cmd and self :: player_state
  defines "p \<equiv> position (ps_motion self)"
  assumes "find_snap_player snap (ba_my_id ai) = Some self" "\<not> aabb_collides p" "cmd = ai_tick fl spread fire ai snap"
  shows "(buttons cmd AND 15 \<noteq> 0 \<longrightarrow> position (movement_step (ps_motion self) cmd) \<noteq> p)
    \<and> \<not> (pressed cmd kInputRight \<and> pressed cmd kInputLeft) \<and> \<not> (pressed cmd kInputDown \<and> pressed cmd kInputUp)
    \<and> (pressed cmd kInputFire \<longrightarrow> (\<exists>e \<in> set (take (unat (player_count snap)) (snap_players snap)).
         living_enemy ai e \<and> player_dist fl p e < kFireRange
         \<and> (\<forall>e' \<in> set (take (unat (player_count snap)) (snap_players snap)). living_enemy ai e' \<longrightarrow> player_dist fl p e \<le> player_dist fl p e')))"
proof -
  define b where "b = nav_buttons fl p (nav_goal_of ai snap self)"
  let ?es = "nearest_enemy fl ai p snap"
  let ?shoot = "es_have_enemy ?es \<and> es_nearest_dist ?es < kFireRange \<and> fire"
  have cmd: "buttons cmd = (if ?shoot then b OR kInputFire else b)"
    using ai_tick_buttons [OF assms(2)] by (simp add: assms(4) b_def p_def)
  have mov: "moving p b" unfolding b_def using nav_moving [OF assms(3)] .
  then obtain bx "by" where parts: "b = bx OR by" "bx \<in> {0, kInputRight, kInputLeft}" "by \<in> {0, kInputDown, kInputUp}"
    by (auto simp: moving_def)
  have fire: "pressed cmd kInputFire \<longleftrightarrow> ?shoot" "buttons cmd AND 15 = b"
    using parts by (auto simp: cmd pressed_def button_defs)
  have opp: "\<not> (pressed cmd kInputRight \<and> pressed cmd kInputLeft) \<and> \<not> (pressed cmd kInputDown \<and> pressed cmd kInputUp)"
    using parts by (auto simp: cmd pressed_def button_defs)
  have "position (movement_step (ps_motion self) cmd) \<noteq> p" if "b \<noteq> 0"
  proof -
    have "position (movement_step (ps_motion self) cmd) = position (movement_step (ps_motion self) \<lparr>buttons = b, aim_angle = 0\<rparr>)"
      using cmd step_ignores_fire movement_depends [of "ps_motion self" "ps_motion self" cmd "\<lparr>buttons = b, aim_angle = 0\<rparr>"]
      by (auto split: if_splits)
    then show ?thesis using mov that by (simp add: moving_def p_def)
  qed
  moreover have "\<exists>e \<in> set (take (unat (player_count snap)) (snap_players snap)). living_enemy ai e \<and> player_dist fl p e < kFireRange
      \<and> (\<forall>e' \<in> set (take (unat (player_count snap)) (snap_players snap)). living_enemy ai e' \<longrightarrow> player_dist fl p e \<le> player_dist fl p e')" if shoot: ?shoot
  proof -
    obtain e where "e \<in> set (take (unat (player_count snap)) (snap_players snap))" "living_enemy ai e"
        "es_nearest_dist ?es = player_dist fl p e"
      using nearest_enemy_is_nearest(1) [of fl ai p snap] shoot by blast
    then show ?thesis
      using shoot nearest_enemy_is_nearest(2) [where fl = fl and ai = ai and my_pos = p and snap = snap] by (intro bexI [of _ e]) auto
  qed
  ultimately show ?thesis using opp fire by blast
qed

text \<open>A bot of the red team in the open.\<close>

definition sample_bot :: bot_ai where
  "sample_bot = \<lparr>ba_my_id = 1, ba_my_team = Red, ba_own_base_field = empty_field, ba_enemy_base_field = empty_field\<rparr>"

definition sample_self :: player_state where
  "sample_self = default_player_state\<lparr>ps_id := 1, ps_motion := \<lparr>position = tile_to_fp 3 12, velocity = Vec2Fixed 0 0\<rparr>\<rparr>"

definition sample_sight :: world_snapshot where
  "sample_sight = default_snapshot\<lparr>player_count := 1, snap_players := (replicate kMaxPlayers default_player_state)[0 := sample_self]\<rparr>"

theorem bot_decisions_move_witness:
  "buttons (ai_tick plain_floats 0 True sample_bot sample_sight) = kInputRight
   \<and> position (movement_step (ps_motion sample_self) (ai_tick plain_floats 0 True sample_bot sample_sight)) \<noteq> tile_to_fp 3 12"
proof -
  have hyps: "find_snap_player sample_sight (ba_my_id sample_bot) = Some sample_self"
    by (simp add: find_snap_player_def sample_sight_def sample_bot_def sample_self_def default_snapshot_def kMaxPlayers_def numeral_eq_Suc)
  have free: "\<not> aabb_collides (position (ps_motion sample_self))" by code_simp
  have b: "buttons (ai_tick plain_floats 0 True sample_bot sample_sight) = kInputRight" by code_simp
  from bot_decisions_move [OF hyps free, of _ plain_floats 0 True] b show ?thesis
    by (simp add: kInputRight_def) (simp add: sample_self_def)
qed

end
