(* ===== verification/Bot_Loop.thy ===== *)
theory Bot_Loop
  imports Client_Loop Bot_AI
begin

text \<open>
  The loop of \<open>bot/main.cpp\<close>. The bot keeps what the client keeps, without interpolation, and adds
  its team, its AI and whether it may start the match. The clock appears as the outcome of its two
  comparisons: whether a tick is due and whether two seconds have passed since the connection. The
  random draws of the AI are arguments. Building an AI builds two flow fields; a frame is therefore
  an option, and it is proved to return.
\<close>

section \<open>One tick\<close>

record bot_app = player_loop +
  bl_can_start :: bool
  bl_my_team :: team
  bl_ai :: "bot_ai option"

definition bot_start :: "net_client \<Rightarrow> bot_app" where
  "bot_start net = \<lparr>ca_net = net, ca_my_id = nc_player_id net, ca_prediction = Prediction,
     ca_latest_snapshot = default_snapshot, ca_have_snapshot = False, bl_can_start = False, bl_my_team = Red, bl_ai = None\<rparr>"

definition bot_tick :: "float_lib \<Rightarrow> rat \<times> bool \<Rightarrow> bot_app \<Rightarrow> bot_app" where
  "bot_tick fl draws app =
     (let app = (if alive_in_match app then
                   (case bl_ai app of
                      Some ai \<Rightarrow> app\<lparr>ca_prediction := on_local_tick (ai_tick fl (fst draws) (snd draws) ai (ca_latest_snapshot app)) (ca_prediction app)\<rparr>
                    | None \<Rightarrow> app\<lparr>ca_prediction := on_local_tick default_input (ca_prediction app)\<rparr>)
                 else app)
      in app\<lparr>ca_net := send_current_input (ca_prediction app) (ca_net app)\<rparr>)"

function bot_ticks :: "(nat \<Rightarrow> bool) \<Rightarrow> nat \<Rightarrow> float_lib \<Rightarrow> (nat \<Rightarrow> rat \<times> bool) \<Rightarrow> nat \<Rightarrow> bot_app \<Rightarrow> bot_app" where
  "bot_ticks due limit fl draws i app =
     (if due i \<and> i < limit then bot_ticks due limit fl draws (i + 1) (bot_tick fl (draws i) app) else app)"
  by pat_completeness auto
termination by (relation "measure (\<lambda>(due, limit, fl, draws, i, app). limit - i)") auto

declare bot_ticks.simps [simp del]

section \<open>One frame\<close>

definition bot_snapshot :: "world_snapshot \<Rightarrow> bot_app \<Rightarrow> bot_app" where
  "bot_snapshot snap app =
     app\<lparr>ca_latest_snapshot := snap, ca_have_snapshot := True,
         ca_prediction := on_snapshot snap (ca_my_id app) (ca_prediction app)\<rparr>"

text \<open>The search of \<open>GAME_START\<close> for the own id; the first entry with it names the team.\<close>

definition my_entry :: "u8 \<Rightarrow> msg_game_start \<Rightarrow> nat option" where
  "my_entry pid gs = List.find (\<lambda>i. gs_ids gs ! i = pid) [0..<unat (gs_player_count gs)]"

definition bot_event :: "game_event \<Rightarrow> bot_app \<Rightarrow> bot_app option" where
  "bot_event ev app =
     (case ev of
        EvGameStart gs \<Rightarrow>
          (case my_entry (ca_my_id app) gs of
             None \<Rightarrow> Some app
           | Some i \<Rightarrow>
               (case BotAI (ca_my_id app) (gs_teams gs ! i) of
                  None \<Rightarrow> None
                | Some ai \<Rightarrow> Some (app\<lparr>bl_my_team := gs_teams gs ! i, bl_ai := Some ai\<rparr>)))
      | _ \<Rightarrow> Some app)"

primrec bot_events :: "game_event list \<Rightarrow> bot_app \<Rightarrow> bot_app option" where
  "bot_events [] app = Some app"
| "bot_events (ev # evs) app = (case bot_event ev app of None \<Rightarrow> None | Some app \<Rightarrow> bot_events evs app)"

definition self_elect :: "bool \<Rightarrow> bot_app \<Rightarrow> bot_app" where
  "self_elect two_seconds_passed app =
     (if \<not> game_started (ca_net app) \<and> is_host (ca_net app) then
        let app = (if \<not> bl_can_start app \<and> two_seconds_passed then app\<lparr>bl_can_start := True\<rparr> else app)
        in if bl_can_start app then app\<lparr>ca_net := send_start_request (ca_net app)\<rparr> else app
      else app)"

record bot_frame_input =
  bf_tcp :: "recv_outcome list"
  bf_udp :: "recv_outcome list"
  bf_now1 :: u32
  bf_now2 :: u32
  bf_two_seconds :: bool
  bf_due :: "nat \<Rightarrow> bool"
  bf_draws :: "nat \<Rightarrow> rat \<times> bool"

definition bot_frame :: "float_lib \<Rightarrow> bot_frame_input \<Rightarrow> bot_app \<Rightarrow> bot_app option" where
  "bot_frame fl fr app =
     (let app = app\<lparr>ca_net := client_poll (bf_tcp fr) (bf_udp fr) (bf_now1 fr) (bf_now2 fr) (ca_net app)\<rparr>;
          (snaps, net) = take_snapshots (ca_net app);
          app = fold bot_snapshot snaps (app\<lparr>ca_net := net\<rparr>);
          (events, net) = take_events (ca_net app)
      in case bot_events events (app\<lparr>ca_net := net\<rparr>) of
           None \<Rightarrow> None
         | Some app \<Rightarrow> Some (bot_ticks (bf_due fr) 200 fl (bf_draws fr) 0 (self_elect (bf_two_seconds fr) app)))"

section \<open>Lemmas\<close>

lemma bot_event_returns: "\<exists>app'. bot_event ev app = Some app'"
  using BotAI_returns [of "ca_my_id app"] by (auto simp: bot_event_def split: game_event.split option.split) (metis option.distinct(1))

lemma bot_events_return: "\<exists>app'. bot_events evs app = Some app'"
proof (induction evs arbitrary: app)
  case (Cons ev evs)
  then show ?case using bot_event_returns [of ev app] by auto
qed simp

text \<open>Every frame of the bot comes to its end: both searches for a path end.\<close>

lemma bot_frame_returns: "\<exists>app'. bot_frame fl fr app = Some app'"
proof -
  have "\<exists>app'. (case bot_events evs app of None \<Rightarrow> None | Some app \<Rightarrow> Some (f app)) = Some app'" for evs app f
    using bot_events_return [of evs app] by auto
  then show ?thesis unfolding bot_frame_def take_snapshots_def take_events_def Let_def prod.case .
qed

text \<open>A bot named in \<open>GAME_START\<close> plays for the team it is given there, with the fields of both bases.\<close>

lemma game_start_names_the_team:
  assumes "my_entry (ca_my_id app) gs = Some i" "bot_event (EvGameStart gs) app = Some app'"
  shows "bl_my_team app' = gs_teams gs ! i \<and> (\<exists>ai. bl_ai app' = Some ai \<and> ba_my_id ai = ca_my_id app
    \<and> ba_my_team ai = gs_teams gs ! i
    \<and> build (if gs_teams gs ! i = Blue then kBlueBasePosition else kRedBasePosition) = Some (ba_own_base_field ai))"
  using assms BotAI_returns [of "ca_my_id app" "gs_teams gs ! i"] by (auto simp: bot_event_def split: option.splits)

section \<open>Every tick sends\<close>

lemma bot_tick_sends:
  assumes "0 \<le> nc_udp_fd (ca_net app)"
  shows "\<exists>d. ca_net (bot_tick fl draws app) = (ca_net app)\<lparr>nc_udp_sent := nc_udp_sent (ca_net app) @ [d]\<rparr>"
  using send_current_input_one [OF assms] by (simp add: bot_tick_def Let_def split: option.split)

interpretation bot_tick_loop: tick_loop "bot_ticks due limit fl draws" "\<lambda>i. bot_tick fl (draws i)" due limit
    "\<lambda>app. 0 \<le> nc_udp_fd (ca_net app)" "\<lambda>app. nc_udp_sent (ca_net app)"
  for due limit fl draws
proof
  show "bot_ticks due limit fl draws i app = (if due i \<and> i < limit then bot_ticks due limit fl draws (i + 1) (bot_tick fl (draws i) app) else app)" for i app
    by (rule bot_ticks.simps)
  show "0 \<le> nc_udp_fd (ca_net (bot_tick fl (draws i) app)) \<and> (\<exists>d. nc_udp_sent (ca_net (bot_tick fl (draws i) app)) = nc_udp_sent (ca_net app) @ [d])"
    if "0 \<le> nc_udp_fd (ca_net app)" for i app
    using bot_tick_sends [OF that, of fl "draws i"] that by auto
qed

text \<open>
  C27 (liveness): every tick sends. As long as the socket is open, the loops of the client and of the
  bot send exactly one datagram per tick that is due, at most ten respectively two hundred in a
  frame, whether the player is alive, dead or still in the lobby: the server's silence detector does
  not take a waiting player for a vanished one.
\<close>

theorem every_tick_sends:
  assumes "0 \<le> nc_udp_fd (ca_net ca)" "0 \<le> nc_udp_fd (ca_net app)"
  shows "(\<exists>ds. nc_udp_sent (ca_net (client_ticks due 10 read_input 0 ca)) = nc_udp_sent (ca_net ca) @ ds
      \<and> length ds = length (takeWhile due [0..<10]))
    \<and> (\<exists>ds. nc_udp_sent (ca_net (bot_ticks due 200 fl draws 0 app)) = nc_udp_sent (ca_net app) @ ds
      \<and> length ds = length (takeWhile due [0..<200]))"
  using client_tick_loop.loop_sends [OF assms(1)] bot_tick_loop.loop_sends [OF assms(2)] by blast

theorem every_tick_sends_witness:
  "\<exists>ds. nc_udp_sent (ca_net (client_ticks (\<lambda>i. i < 2) 10 (\<lambda>i p. default_input) 0 (client_start sample_client))) = ds \<and> length ds = 2"
proof -
  have fd: "0 \<le> nc_udp_fd (ca_net (client_start sample_client))" "0 \<le> nc_udp_fd (ca_net (bot_start sample_client))"
    by (simp_all add: client_start_def bot_start_def sample_client_def)
  have sent: "nc_udp_sent (ca_net (client_start sample_client)) = []"
    by (simp add: client_start_def sample_client_def NetClient_def)
  have "takeWhile (\<lambda>i. i < 2) [0..<10] = [0, 1::nat]" by (simp add: upt_conv_Cons)
  then show ?thesis using every_tick_sends [OF fd, of "\<lambda>i. i < 2" "\<lambda>i p. default_input"] by (simp add: sent)
qed

end
