(* ===== verification/Sim_Run.thy ===== *)
theory Sim_Run
  imports Sim_Publish
begin

text \<open>
  \<open>Sim::run\<close> of \<open>server/sim.cpp\<close>: the fixed-rate loop of the simulation thread.

  The monotonic clock, the flag \<open>running_\<close> that another thread clears and what that thread does to
  the shared queues between two ticks are inputs. The loop may run forever, so it is a partial
  function on options; it is proved to return as soon as the flag is cleared or the tick limit is
  reached. Sleeping changes no state: only the deadline that is passed to \<open>clock_nanosleep\<close> matters.
\<close>

section \<open>Deadlines\<close>

record timespec =
  tv_sec :: int
  tv_nsec :: int

abbreviation ns_per_sec :: int where
  "ns_per_sec \<equiv> 1000000000"

function carry_nsec :: "timespec \<Rightarrow> timespec" where
  "carry_nsec t =
     (if tv_nsec t \<ge> ns_per_sec
      then carry_nsec (t\<lparr>tv_nsec := tv_nsec t - ns_per_sec, tv_sec := tv_sec t + 1\<rparr>) else t)"
  by pat_completeness auto
termination by (relation "measure (\<lambda>t. nat (tv_nsec t))") auto

declare carry_nsec.simps [simp del]

definition tick_length :: "sim \<Rightarrow> int" where
  "tick_length s = cdiv ns_per_sec (sm_tick_hz s)"

definition next_deadline :: "int \<Rightarrow> timespec \<Rightarrow> timespec \<Rightarrow> timespec" where
  "next_deadline tick_ns now next =
     (let next = carry_nsec (next\<lparr>tv_nsec := tv_nsec next + tick_ns\<rparr>);
          behind_ns = (tv_sec next - tv_sec now) * ns_per_sec + (tv_nsec next - tv_nsec now)
      in if - behind_ns > 3 * tick_ns then now else next)"

section \<open>The loop\<close>

record run_env =
  run_flag :: "nat \<Rightarrow> bool"
  run_now :: "nat \<Rightarrow> timespec"
  run_between :: "nat \<Rightarrow> sim \<Rightarrow> sim"
  run_dir :: ray_direction

text \<open>One round: the deadline, then the other thread's work while this one sleeps, then the tick.\<close>

definition run_round :: "run_env \<Rightarrow> int \<Rightarrow> nat \<Rightarrow> timespec \<times> sim \<Rightarrow> timespec \<times> sim" where
  "run_round env tick_ns i = (\<lambda>(next, s). (next_deadline tick_ns (run_now env i) next, tick (run_dir env) (run_between env i s)))"

partial_function (option) run_loop ::
  "run_env \<Rightarrow> int \<Rightarrow> u32 \<Rightarrow> u32 \<Rightarrow> nat \<Rightarrow> timespec \<times> sim \<Rightarrow> (timespec \<times> sim) option" where
  "run_loop env tick_ns max_ticks executed i st =
     (if run_flag env i \<and> (max_ticks = 0 \<or> executed < max_ticks)
      then run_loop env tick_ns max_ticks (executed + 1) (i + 1) (run_round env tick_ns i st) else Some st)"

definition sim_run :: "run_env \<Rightarrow> u32 \<Rightarrow> timespec \<Rightarrow> sim \<Rightarrow> (timespec \<times> sim) option" where
  "sim_run env max_ticks start s = run_loop env (tick_length s) max_ticks 0 0 (start, s)"

section \<open>Rounds\<close>

definition nanos :: "timespec \<Rightarrow> int" where
  "nanos t = tv_sec t * ns_per_sec + tv_nsec t"

definition normalised :: "timespec \<Rightarrow> bool" where
  "normalised t \<longleftrightarrow> 0 \<le> tv_nsec t \<and> tv_nsec t < ns_per_sec"

lemma carry_nsec_result:
  "nanos (carry_nsec t) = nanos t \<and> (0 \<le> tv_nsec t \<longrightarrow> normalised (carry_nsec t))"
proof (induction t rule: carry_nsec.induct)
  case (1 t)
  show ?case
  proof (cases "tv_nsec t \<ge> ns_per_sec")
    case True
    then show ?thesis using 1 by (subst (1 2) carry_nsec.simps) (simp add: nanos_def algebra_simps)
  next
    case False
    then show ?thesis by (subst (1 2) carry_nsec.simps) (simp add: normalised_def)
  qed
qed

lemma next_deadline_nanos:
  "nanos (next_deadline tick_ns now next) =
     (if nanos now - (nanos next + tick_ns) > 3 * tick_ns then nanos now else nanos next + tick_ns)"
proof -
  let ?n = "carry_nsec (next\<lparr>tv_nsec := tv_nsec next + tick_ns\<rparr>)"
  have n: "nanos ?n = nanos next + tick_ns" using carry_nsec_result [of "next\<lparr>tv_nsec := tv_nsec next + tick_ns\<rparr>"] by (simp add: nanos_def)
  have "(tv_sec ?n - tv_sec now) * ns_per_sec + (tv_nsec ?n - tv_nsec now) = nanos ?n - nanos now"
    by (simp add: nanos_def algebra_simps)
  then show ?thesis by (simp add: next_deadline_def Let_def n)
qed

lemma next_deadline_normalised:
  "normalised now \<Longrightarrow> normalised next \<Longrightarrow> 0 \<le> tick_ns \<Longrightarrow> normalised (next_deadline tick_ns now next)"
  using carry_nsec_result [of "next\<lparr>tv_nsec := tv_nsec next + tick_ns\<rparr>"]
  by (simp add: next_deadline_def Let_def normalised_def)

lemma next_deadline_resync:
  assumes "nanos now - (nanos next + tick_ns) > 3 * tick_ns"
  shows "next_deadline tick_ns now next = now"
proof -
  have "nanos (carry_nsec (next\<lparr>tv_nsec := tv_nsec next + tick_ns\<rparr>)) = nanos next + tick_ns"
    using carry_nsec_result [of "next\<lparr>tv_nsec := tv_nsec next + tick_ns\<rparr>"] by (simp add: nanos_def)
  then show ?thesis using assms by (simp add: next_deadline_def Let_def nanos_def algebra_simps)
qed

text \<open>The state after the first \<open>n\<close> rounds.\<close>

primrec rounds :: "run_env \<Rightarrow> int \<Rightarrow> nat \<Rightarrow> timespec \<times> sim \<Rightarrow> timespec \<times> sim" where
  "rounds env tick_ns 0 st = st"
| "rounds env tick_ns (Suc n) st = run_round env tick_ns n (rounds env tick_ns n st)"

definition stops :: "run_env \<Rightarrow> u32 \<Rightarrow> nat \<Rightarrow> bool" where
  "stops env max_ticks n \<longleftrightarrow> \<not> run_flag env n \<or> max_ticks \<noteq> 0 \<and> n = unat max_ticks"

lemma run_loop_rounds:
  assumes "\<forall>j < n. \<not> stops env max_ticks j" "stops env max_ticks n" "i \<le> n" "n < 2 ^ 32"
  shows "run_loop env tick_ns max_ticks (word_of_nat i) i (rounds env tick_ns i st) = Some (rounds env tick_ns n st)"
  using assms(3)
proof (induction "n - i" arbitrary: i)
  case 0
  then have "i = n" by simp
  moreover have "\<not> (run_flag env n \<and> (max_ticks = 0 \<or> word_of_nat n < max_ticks))"
    using assms(2,4) by (auto simp: stops_def word_less_nat_alt)
  ultimately show ?case by (subst run_loop.simps) (simp only: if_False)
next
  case (Suc m)
  then have i: "i < n" "m = n - Suc i" by simp_all
  have small: "unat (word_of_nat i :: u32) = i" using i assms(4) by (simp add: unsigned_of_nat take_bit_nat_eq_self)
  have "run_flag env i" "max_ticks = 0 \<or> i < unat max_ticks"
  proof -
    show "run_flag env i" using assms(1) i by (auto simp: stops_def)
    have "\<forall>j < n. max_ticks \<noteq> 0 \<longrightarrow> j \<noteq> unat max_ticks" using assms(1) by (auto simp: stops_def)
    then show "max_ticks = 0 \<or> i < unat max_ticks" using i by (metis linorder_neqE_nat order_less_trans)
  qed
  then have "run_flag env i \<and> (max_ticks = 0 \<or> word_of_nat i < max_ticks)" using small by (simp add: word_less_nat_alt)
  then show ?case using Suc.hyps(1) [OF i(2)] i by (subst run_loop.simps) (simp add: add.commute)
qed

lemma tick_counts: "sm_current_tick (tick dir s) = sm_current_tick s + 1"
  using clockwork_phases [of dir s] by (simp add: tick_phases Let_def clockwork_publish win_check_frame clockwork_def)

lemma rounds_deadline:
  "fst (rounds env tick_ns (Suc n) st) = next_deadline tick_ns (run_now env n) (fst (rounds env tick_ns n st))"
  by (simp add: run_round_def case_prod_beta)

lemma rounds_normalised:
  "normalised (fst st) \<Longrightarrow> \<forall>i. normalised (run_now env i) \<Longrightarrow> 0 \<le> tick_ns \<Longrightarrow> normalised (fst (rounds env tick_ns n st))"
proof (induction n)
  case (Suc n)
  then show ?case unfolding rounds_deadline by (intro next_deadline_normalised) simp_all
qed simp

lemma rounds_ticks:
  assumes "\<forall>i s. sm_current_tick (run_between env i s) = sm_current_tick s"
  shows "sm_current_tick (snd (rounds env tick_ns n st)) = sm_current_tick (snd st) + word_of_nat n"
proof (induction n)
  case (Suc n)
  have "sm_current_tick (snd (rounds env tick_ns (Suc n) st)) = sm_current_tick (run_between env n (snd (rounds env tick_ns n st))) + 1"
    by (simp add: run_round_def case_prod_beta tick_counts)
  then show ?case using Suc assms by (simp add: algebra_simps)
qed simp

lemma rounds_on_time:
  assumes "\<forall>i < n. nanos (run_now env i) \<le> nanos (fst st) + (int i + 4) * tick_ns"
  shows "nanos (fst (rounds env tick_ns n st)) = nanos (fst st) + int n * tick_ns"
  using assms
proof (induction n)
  case (Suc n)
  then have "nanos (fst (rounds env tick_ns n st)) = nanos (fst st) + int n * tick_ns" by simp
  moreover have "nanos (run_now env n) \<le> nanos (fst st) + (int n + 4) * tick_ns" using Suc.prems by simp
  ultimately show ?case unfolding rounds_deadline next_deadline_nanos by (simp add: algebra_simps)
qed simp

text \<open>The states between two rounds are reachable states of the simulation, so its invariants hold there.\<close>

lemma rounds_reachable:
  assumes "sim_reachable (run_dir env) (snd st)" "\<forall>i s. sim_reachable (run_dir env) s \<longrightarrow> sim_reachable (run_dir env) (run_between env i s)"
  shows "sim_reachable (run_dir env) (snd (rounds env tick_ns n st))"
  using assms by (induction n) (simp_all add: run_round_def case_prod_beta sim_reachable.ticked)

section \<open>Properties\<close>

text \<open>
  C18 (bounds): the loop keeps its pace. It returns after exactly as many ticks as pass until the
  flag is cleared or the limit is reached. The deadline of every round is normalised and lies exactly
  one tick after the one before, unless the clock is by then more than three ticks past that: then,
  and only then, it is the current time (a resynchronisation), so that missed ticks are never caught
  up in a burst of more than three. While no tick is late by more than three ticks, no time is lost:
  the deadline after \<open>n\<close> rounds is exactly \<open>n\<close> tick lengths after the start, whatever the jitter.
\<close>

theorem run_keeps_pace:
  fixes env :: run_env and s :: sim and start :: timespec and max_ticks :: u32
  defines "T \<equiv> tick_length s"
  defines "D i \<equiv> fst (rounds env T i (start, s))"
  assumes "normalised start" "\<forall>i. normalised (run_now env i)" "0 < sm_tick_hz s"
    and "\<forall>i s. sm_current_tick (run_between env i s) = sm_current_tick s"
    and "\<forall>j < n. \<not> stops env max_ticks j" "stops env max_ticks n" "n < 2 ^ 32"
  shows "(\<exists>s'. sim_run env max_ticks start s = Some (D n, s') \<and> sm_current_tick s' = sm_current_tick s + word_of_nat n)
    \<and> (\<forall>i < n. normalised (D (i + 1)) \<and> nanos (D i) + T \<le> nanos (D (i + 1)) \<and> nanos (run_now env i) - 3 * T \<le> nanos (D (i + 1))
         \<and> (if nanos (run_now env i) - (nanos (D i) + T) > 3 * T then D (i + 1) = run_now env i
            else nanos (D (i + 1)) = nanos (D i) + T))
    \<and> ((\<forall>i < n. nanos (run_now env i) \<le> nanos start + (int i + 4) * T) \<longrightarrow> nanos (D n) = nanos start + int n * T)"
proof -
  have T: "0 \<le> T" using assms(5) by (simp add: T_def tick_length_def cdiv_nonneg pos_imp_zdiv_nonneg_iff)
  have "sim_run env max_ticks start s = Some (rounds env T n (start, s))"
    using run_loop_rounds [OF assms(7,8) _ assms(9), of 0 T "(start, s)"] by (simp add: sim_run_def T_def)
  moreover have "sm_current_tick (snd (rounds env T n (start, s))) = sm_current_tick s + word_of_nat n"
    using rounds_ticks [OF assms(6), of T n "(start, s)"] by simp
  ultimately have run: "\<exists>s'. sim_run env max_ticks start s = Some (D n, s') \<and> sm_current_tick s' = sm_current_tick s + word_of_nat n"
    by (cases "rounds env T n (start, s)") (simp add: D_def)
  have step: "D (i + 1) = next_deadline T (run_now env i) (D i)" for i
    unfolding D_def Suc_eq_plus1 [symmetric] by (rule rounds_deadline)
  have norm: "normalised (D i)" for i unfolding D_def using rounds_normalised [of "(start, s)" env T i] assms(3,4) T by simp
  have late: "nanos (D i) + T \<le> nanos (D (i + 1)) \<and> nanos (run_now env i) - 3 * T \<le> nanos (D (i + 1))" for i
    using T unfolding step next_deadline_nanos by auto
  have exact: "if nanos (run_now env i) - (nanos (D i) + T) > 3 * T then D (i + 1) = run_now env i
      else nanos (D (i + 1)) = nanos (D i) + T" for i
    using next_deadline_resync [of T "run_now env i" "D i"] unfolding step by (simp add: next_deadline_nanos)
  have "nanos (fst (rounds env T n (start, s))) = nanos start + int n * T"
    if "\<forall>i < n. nanos (run_now env i) \<le> nanos start + (int i + 4) * T"
    using rounds_on_time [where st = "(start, s)" and tick_ns = T and env = env and n = n] that by simp
  then show ?thesis using run norm late exact unfolding D_def by blast
qed

text \<open>
  Two ticks of a fresh simulation whose clock reads three tick lengths past the deadline at the first
  round, which is not resynchronised, and one second at the second, which is.
\<close>

definition sample_run_env :: run_env where
  "sample_run_env = \<lparr>run_flag = (\<lambda>i. True),
     run_now = (\<lambda>i. if i = 0 then \<lparr>tv_sec = 0, tv_nsec = 133333332\<rparr> else \<lparr>tv_sec = int i, tv_nsec = 0\<rparr>),
     run_between = (\<lambda>i s. s), run_dir = (\<lambda>a. (0, 0))\<rparr>"

theorem run_keeps_pace_witness:
  "\<exists>s'. sim_run sample_run_env 2 \<lparr>tv_sec = 0, tv_nsec = 0\<rparr> (Sim InboundQueue OutboundQueue) = Some (\<lparr>tv_sec = 1, tv_nsec = 0\<rparr>, s')
     \<and> sm_current_tick s' = 2"
proof -
  let ?s = "Sim InboundQueue OutboundQueue" and ?t0 = "\<lparr>tv_sec = 0, tv_nsec = 0\<rparr>"
  have h: "normalised ?t0" "\<forall>i. normalised (run_now sample_run_env i)" "0 < sm_tick_hz ?s"
      "\<forall>i s. sm_current_tick (run_between sample_run_env i s) = sm_current_tick s"
    by (simp_all add: normalised_def sample_run_env_def Sim_def config_defs)
  have n: "\<forall>j < 2. \<not> stops sample_run_env 2 j" "stops sample_run_env 2 2" "(2::nat) < 2 ^ 32"
    by (auto simp: stops_def sample_run_env_def)
  have T: "sm_current_tick ?s = 0" "tick_length ?s = 33333333"
    by (simp_all add: Sim_def tick_length_def cdiv_nonneg config_defs)
  let ?D = "\<lambda>i. fst (rounds sample_run_env (tick_length ?s) i (?t0, ?s))"
  have now: "nanos (run_now sample_run_env 0) = 133333332" "run_now sample_run_env 1 = \<lparr>tv_sec = 1, tv_nsec = 0\<rparr>"
      "nanos (run_now sample_run_env 1) = 1000000000" "nanos (?D 0) = 0"
    by (simp_all add: nanos_def sample_run_env_def)
  note pace = run_keeps_pace [OF h n]
  have "nanos (?D 1) = 33333333" using pace now(1,4) T by (auto dest: spec [of _ 0])
  then have "?D 2 = \<lparr>tv_sec = 1, tv_nsec = 0\<rparr>" using pace now(2,3) T by (auto dest!: spec [of _ 1] simp: numeral_2_eq_2)
  then show ?thesis using pace T by auto
qed

end
