(* ===== verification/Command_Line.thy ===== *)
theory Command_Line
  imports Sim_Run
begin

text \<open>
  The command lines of \<open>server/main.cpp\<close>, \<open>client/main.cpp\<close> and \<open>bot/main.cpp\<close>, and how the server
  configures its simulation from them. The words after the program name are a list; an option that
  needs a value takes the next word, and one that has none left is skipped like any unknown word.
  \<open>--help\<close> and an illegal snapshot mode end the program with an exit code.

  The lemmas show that numbers are read back as they are printed, that a full command line sets
  exactly the values it names, and that no command line whatsoever makes the tick length undefined.
\<close>

section \<open>Numbers\<close>

definition is_space :: "char \<Rightarrow> bool" where
  "is_space c \<longleftrightarrow> c = CHR '' '' \<or> 9 \<le> (of_char c :: nat) \<and> (of_char c :: nat) \<le> 13"

definition is_digit :: "char \<Rightarrow> bool" where
  "is_digit c \<longleftrightarrow> 48 \<le> (of_char c :: nat) \<and> (of_char c :: nat) \<le> 57"

definition digit_value :: "char \<Rightarrow> int" where
  "digit_value c = int (of_char c) - 48"

text \<open>
  \<open>std::atoi\<close>: white space, an optional sign, then digits up to the first other character; no digits
  give 0. A number outside \<open>int\<close> is undefined in the language; here it wraps.
\<close>

definition read_digits :: "string \<Rightarrow> int" where
  "read_digits s = foldl (\<lambda>n c. 10 * n + digit_value c) 0 (takeWhile is_digit s)"

definition atoi :: "string \<Rightarrow> int" where
  "atoi s =
     (let s = dropWhile is_space s in
      to_i32 (case s of
        [] \<Rightarrow> 0
      | c # rest \<Rightarrow>
          if c = CHR ''-'' then - read_digits rest
          else if c = CHR ''+'' then read_digits rest
          else read_digits s))"

section \<open>The three command lines\<close>

datatype 'a parsed = Run 'a | Exit int

record server_args =
  sa_port :: u16
  sa_tick_rate :: int
  sa_snapshot_rate :: int
  sa_poller :: string
  sa_delta_snapshots :: bool

definition default_server_args :: server_args where
  "default_server_args = \<lparr>sa_port = 7777, sa_tick_rate = kTickRateHz, sa_snapshot_rate = kTickRateHz,
     sa_poller = ''poll'', sa_delta_snapshots = True\<rparr>"

abbreviation is_help :: "string \<Rightarrow> bool" where
  "is_help arg \<equiv> arg = ''--help'' \<or> arg = ''-h''"

fun parse_server :: "string list \<Rightarrow> server_args \<Rightarrow> server_args parsed" where
  "parse_server [] a = Run a"
| "parse_server [arg] a = (if is_help arg then Exit 0 else Run a)"
| "parse_server (arg # v # rest) a =
     (if arg = ''--port'' then parse_server rest (a\<lparr>sa_port := word_of_int (atoi v)\<rparr>)
      else if arg = ''--tick'' then parse_server rest (a\<lparr>sa_tick_rate := atoi v\<rparr>)
      else if arg = ''--snapshot-rate'' then parse_server rest (a\<lparr>sa_snapshot_rate := atoi v\<rparr>)
      else if arg = ''--poller'' then parse_server rest (a\<lparr>sa_poller := v\<rparr>)
      else if arg = ''--snapshots'' then
        (if v \<noteq> ''delta'' \<and> v \<noteq> ''full'' then Exit 1
         else parse_server rest (a\<lparr>sa_delta_snapshots := (v = ''delta'')\<rparr>))
      else if is_help arg then Exit 0
      else parse_server (v # rest) a)"

record client_args =
  cl_host :: string
  cl_port :: u16
  cl_name :: string

definition default_client_args :: client_args where
  "default_client_args = \<lparr>cl_host = ''127.0.0.1'', cl_port = 7777, cl_name = ''player''\<rparr>"

fun parse_client :: "string list \<Rightarrow> client_args \<Rightarrow> client_args parsed" where
  "parse_client [] a = Run a"
| "parse_client [arg] a = (if is_help arg then Exit 0 else Run a)"
| "parse_client (arg # v # rest) a =
     (if arg = ''--host'' then parse_client rest (a\<lparr>cl_host := v\<rparr>)
      else if arg = ''--port'' then parse_client rest (a\<lparr>cl_port := word_of_int (atoi v)\<rparr>)
      else if arg = ''--name'' then parse_client rest (a\<lparr>cl_name := v\<rparr>)
      else if is_help arg then Exit 0
      else parse_client (v # rest) a)"

record bot_args =
  bg_host :: string
  bg_port :: u16
  bg_count :: int

definition default_bot_args :: bot_args where
  "default_bot_args = \<lparr>bg_host = ''127.0.0.1'', bg_port = 7777, bg_count = 1\<rparr>"

fun parse_bot_words :: "string list \<Rightarrow> bot_args \<Rightarrow> bot_args parsed" where
  "parse_bot_words [] a = Run a"
| "parse_bot_words [arg] a = (if is_help arg then Exit 0 else Run a)"
| "parse_bot_words (arg # v # rest) a =
     (if arg = ''--host'' then parse_bot_words rest (a\<lparr>bg_host := v\<rparr>)
      else if arg = ''--port'' then parse_bot_words rest (a\<lparr>bg_port := word_of_int (atoi v)\<rparr>)
      else if arg = ''--count'' then parse_bot_words rest (a\<lparr>bg_count := atoi v\<rparr>)
      else if is_help arg then Exit 0
      else parse_bot_words (v # rest) a)"

definition parse_bot :: "string list \<Rightarrow> bot_args \<Rightarrow> bot_args parsed" where
  "parse_bot argv a =
     (case parse_bot_words argv a of
        Exit n \<Rightarrow> Exit n
      | Run a \<Rightarrow> Run (if bg_count a < 1 then a\<lparr>bg_count := 1\<rparr> else a))"

section \<open>Wiring of the server\<close>

datatype poller_kind = PollKind | EpollKind

definition chosen_poller :: "server_args \<Rightarrow> poller_kind" where
  "chosen_poller a = (if sa_poller a = ''epoll'' then EpollKind else PollKind)"

definition configured_sim :: "server_args \<Rightarrow> int \<Rightarrow> sim" where
  "configured_sim a wake =
     set_delta_snapshots (sa_delta_snapshots a) (set_snapshot_rate (sa_snapshot_rate a)
       (set_tick_rate (sa_tick_rate a) (set_wake_fd wake (Sim InboundQueue OutboundQueue))))"

section \<open>Printing and reading numbers\<close>

fun dec_nat :: "nat \<Rightarrow> string" where
  "dec_nat n = (if n < 10 then [char_of (48 + n)] else dec_nat (n div 10) @ [char_of (48 + n mod 10)])"

declare dec_nat.simps [simp del]

definition dec_int :: "int \<Rightarrow> string" where
  "dec_int n = (if n < 0 then CHR ''-'' # dec_nat (nat (- n)) else dec_nat (nat n))"

lemma digit_char: "d < 10 \<Longrightarrow> is_digit (char_of (48 + d)) \<and> digit_value (char_of (48 + d)) = int d" for d :: nat
  by (simp add: is_digit_def digit_value_def)

lemma dec_nat_read:
  "list_all is_digit (dec_nat n) \<and> dec_nat n \<noteq> [] \<and> foldl (\<lambda>n c. 10 * n + digit_value c) 0 (dec_nat n) = int n"
proof (induction n rule: dec_nat.induct)
  case (1 n)
  have split: "10 * int (n div 10) + int (n mod 10) = int n" by presburger
  show ?case
  proof (cases "n < 10")
    case True
    then show ?thesis using digit_char [of n] by (subst (1 2 3) dec_nat.simps) simp
  next
    case False
    then show ?thesis using 1 digit_char [of "n mod 10"] split by (subst (1 2 3) dec_nat.simps) simp
  qed
qed

lemma read_dec_nat: "read_digits (dec_nat n) = int n"
  using dec_nat_read [of n] by (simp add: read_digits_def list_all_iff takeWhile_eq_all_conv [THEN iffD2])

lemma digit_no_sign: "is_digit c \<Longrightarrow> \<not> is_space c \<and> c \<noteq> CHR ''-'' \<and> c \<noteq> CHR ''+''"
  by (auto simp: is_digit_def is_space_def)

lemma atoi_dec_int: "in_i32 n \<Longrightarrow> atoi (dec_int n) = n"
proof -
  assume n: "in_i32 n"
  obtain c rest where dec: "dec_nat (nat n) = c # rest" "is_digit c"
    using dec_nat_read [of "nat n"] by (cases "dec_nat (nat n)") auto
  have "\<not> is_space (CHR ''-'')" by (simp add: is_space_def)
  then show ?thesis
    using n dec digit_no_sign [OF dec(2)] read_dec_nat [of "nat n"] read_dec_nat [of "nat (- n)"]
    by (cases "n < 0") (simp_all add: atoi_def dec_int_def)
qed

section \<open>Properties\<close>

text \<open>
  A server command line is read as it was written. For every port, rates within
  \<open>int\<close>, poller name and snapshot mode, parsing the options with their decimal values gives exactly
  these settings, whatever words that are no options stand before them.
\<close>

lemma server_command_line_roundtrip:
  assumes "in_i32 t" "in_i32 r" "\<forall>w \<in> set words. w \<notin> {''--port'', ''--tick'', ''--snapshot-rate'', ''--poller'', ''--snapshots'', ''--help'', ''-h''}"
  shows "parse_server (words @ [''--port'', dec_int (uint p), ''--tick'', dec_int t, ''--snapshot-rate'', dec_int r,
      ''--poller'', name, ''--snapshots'', if d then ''delta'' else ''full'']) a
    = Run \<lparr>sa_port = p, sa_tick_rate = t, sa_snapshot_rate = r, sa_poller = name, sa_delta_snapshots = d\<rparr>"
proof -
  have skip: "parse_server (ws @ x # xs) a = parse_server (x # xs) a"
    if "\<forall>w \<in> set ws. w \<notin> {''--port'', ''--tick'', ''--snapshot-rate'', ''--poller'', ''--snapshots'', ''--help'', ''-h''}" for ws x xs
    using that
  proof (induction ws)
    case (Cons w ws)
    obtain v rest where "ws @ x # xs = v # rest" by (cases "ws @ x # xs") auto
    then show ?case using Cons by simp
  qed simp
  have small: "in_i32 q" if "0 \<le> q" "q < 2 ^ 16" for q :: int using that by (simp add: in_i32_def)
  have "in_i32 (uint p)" using uint_lt2p [of p] by (intro small) simp_all
  then have port: "word_of_int (atoi (dec_int (uint p))) = p" by (simp add: atoi_dec_int)
  show ?thesis unfolding skip [OF assms(3)] using atoi_dec_int [OF assms(1)] atoi_dec_int [OF assms(2)] port
    by (cases a) simp
qed

text \<open>
  Whatever the command line, the simulation starts with positive rates: the division that gives the
  tick length is defined, and the pacing lemmas apply.
\<close>

lemma any_command_line_has_rates: "0 < sm_tick_hz (configured_sim a wake) \<and> 0 < sm_snapshot_hz (configured_sim a wake)"
  by (simp add: configured_sim_def set_delta_snapshots_def set_snapshot_rate_def set_tick_rate_def set_wake_fd_def config_defs)

lemma configured_reachable: "sim_reachable dir (configured_sim a wake)"
proof -
  have "configured_sim a wake = set_wake_fd wake (set_tick_rate (sa_tick_rate a) (set_snapshot_rate (sa_snapshot_rate a)
      (set_delta_snapshots (sa_delta_snapshots a) (Sim InboundQueue OutboundQueue))))"
    by (simp add: configured_sim_def set_delta_snapshots_def set_snapshot_rate_def set_tick_rate_def set_wake_fd_def)
  then show ?thesis using sim_reachable.configured [OF sim_reachable.start] by simp
qed

text \<open>A bot program always runs at least one bot.\<close>

lemma bot_count_positive: "parse_bot argv a = Run b \<Longrightarrow> 1 \<le> bg_count b"
  by (auto simp: parse_bot_def split: parsed.splits if_splits)

end
