(* ===== verification/Render.thy ===== *)
theory Render
  imports Render_Policy Prediction Net_Client Command_Line Sim_Publish
begin

text \<open>
  \<open>client/render.h\<close> and \<open>client/render.cpp\<close>: what the renderer remembers between frames and what it
  draws. The graphics library is outside the repository; a frame is the list of the calls it makes,
  and what it asks the library (screen size, text width, keys, time) is the record \<open>display\<close>. Colours
  are the arguments as written: components, a named colour of the library, or a faded one. Texts are
  formatted as \<open>snprintf\<close> formats them, cut at the size of the buffer; the formatting of a \<open>double\<close>
  is a parameter.

  The lemmas show that old tracers and messages disappear and young ones stay, that every player
  of the snapshot is drawn once, where the policy says, and that a dropped flag is drawn where its
  last announcement placed it.
\<close>

section \<open>The graphics library\<close>

datatype color = Rgba int int int int | Named string | Fade color rat

type_synonym point = "rat \<times> rat"

datatype draw_call =
    BeginDrawing
  | EndDrawing
  | ClearBackground color
  | DrawRectangle int int int int color
  | DrawRectangleLines int int int int color
  | DrawRectangleLinesEx rat rat rat rat rat color
  | DrawLineEx point point rat color
  | DrawTriangle point point point color
  | DrawTriangleLines point point point color
  | DrawText string int int int color

record display =
  ds_width :: int
  ds_height :: int
  ds_measure :: "string \<Rightarrow> int \<Rightarrow> int"
  ds_f1 :: bool
  ds_f2 :: bool
  ds_f3 :: bool
  ds_now_tracers :: rat
  ds_now_messages :: rat
  ds_rnd64 :: rounding
  ds_fixed :: "nat \<Rightarrow> rat \<Rightarrow> string"

section \<open>Shapes\<close>

definition team_color :: "team \<Rightarrow> color" where
  "team_color t = (if t = Red then Rgba 200 40 40 255 else Rgba 40 90 220 255)"

definition draw_player_box :: "float_lib \<Rightarrow> vec2 \<Rightarrow> team \<Rightarrow> bool \<Rightarrow> bool \<Rightarrow> draw_call list" where
  "draw_player_box fl pos team alive is_local =
     (let x = truncate_rat (to_px fl (vx pos));
          y = truncate_rat (to_px fl (vy pos));
          size = kPlayerSizePx;
          c = team_color team;
          c = (if \<not> alive then Fade c (f_rnd fl (35 / 100)) else c)
      in [DrawRectangle x y size size c] @
         (if is_local then [DrawRectangleLines (x - 2) (y - 2) (size + 4) (size + 4) (Named ''WHITE'')] else []))"

definition box_center :: "float_lib \<Rightarrow> vec2 \<Rightarrow> point" where
  "box_center fl pos = (f_rnd fl (to_px fl (vx pos) + of_int kPlayerSizePx / 2), f_rnd fl (to_px fl (vy pos) + of_int kPlayerSizePx / 2))"

definition draw_aim_indicator :: "float_lib \<Rightarrow> vec2 \<Rightarrow> u16 \<Rightarrow> draw_call list" where
  "draw_aim_indicator fl pos aim =
     (let (cx, cy) = box_center fl pos;
          pi_f = f_rnd fl (314159265358979323846 / 100000000000000000000);
          radians = f_rnd fl (f_rnd fl (f_rnd fl (of_nat (unat aim) / 65536) * 2) * pi_f);
          len = f_rnd fl (of_int kPlayerSizePx * f_rnd fl (9 / 10))
      in [DrawLineEx (cx, cy)
            (f_rnd fl (cx + f_rnd fl (len * f_cos fl radians)), f_rnd fl (cy + f_rnd fl (len * f_sin fl radians)))
            2 (Named ''YELLOW'')])"

definition draw_health_bar :: "float_lib \<Rightarrow> vec2 \<Rightarrow> u8 \<Rightarrow> draw_call list" where
  "draw_health_bar fl pos health =
     (let x = truncate_rat (to_px fl (vx pos));
          y = truncate_rat (f_rnd fl (to_px fl (vy pos) - 6));
          w = kPlayerSizePx;
          frac = f_rnd fl (of_nat (unat health) / of_int kMaxHealth)
      in [DrawRectangle x y w 3 (Named ''DARKGRAY''),
          DrawRectangle x y (truncate_rat (f_rnd fl (of_int w * frac))) 3 (Named ''GREEN'')])"

definition draw_map_walls :: "draw_call list" where
  "draw_map_walls = concat (map (\<lambda>ty. concat (map (\<lambda>tx.
     if is_wall tx ty then [DrawRectangle (tx * kTileSizePx) (ty * kTileSizePx) kTileSizePx kTileSizePx (Named ''GRAY'')] else [])
       [0..kMapWidthTiles - 1])) [0..kMapHeightTiles - 1])"

definition draw_flag :: "float_lib \<Rightarrow> vec2 \<Rightarrow> team \<Rightarrow> draw_call list" where
  "draw_flag fl pos team =
     (let (cx, cy) = box_center fl pos;
          c = team_color team;
          pole_top = f_rnd fl (cy - 16);
          pole_bottom = f_rnd fl (cy + 12);
          a = (f_rnd fl (cx - 6), pole_top);
          b = (f_rnd fl (cx - 6), f_rnd fl (pole_top + 12));
          d = (f_rnd fl (cx + 10), f_rnd fl (pole_top + 6))
      in [DrawLineEx a (f_rnd fl (cx - 6), pole_bottom) 2 (Named ''WHITE''),
          DrawTriangle a b d c,
          DrawTriangleLines a b d (Named ''WHITE'')])"

section \<open>The renderer\<close>

record tracer =
  tr_origin :: vec2
  tr_hit_point :: vec2
  tr_spawn_time :: rat

record game_message =
  gm_text :: string
  gm_spawn_time :: rat

record renderer =
  rr_initialized :: bool
  rr_prediction_enabled :: bool
  rr_interpolation_enabled :: bool
  rr_show_server_ghost :: bool
  rr_dropped_flag_pos_red :: vec2
  rr_dropped_flag_pos_blue :: vec2
  rr_tracers :: "tracer list"
  rr_messages :: "game_message list"

definition Renderer :: renderer where
  "Renderer = \<lparr>rr_initialized = False, rr_prediction_enabled = True, rr_interpolation_enabled = True, rr_show_server_ghost = False,
     rr_dropped_flag_pos_red = Vec2Fixed 0 0, rr_dropped_flag_pos_blue = Vec2Fixed 0 0, rr_tracers = [], rr_messages = []\<rparr>"

definition renderer_init :: "bool \<Rightarrow> renderer \<Rightarrow> bool \<times> renderer" where
  "renderer_init window_ready rr = (if \<not> window_ready then (False, rr) else (True, rr\<lparr>rr_initialized := True\<rparr>))"

definition renderer_shutdown :: "renderer \<Rightarrow> renderer" where
  "renderer_shutdown rr = (if rr_initialized rr then rr\<lparr>rr_initialized := False\<rparr> else rr)"

definition should_close :: "bool \<Rightarrow> renderer \<Rightarrow> bool" where
  "should_close window_should_close rr \<longleftrightarrow> \<not> rr_initialized rr \<or> window_should_close"

definition kTracerLifetimeSec :: "rounding \<Rightarrow> rat" where "kTracerLifetimeSec rnd = rnd (1 / 10)"
definition kMessageLifetimeSec :: rat where "kMessageLifetimeSec = 4"

definition add_message :: "string \<Rightarrow> rat \<Rightarrow> renderer \<Rightarrow> renderer" where
  "add_message txt now rr = rr\<lparr>rr_messages := rr_messages rr @ [\<lparr>gm_text = txt, gm_spawn_time = now\<rparr>]\<rparr>"

definition on_event :: "rat \<Rightarrow> game_event \<Rightarrow> renderer \<Rightarrow> renderer" where
  "on_event now ev rr =
     (case ev of
        EvFlagDropped m \<Rightarrow>
          add_message ''Flag dropped!'' now
            (if fd_flag_team m = Red then rr\<lparr>rr_dropped_flag_pos_red := fd_position m\<rparr>
             else rr\<lparr>rr_dropped_flag_pos_blue := fd_position m\<rparr>)
      | EvShotFired m \<Rightarrow>
          rr\<lparr>rr_tracers := rr_tracers rr @ [\<lparr>tr_origin = sf_origin m, tr_hit_point = sf_hit_point m, tr_spawn_time = now\<rparr>]\<rparr>
      | EvPlayerKilled m \<Rightarrow>
          add_message (take 63 (''Player '' @ dec_nat (unat (pk_victim_id m)) @ '' killed by '' @ dec_nat (unat (pk_killer_id m)))) now rr
      | EvFlagCaptured m \<Rightarrow> add_message ''FLAG CAPTURED!'' now rr
      | EvFlagReturned m \<Rightarrow> add_message ''Flag returned to base'' now rr
      | EvFlagPickedUp m \<Rightarrow> add_message ''Flag picked up!'' now rr
      | _ \<Rightarrow> rr)"

section \<open>A frame\<close>

definition draw_waiting_screen :: "display \<Rightarrow> string option \<Rightarrow> string option \<Rightarrow> renderer \<Rightarrow> draw_call list" where
  "draw_waiting_screen ds line1 line2 rr =
     (if \<not> rr_initialized rr then []
      else
        [BeginDrawing, ClearBackground (Rgba 20 20 24 255)] @
        (case line1 of
           None \<Rightarrow> []
         | Some l \<Rightarrow> [DrawText l (cdiv (ds_width ds - ds_measure ds l 24) 2) (cdiv (ds_height ds) 2 - 20) 24 (Named ''RAYWHITE'')]) @
        (case line2 of
           None \<Rightarrow> []
         | Some l \<Rightarrow> [DrawText l (cdiv (ds_width ds - ds_measure ds l 18) 2) (cdiv (ds_height ds) 2 + 14) 18 (Named ''LIGHTGRAY'')]) @
        [EndDrawing])"

definition toggle_keys :: "display \<Rightarrow> renderer \<Rightarrow> renderer" where
  "toggle_keys ds rr =
     (let rr = (if ds_f1 ds then rr\<lparr>rr_prediction_enabled := \<not> rr_prediction_enabled rr\<rparr> else rr);
          rr = (if ds_f2 ds then rr\<lparr>rr_interpolation_enabled := \<not> rr_interpolation_enabled rr\<rparr> else rr)
      in if ds_f3 ds then rr\<lparr>rr_show_server_ghost := \<not> rr_show_server_ghost rr\<rparr> else rr)"

definition draw_base :: "float_lib \<Rightarrow> vec2 \<Rightarrow> team \<Rightarrow> string \<Rightarrow> int \<Rightarrow> draw_call list" where
  "draw_base fl base team label inset =
     (let zone = kTileSizePx * 3;
          half = cdiv zone 2;
          x = truncate_rat (f_rnd fl (fst (box_center fl base) - of_int half));
          y = truncate_rat (f_rnd fl (snd (box_center fl base) - of_int half))
      in [DrawRectangle x y zone zone (Fade (team_color team) (f_rnd fl (25 / 100))),
          DrawRectangleLines x y zone zone (Fade (team_color team) (f_rnd fl (6 / 10))),
          DrawText label (x + inset) (y + zone + 4) 14 (Fade (team_color team) (f_rnd fl (8 / 10)))])"

definition draw_flags :: "float_lib \<Rightarrow> world_snapshot \<Rightarrow> renderer \<Rightarrow> draw_call list" where
  "draw_flags fl latest rr =
     draw_flag fl (resolve_flag_position (flag_state_red latest) (flag_carrier_red latest) latest kRedBasePosition
       (rr_dropped_flag_pos_red rr)) Red @
     draw_flag fl (resolve_flag_position (flag_state_blue latest) (flag_carrier_blue latest) latest kBlueBasePosition
       (rr_dropped_flag_pos_blue rr)) Blue"

text \<open>What is drawn for a player at a position: the box, and for the living aim, health and a carried flag.\<close>

definition draw_figure :: "float_lib \<Rightarrow> vec2 \<Rightarrow> bool \<Rightarrow> player_state \<Rightarrow> draw_call list" where
  "draw_figure fl pos is_local p =
     draw_player_box fl pos (ps_team p) (ps_alive p) is_local @
     (if ps_alive p then
        draw_aim_indicator fl pos (ps_aim_angle p) @ draw_health_bar fl pos (ps_health p) @
        (if ps_carrying_flag p then draw_flag fl pos (if ps_team p = Red then Blue else Red) else [])
      else [])"

definition draw_player :: "float_lib \<Rightarrow> rounding \<Rightarrow> u8 \<Rightarrow> prediction \<Rightarrow> interpolation \<Rightarrow> renderer \<Rightarrow> player_state \<Rightarrow> draw_call list" where
  "draw_player fl rnd my_id pd ip rr raw =
     (if ps_id raw = my_id then
        let pos = resolve_local_position (rr_prediction_enabled rr) (position (pd_local_state pd)) (position (ps_motion raw))
        in draw_figure fl pos True raw @
           (if rr_show_server_ghost rr then
              [DrawRectangleLinesEx (to_px fl (vx (position (ps_motion raw)))) (to_px fl (vy (position (ps_motion raw))))
                 (of_int kPlayerSizePx) (of_int kPlayerSizePx) 2 (Fade (Named ''WHITE'') (1 / 2))]
            else [])
      else
        let shown = resolve_remote_state rnd (rr_interpolation_enabled rr) raw ip
        in draw_figure fl (position (ps_motion shown)) False shown)"

definition tracer_age :: "display \<Rightarrow> tracer \<Rightarrow> rat" where
  "tracer_age ds t = ds_rnd64 ds (ds_now_tracers ds - tr_spawn_time t)"

definition draw_tracer :: "float_lib \<Rightarrow> display \<Rightarrow> tracer \<Rightarrow> draw_call list" where
  "draw_tracer fl ds t =
     (let age = tracer_age ds t;
          alpha = f_rnd fl (1 - f_rnd fl (ds_rnd64 ds (age / kTracerLifetimeSec (ds_rnd64 ds))))
      in [DrawLineEx (to_px fl (vx (tr_origin t)), to_px fl (vy (tr_origin t)))
            (to_px fl (vx (tr_hit_point t)), to_px fl (vy (tr_hit_point t))) 2 (Fade (Named ''YELLOW'') alpha)])"

text \<open>The loop over the tracers: a young one is drawn and moved to the next free place, an old one skipped.\<close>

primrec tracer_loop :: "float_lib \<Rightarrow> display \<Rightarrow> tracer list \<Rightarrow> draw_call list \<times> tracer list" where
  "tracer_loop fl ds [] = ([], [])"
| "tracer_loop fl ds (t # ts) =
     (if tracer_age ds t \<ge> kTracerLifetimeSec (ds_rnd64 ds) then tracer_loop fl ds ts
      else let (calls, kept) = tracer_loop fl ds ts in (draw_tracer fl ds t @ calls, t # kept))"

definition two_digits :: "nat \<Rightarrow> string" where
  "two_digits n = (if n < 10 then ''0'' @ dec_nat n else dec_nat n)"

definition score_text :: "world_snapshot \<Rightarrow> string" where
  "score_text latest = take 63 (''RED '' @ dec_nat (unat (score_red latest)) @ '' - '' @ dec_nat (unat (score_blue latest)) @ '' BLUE   '' @
     dec_nat (unat (seconds_remaining latest) div 60) @ '':'' @ two_digits (unat (seconds_remaining latest) mod 60))"

definition carrying_prompt :: string where
  "carrying_prompt = ''CARRYING FLAG - Return to your base!''"

definition draw_arrow :: "float_lib \<Rightarrow> point \<Rightarrow> point \<Rightarrow> draw_call list" where
  "draw_arrow fl = (\<lambda>(px, py) (bx, by).
     let r = f_rnd fl;
         dx = r (bx - px);
         dy = r (by - py);
         dist = f_sqrt fl (r (r (dx * dx) + r (dy * dy)))
     in if dist > 20 then
          let nx = r (dx / dist);
              ny = r (dy / dist);
              arrow_len = 40;
              ax = r (px + r (nx * 30));
              ay = r (py + r (ny * 30));
              head = 8;
              tip = (r (ax + r (nx * arrow_len)), r (ay + r (ny * arrow_len)))
          in [DrawLineEx (ax, ay) tip 3 (Named ''YELLOW''),
              DrawLineEx tip (r (r (ax + r (nx * (arrow_len - head))) - r (ny * head)), r (r (ay + r (ny * (arrow_len - head))) + r (nx * head)))
                3 (Named ''YELLOW''),
              DrawLineEx tip (r (r (ax + r (nx * (arrow_len - head))) + r (ny * head)), r (r (ay + r (ny * (arrow_len - head))) - r (nx * head)))
                3 (Named ''YELLOW'')]
        else [])"

definition draw_carrying :: "float_lib \<Rightarrow> display \<Rightarrow> world_snapshot \<Rightarrow> u8 \<Rightarrow> draw_call list" where
  "draw_carrying fl ds latest my_id =
     (case find_snap_player latest my_id of
        None \<Rightarrow> []
      | Some self \<Rightarrow>
          if ps_carrying_flag self then
            [DrawText carrying_prompt (cdiv (ds_width ds) 2 - cdiv (ds_measure ds carrying_prompt 20) 2) 36 20 (Named ''YELLOW'')] @
            draw_arrow fl (box_center fl (position (ps_motion self)))
              (box_center fl (if ps_team self = Red then kRedBasePosition else kBlueBasePosition))
          else [])"

record hud_metrics =
  hm_rtt_ms :: rat
  hm_unacked_input_count :: u32
  hm_misprediction_rate :: rat
  hm_snapshot_buffer_depth :: u32
  hm_actual_tick_rate_hz :: rat

definition on_off :: "bool \<Rightarrow> string" where
  "on_off b = (if b then ''ON'' else ''OFF'')"

definition hud_text :: "display \<Rightarrow> hud_metrics \<Rightarrow> renderer \<Rightarrow> string" where
  "hud_text ds hud rr = take 191 (
     ''RTT '' @ ds_fixed ds 0 (hm_rtt_ms hud) @ ''ms  unacked '' @ dec_nat (unat (hm_unacked_input_count hud)) @
     ''  mispred '' @ ds_fixed ds 1 (ds_rnd64 ds (hm_misprediction_rate hud * 100)) @ ''%  snapbuf '' @
     dec_nat (unat (hm_snapshot_buffer_depth hud)) @ ''  tick '' @ ds_fixed ds 1 (hm_actual_tick_rate_hz hud) @ ''Hz'' @ [CHR 0x0A] @
     ''[F1] prediction: '' @ on_off (rr_prediction_enabled rr) @ ''   [F2] interpolation: '' @ on_off (rr_interpolation_enabled rr) @
     ''   [F3] ghost: '' @ on_off (rr_show_server_ghost rr))"

definition message_age :: "display \<Rightarrow> game_message \<Rightarrow> rat" where
  "message_age ds m = ds_rnd64 ds (ds_now_messages ds - gm_spawn_time m)"

primrec message_loop :: "float_lib \<Rightarrow> display \<Rightarrow> int \<Rightarrow> game_message list \<Rightarrow> draw_call list \<times> game_message list" where
  "message_loop fl ds msg_y [] = ([], [])"
| "message_loop fl ds msg_y (m # ms) =
     (let age = message_age ds m in
      if age \<ge> kMessageLifetimeSec then message_loop fl ds msg_y ms
      else
        let alpha = (if age < kMessageLifetimeSec - 1 / 2 then 1
                     else f_rnd fl (ds_rnd64 ds (ds_rnd64 ds (kMessageLifetimeSec - age) / (1 / 2))));
            (calls, kept) = message_loop fl ds (msg_y + 18) ms
        in (DrawText (gm_text m) 12 msg_y 16 (Fade (Named ''YELLOW'') alpha) # calls, m # kept))"

definition draw_frame ::
  "float_lib \<Rightarrow> rounding \<Rightarrow> display \<Rightarrow> world_snapshot \<Rightarrow> u8 \<Rightarrow> prediction \<Rightarrow> interpolation \<Rightarrow> hud_metrics \<Rightarrow> renderer
    \<Rightarrow> draw_call list \<times> renderer" where
  "draw_frame fl rnd ds latest my_id pd ip hud rr =
     (if \<not> rr_initialized rr then ([], rr)
      else
        let rr = toggle_keys ds rr;
            players = concat (map (draw_player fl rnd my_id pd ip rr) (take (unat (player_count latest)) (snap_players latest)));
            (tracers, kept_tracers) = tracer_loop fl ds (rr_tracers rr);
            (messages, kept_messages) = message_loop fl ds 60 (rr_messages rr)
        in ([BeginDrawing, ClearBackground (Rgba 20 20 24 255)] @ draw_map_walls @
            draw_base fl kRedBasePosition Red ''RED BASE'' 8 @ draw_base fl kBlueBasePosition Blue ''BLUE BASE'' 4 @
            draw_flags fl latest rr @ players @ tracers @
            [DrawText (score_text latest) 12 8 20 (Named ''RAYWHITE'')] @
            draw_carrying fl ds latest my_id @
            [DrawText (hud_text ds hud rr) 12 (kMapHeightPx - 44) 16 (Named ''RAYWHITE'')] @
            messages @ [EndDrawing],
            rr\<lparr>rr_tracers := kept_tracers, rr_messages := kept_messages\<rparr>))"

section \<open>Lemmas\<close>

lemma tracer_loop_result:
  "tracer_loop fl ds ts = (concat (map (draw_tracer fl ds) (filter (\<lambda>t. tracer_age ds t < kTracerLifetimeSec (ds_rnd64 ds)) ts)),
     filter (\<lambda>t. tracer_age ds t < kTracerLifetimeSec (ds_rnd64 ds)) ts)"
  by (induction ts) (simp_all add: Let_def not_less)

lemma message_loop_kept: "snd (message_loop fl ds y ms) = filter (\<lambda>m. message_age ds m < kMessageLifetimeSec) ms"
  by (induction ms arbitrary: y) (simp_all add: Let_def not_less case_prod_beta)

lemma message_loop_drawn:
  "map (\<lambda>c. case c of DrawText txt x y sz col \<Rightarrow> (txt, x, y)) (fst (message_loop fl ds y ms))
    = map (\<lambda>im. (gm_text (snd im), 12, y + 18 * int (fst im))) (enumerate 0 (filter (\<lambda>m. message_age ds m < kMessageLifetimeSec) ms))"
proof (induction ms arbitrary: y)
  case (Cons m ms)
  have "map (\<lambda>im. (gm_text (snd im), 12 :: int, y + 18 + 18 * int (fst im))) (enumerate 0 xs)
      = map (\<lambda>im. (gm_text (snd im), 12, y + 18 * int (fst im))) (enumerate (Suc 0) xs)" for xs :: "game_message list"
    by (rule nth_equalityI) (simp_all add: nth_enumerate_eq)
  then show ?case using Cons [of "y + 18"] Cons [of y] by (simp add: Let_def not_less case_prod_beta)
qed simp

text \<open>The boxes of the players are the only rectangles of their size.\<close>

definition is_box :: "draw_call \<Rightarrow> bool" where
  "is_box c = (case c of DrawRectangle x y w h col \<Rightarrow> w = kPlayerSizePx \<and> h = kPlayerSizePx | _ \<Rightarrow> False)"

definition box_at :: "float_lib \<Rightarrow> vec2 \<Rightarrow> player_state \<Rightarrow> draw_call" where
  "box_at fl pos p = DrawRectangle (truncate_rat (to_px fl (vx pos))) (truncate_rat (to_px fl (vy pos))) kPlayerSizePx kPlayerSizePx
     (if ps_alive p then team_color (ps_team p) else Fade (team_color (ps_team p)) (f_rnd fl (35 / 100)))"

lemma filter_box_figure: "filter is_box (draw_figure fl pos l p) = [box_at fl pos p]"
  by (simp add: draw_figure_def draw_player_box_def draw_aim_indicator_def draw_health_bar_def draw_flag_def box_at_def
      is_box_def Let_def kPlayerSizePx_def case_prod_beta)

lemma filter_concat_map: "filter P (concat (map f xs)) = concat (map (\<lambda>x. filter P (f x)) xs)"
  by (simp add: filter_concat comp_def)

lemma no_boxes:
  "filter is_box draw_map_walls = []" "filter is_box (draw_base fl b t l n) = []" "filter is_box (draw_flags fl latest rr) = []"
  "filter is_box (fst (tracer_loop fl ds ts)) = []" "filter is_box (draw_carrying fl ds latest me) = []"
  "filter is_box (fst (message_loop fl ds y ms)) = []"
proof -
  show "filter is_box draw_map_walls = []"
    by (simp add: draw_map_walls_def filter_concat_map is_box_def config_defs if_distrib [of "filter is_box"] cong: if_cong)
  show "filter is_box (draw_base fl b t l n) = []" by (simp add: draw_base_def Let_def is_box_def config_defs)
  show "filter is_box (draw_flags fl latest rr) = []" by (simp add: draw_flags_def draw_flag_def Let_def is_box_def case_prod_beta)
  show "filter is_box (fst (tracer_loop fl ds ts)) = []"
    by (simp add: tracer_loop_result filter_concat_map draw_tracer_def Let_def is_box_def)
  show "filter is_box (draw_carrying fl ds latest me) = []"
    by (simp add: draw_carrying_def draw_arrow_def Let_def is_box_def case_prod_beta split: option.split)
  show "filter is_box (fst (message_loop fl ds y ms)) = []"
    by (induction ms arbitrary: y) (simp_all add: Let_def is_box_def case_prod_beta)
qed

section \<open>Properties\<close>

text \<open>
  C29 (functional): a frame shows every player exactly once. The boxes that a frame draws are, in
  the order of the snapshot, one for each of its players: the own player at the predicted position
  (or the server's, after F1), every other one at the interpolated state (or the server's, after
  F2). A dead player gets its box too, faded, although \<open>docs/README.md\<close> (7.4) says that dead players
  are not rendered. Tracers and messages that have reached their lifetime are forgotten, the others
  kept in order.
\<close>

theorem frame_shows_every_player:
  fixes rr :: renderer and ds :: display
  defines "rr' \<equiv> toggle_keys ds rr"
  assumes "rr_initialized rr" "draw_frame fl rnd ds latest me pd ip hud rr = (calls, final)"
  shows "filter is_box calls = map (\<lambda>raw.
        if ps_id raw = me then box_at fl (if rr_prediction_enabled rr' then position (pd_local_state pd) else position (ps_motion raw)) raw
        else let shown = resolve_remote_state rnd (rr_interpolation_enabled rr') raw ip in box_at fl (position (ps_motion shown)) shown)
      (take (unat (player_count latest)) (snap_players latest))
    \<and> rr_tracers final = filter (\<lambda>t. tracer_age ds t < kTracerLifetimeSec (ds_rnd64 ds)) (rr_tracers rr)
    \<and> rr_messages final = filter (\<lambda>m. message_age ds m < kMessageLifetimeSec) (rr_messages rr)"
proof -
  have keep: "rr_tracers rr' = rr_tracers rr" "rr_messages rr' = rr_messages rr" by (simp_all add: rr'_def toggle_keys_def Let_def)
  have player: "filter is_box (draw_player fl rnd me pd ip rr' raw) = [if ps_id raw = me
        then box_at fl (if rr_prediction_enabled rr' then position (pd_local_state pd) else position (ps_motion raw)) raw
        else let shown = resolve_remote_state rnd (rr_interpolation_enabled rr') raw ip in box_at fl (position (ps_motion shown)) shown]" for raw
    by (simp add: draw_player_def filter_box_figure resolve_local_position_def Let_def) (simp add: is_box_def)
  have dr: "draw_frame fl rnd ds latest me pd ip hud rr = (let (tracers, kept_tracers) = tracer_loop fl ds (rr_tracers rr');
      (messages, kept_messages) = message_loop fl ds 60 (rr_messages rr') in
      ([BeginDrawing, ClearBackground (Rgba 20 20 24 255)] @ draw_map_walls @
            draw_base fl kRedBasePosition Red ''RED BASE'' 8 @ draw_base fl kBlueBasePosition Blue ''BLUE BASE'' 4 @
            draw_flags fl latest rr' @ concat (map (draw_player fl rnd me pd ip rr') (take (unat (player_count latest)) (snap_players latest)))
            @ tracers @ [DrawText (score_text latest) 12 8 20 (Named ''RAYWHITE'')] @ draw_carrying fl ds latest me @
            [DrawText (hud_text ds hud rr') 12 (kMapHeightPx - 44) 16 (Named ''RAYWHITE'')] @ messages @ [EndDrawing],
            rr'\<lparr>rr_tracers := kept_tracers, rr_messages := kept_messages\<rparr>))"
    using assms(2) by (simp add: draw_frame_def rr'_def Let_def)
  have calls: "filter is_box calls = filter is_box (concat (map (draw_player fl rnd me pd ip rr') (take (unat (player_count latest)) (snap_players latest))))"
    using assms(3) no_boxes by (auto simp: dr case_prod_beta is_box_def)
  have "rr_tracers final = snd (tracer_loop fl ds (rr_tracers rr'))" "rr_messages final = snd (message_loop fl ds 60 (rr_messages rr'))"
    using assms(3) by (auto simp: dr case_prod_beta)
  then show ?thesis by (simp add: calls filter_concat_map player tracer_loop_result message_loop_kept keep)
qed

definition sample_display :: display where
  "sample_display = \<lparr>ds_width = 1280, ds_height = 800, ds_measure = (\<lambda>txt size. size * int (length txt)), ds_f1 = True, ds_f2 = False, ds_f3 = False,
     ds_now_tracers = 1, ds_now_messages = 1, ds_rnd64 = (\<lambda>x. x), ds_fixed = (\<lambda>n x. ''0'')\<rparr>"

definition sample_hud :: hud_metrics where
  "sample_hud = \<lparr>hm_rtt_ms = 0, hm_unacked_input_count = 0, hm_misprediction_rate = 0, hm_snapshot_buffer_depth = 0, hm_actual_tick_rate_hz = 30\<rparr>"

text \<open>After F1 the own player, who carries the id 0 of the default state, is drawn at the position of the snapshot.\<close>

theorem frame_shows_every_player_witness:
  "filter is_box (fst (draw_frame plain_floats (\<lambda>x. x) sample_display (default_snapshot\<lparr>player_count := 1\<rparr>) 0 Prediction Interpolation
     sample_hud (snd (renderer_init True Renderer)))) = [box_at plain_floats (Vec2Fixed 0 0) default_player_state]"
proof -
  let ?rr = "snd (renderer_init True Renderer)"
  have "rr_initialized ?rr" "\<not> rr_prediction_enabled (toggle_keys sample_display ?rr)"
    by (simp_all add: renderer_init_def Renderer_def toggle_keys_def sample_display_def)
  moreover have "take 1 (snap_players default_snapshot) = [default_player_state]"
    by (simp add: default_snapshot_def kMaxPlayers_def numeral_eq_Suc)
  moreover have "position (ps_motion default_player_state) = Vec2Fixed 0 0" "ps_id default_player_state = 0"
    by (simp_all add: default_player_state_def default_motion_def)
  ultimately show ?thesis
    using frame_shows_every_player [of ?rr plain_floats "\<lambda>x. x" sample_display "default_snapshot\<lparr>player_count := 1\<rparr>" 0 Prediction Interpolation
        sample_hud, OF _ prod.collapse [symmetric]] by simp
qed

section \<open>The announcement of a dropped flag\<close>

definition dropped_cache :: "team \<Rightarrow> renderer \<Rightarrow> vec2" where
  "dropped_cache team rr = (if team = Red then rr_dropped_flag_pos_red rr else rr_dropped_flag_pos_blue rr)"

lemma on_event_dropped:
  "dropped_cache team (on_event now (EvFlagDropped m) rr) = (if fd_flag_team m = team then fd_position m else dropped_cache team rr)"
  by (cases "fd_flag_team m"; cases team) (simp_all add: on_event_def dropped_cache_def add_message_def)

lemma death_of_carrier:
  assumes "i < length (sm_players s)" "pl_carrying_flag (sm_players s ! i)" "length (sm_flags s) = 2"
    and "p = sm_players s ! i"
  shows "sm_flags (handle_death i s) ! flag_index (enemy_of (pl_team p)) =
      (sm_flags s ! flag_index (enemy_of (pl_team p)))\<lparr>fl_state := Dropped, fl_position := pl_position p, fl_carrier_id := 0xFF\<rparr>"
    and "out_items (sm_outbound (handle_death i s)) = out_items (sm_outbound s) @
      [ser_event (default_outbound_event\<lparr>oe_type := TcpBroadcast\<rparr>) FlagDropped
        (encode_flag_dropped \<lparr>fd_flag_team = pl_team p, fd_position = pl_position p, fd_tick = sm_current_tick s\<rparr>)]"
  using assms by (cases "pl_team p"; simp add: handle_death_def Let_def upd_player_def drop_flag_def upd_flag_def send_event_def emit_def
      outbound_push_def enemy_flag_index_def flag_index_def nth_list_update)+

lemma dropped_event_dispatched:
  assumes "ev = ser_event (default_outbound_event\<lparr>oe_type := TcpBroadcast\<rparr>) FlagDropped (encode_flag_dropped m)"
  shows "nc_pending_events (dispatch_tcp_frame (hd (event_bytes ev)) (tl (event_bytes ev)) nc)
    = nc_pending_events nc @ [EvFlagDropped (norm_flag_dropped m)]"
proof -
  have bytes: "event_bytes ev = message_type_byte FlagDropped # wire_flag_dropped m"
    unfolding assms by (rule event_bytes_ser [OF flag_dropped.enc_emits]) (simp_all add: wire_flag_dropped_def default_outbound_event_def kPayloadBytes_def)
  have "decoded decode_flag_dropped (wire_flag_dropped m) = Some (norm_flag_dropped m)"
    using flag_dropped.decode_wire [of m "[]"] by (simp add: decoded_def)
  then show ?thesis by (simp add: bytes dispatch_tcp_frame_def push_decoded_def push_event_def)
qed

text \<open>
  C30 (error): a flag that its carrier drops by dying is drawn in the wrong place. The server marks
  the enemy's flag as dropped where the carrier died, but announces the carrier's own team; the
  client therefore leaves the position it remembers for the dropped flag unchanged, and draws the
  flag there instead of where it lies.
\<close>

theorem dropped_flag_drawn_elsewhere:
  assumes "i < length (sm_players s)" "pl_carrying_flag (sm_players s ! i)" "length (sm_flags s) = 2"
    and "p = sm_players s ! i" "flag = enemy_of (pl_team p)" "ev = last (out_items (sm_outbound (handle_death i s)))"
    and "nc' = dispatch_tcp_frame (hd (event_bytes ev)) (tl (event_bytes ev)) (nc\<lparr>nc_pending_events := []\<rparr>)"
    and "rr' = fold (on_event now) (nc_pending_events nc') rr"
  shows "fl_state (sm_flags (handle_death i s) ! flag_index flag) = Dropped
    \<and> fl_position (sm_flags (handle_death i s) ! flag_index flag) = pl_position p
    \<and> resolve_flag_position Dropped 0xFF latest base (dropped_cache flag rr') = dropped_cache flag rr
    \<and> dropped_cache (pl_team p) rr' = norm_vec (pl_position p)"
proof -
  let ?m = "\<lparr>fd_flag_team = pl_team p, fd_position = pl_position p, fd_tick = sm_current_tick s\<rparr>"
  note d = death_of_carrier [OF assms(1-4)]
  have "ev = ser_event (default_outbound_event\<lparr>oe_type := TcpBroadcast\<rparr>) FlagDropped (encode_flag_dropped ?m)"
    by (simp add: assms(6) d(2))
  from dropped_event_dispatched [OF this] have "rr' = on_event now (EvFlagDropped (norm_flag_dropped ?m)) rr"
    by (simp add: assms(7,8))
  then have "dropped_cache t rr' = (if pl_team p = t then norm_vec (pl_position p) else dropped_cache t rr)" for t
    by (simp add: on_event_dropped norm_flag_dropped_def)
  moreover have "flag \<noteq> pl_team p" by (cases "pl_team p") (simp_all add: assms(5))
  ultimately show ?thesis using d(1) by (simp add: assms(5) resolve_flag_position_def)
qed

definition sample_carrier_sim :: sim where
  "sample_carrier_sim = upd_player 0 (\<lambda>p. p\<lparr>pl_active := True, pl_team := Red, pl_carrying_flag := True, pl_position := Vec2Fixed 16384 16384\<rparr>)
     (Sim InboundQueue OutboundQueue)"

theorem dropped_flag_drawn_elsewhere_witness:
  "fl_position (sm_flags (handle_death 0 sample_carrier_sim) ! 1) = Vec2Fixed 16384 16384
   \<and> (let ev = last (out_items (sm_outbound (handle_death 0 sample_carrier_sim)));
          nc' = dispatch_tcp_frame (hd (event_bytes ev)) (tl (event_bytes ev)) (NetClient\<lparr>nc_pending_events := []\<rparr>)
      in resolve_flag_position Dropped 0xFF default_snapshot kBlueBasePosition (dropped_cache Blue (fold (on_event 0) (nc_pending_events nc') Renderer))
           = Vec2Fixed 0 0)"
proof -
  have h: "0 < length (sm_players sample_carrier_sim)" "pl_carrying_flag (sm_players sample_carrier_sim ! 0)" "length (sm_flags sample_carrier_sim) = 2"
    and v: "pl_team (sm_players sample_carrier_sim ! 0) = Red" "pl_position (sm_players sample_carrier_sim ! 0) = Vec2Fixed 16384 16384"
    by (simp_all add: sample_carrier_sim_def upd_player_def Sim_def kMaxPlayers_def)
  have "dropped_cache Blue Renderer = Vec2Fixed 0 0" by (simp add: dropped_cache_def Renderer_def)
  then show ?thesis
    using dropped_flag_drawn_elsewhere [OF h refl refl refl refl refl, where now = 0 and nc = NetClient and rr = Renderer
        and latest = default_snapshot and base = kBlueBasePosition] v
    by (simp add: Let_def flag_index_def)
qed

end
