(* ===== verification/Programs.thy ===== *)
theory Programs
  imports Bot_Loop Render Net_Server_Inv
begin

text \<open>
  The three programs from their command line to their exit code: \<open>client/main.cpp\<close> with drawing and
  the figures of the HUD, \<open>run_single_bot\<close> and the supervising parent of \<open>bot/main.cpp\<close>, and the
  wiring of \<open>server/main.cpp\<close>. What comes from outside is one input per frame; the frames are those
  that begin before the program is told to stop, so a session is a recursion over their list.

  The lemmas show that prediction and interpolation stay within their reachable states during a
  session, so that the properties of the components hold in every frame of the running program.
\<close>

section \<open>The client program\<close>

record client_program =
  cp_app :: client_app
  cp_renderer :: renderer
  cp_accumulator :: rat
  cp_last_time :: rat
  cp_ticks_this_window :: nat
  cp_window_start :: rat
  cp_measured_tick_hz :: rat

definition client_program :: "rat \<Rightarrow> rat \<Rightarrow> net_client \<Rightarrow> renderer \<Rightarrow> client_program" where
  "client_program now now' net rr = \<lparr>cp_app = client_start net, cp_renderer = rr, cp_accumulator = 0, cp_last_time = now,
     cp_ticks_this_window = 0, cp_window_start = now', cp_measured_tick_hz = 0\<rparr>"

text \<open>
  What a frame takes from outside: \<open>GetTime\<close> at its begin, for each event and after the ticks, what
  the network and the keys deliver (the frame time and the due ticks in there are computed), and the display.
\<close>

record program_input =
  pf_now :: rat
  pf_frame :: frame_input
  pf_event_time :: "nat \<Rightarrow> rat"
  pf_time :: rat
  pf_display :: display

text \<open>The measured rate: once a second the number of ticks since the last measurement over the time.\<close>

definition measure_rate :: "rounding \<Rightarrow> rat \<Rightarrow> client_program \<Rightarrow> client_program" where
  "measure_rate rnd t cp =
     (let elapsed = rnd (t - cp_window_start cp) in
      if elapsed \<ge> 1
      then cp\<lparr>cp_measured_tick_hz := rnd (of_nat (cp_ticks_this_window cp) / elapsed), cp_ticks_this_window := 0, cp_window_start := t\<rparr>
      else cp)"

definition hud_of :: "rounding \<Rightarrow> client_program \<Rightarrow> hud_metrics" where
  "hud_of rnd cp =
     (let pd = ca_prediction (cp_app cp);
          unacked = word_of_nat (rb_size (pd_history pd))
      in \<lparr>hm_rtt_ms = rnd (rnd (of_nat (unat unacked) / of_int kTickRateHz) * 1000),
          hm_unacked_input_count = unacked,
          hm_misprediction_rate = (if pd_seq pd > 0 then rnd (of_nat (unat (pd_mispredictions pd)) / of_nat (unat (pd_seq pd))) else 0),
          hm_snapshot_buffer_depth = word_of_nat (rb_size (ip_ring (ca_interpolation (cp_app cp)))),
          hm_actual_tick_rate_hz = cp_measured_tick_hz cp\<rparr>)"

definition program_frame :: "float_lib \<Rightarrow> rounding \<Rightarrow> program_input \<Rightarrow> client_program \<Rightarrow> draw_call list \<times> client_program" where
  "program_frame fl rnd pf cp =
     (let frame_dt = rnd (pf_now pf - cp_last_time cp);
          acc = rnd (cp_accumulator cp + frame_dt);
          ticks = ticks_due rnd acc 10;
          (events, app) = client_frame rnd ((pf_frame pf)\<lparr>fr_dt := frame_dt, fr_due := tick_due rnd acc\<rparr>) (cp_app cp);
          rr = fold (\<lambda>(i, ev). on_event (pf_event_time pf i) ev) (enumerate 0 events) (cp_renderer cp);
          cp = cp\<lparr>cp_app := app, cp_renderer := rr, cp_accumulator := time_left rnd acc ticks, cp_last_time := pf_now pf,
            cp_ticks_this_window := cp_ticks_this_window cp + ticks\<rparr>;
          cp = measure_rate rnd (pf_time pf) cp
      in if game_started (ca_net app) \<and> ca_have_snapshot app then
           let (calls, rr) = draw_frame fl rnd (pf_display pf) (ca_latest_snapshot app) (ca_my_id app) (ca_prediction app)
                 (ca_interpolation app) (hud_of rnd cp) rr
           in (calls, cp\<lparr>cp_renderer := rr\<rparr>)
         else if is_host (ca_net app) then
           (draw_waiting_screen (pf_display pf) (Some ''Waiting for players...'') (Some ''You are the host - press ENTER to start'') rr, cp)
         else (draw_waiting_screen (pf_display pf) (Some ''Waiting for the host to start...'') None rr, cp))"

primrec client_session :: "float_lib \<Rightarrow> rounding \<Rightarrow> program_input list \<Rightarrow> client_program \<Rightarrow> draw_call list list \<times> client_program" where
  "client_session fl rnd [] cp = ([], cp)"
| "client_session fl rnd (pf # pfs) cp =
     (let (calls, cp) = program_frame fl rnd pf cp;
          (screens, cp) = client_session fl rnd pfs cp
      in (calls # screens, cp))"

definition name_bytes :: "string \<Rightarrow> u8 list" where
  "name_bytes s = map (\<lambda>c. of_char c) s"

text \<open>The exit code, the screens and the network state that the program leaves behind.\<close>

definition client_main ::
  "float_lib \<Rightarrow> rounding \<Rightarrow> string list \<Rightarrow> connect_env \<Rightarrow> wait_outcome list \<Rightarrow> bool \<Rightarrow> rat \<Rightarrow> rat \<Rightarrow> program_input list
    \<Rightarrow> int \<times> draw_call list list \<times> net_client" where
  "client_main fl rnd argv env ws window_ready start start' pfs =
     (case parse_client argv default_client_args of
        Exit n \<Rightarrow> (n, [], NetClient)
      | Run args \<Rightarrow>
          (case connect_and_join env (name_bytes (cl_name args)) ws NetClient of
             (False, net) \<Rightarrow> (1, [], net)
           | (True, net) \<Rightarrow>
               (case renderer_init window_ready Renderer of
                  (False, rr) \<Rightarrow> (1, [], net)
                | (True, rr) \<Rightarrow>
                    (case client_session fl rnd pfs (client_program start start' net rr) of
                       (screens, cp) \<Rightarrow> (0, screens, disconnect (ca_net (cp_app cp)))))))"

section \<open>The bot program\<close>

text \<open>
  \<open>std::chrono::steady_clock\<close> counts nanoseconds; a duration in seconds is the double nearest to its
  quotient. A frame of the bot reads the clock at its begin and again before it elects itself.
\<close>

definition seconds :: "rounding \<Rightarrow> int \<Rightarrow> rat" where
  "seconds rnd ns = rnd (rnd (of_int ns) / 1000000000)"

record bot_program =
  bp_app :: bot_app
  bp_connect_time :: int
  bp_accumulator :: rat
  bp_last_time :: int

record bot_program_input =
  bq_now :: int
  bq_elect_now :: int
  bq_frame :: bot_frame_input

definition bot_program :: "int \<Rightarrow> int \<Rightarrow> net_client \<Rightarrow> bot_program" where
  "bot_program now now' net = \<lparr>bp_app = bot_start net, bp_connect_time = now, bp_accumulator = 0, bp_last_time = now'\<rparr>"

definition bot_round :: "float_lib \<Rightarrow> rounding \<Rightarrow> bot_program_input \<Rightarrow> bot_program \<Rightarrow> bot_program option" where
  "bot_round fl rnd bq bp =
     (let frame_dt = seconds rnd (bq_now bq - bp_last_time bp);
          acc = rnd (bp_accumulator bp + frame_dt);
          elapsed = seconds rnd (bq_elect_now bq - bp_connect_time bp)
      in case bot_frame fl ((bq_frame bq)\<lparr>bf_two_seconds := (elapsed \<ge> 2), bf_due := tick_due rnd acc\<rparr>) (bp_app bp) of
           None \<Rightarrow> None
         | Some app \<Rightarrow> Some (bp\<lparr>bp_app := app, bp_accumulator := time_left rnd acc (ticks_due rnd acc 200), bp_last_time := bq_now bq\<rparr>))"

primrec bot_session :: "float_lib \<Rightarrow> rounding \<Rightarrow> bot_program_input list \<Rightarrow> bot_program \<Rightarrow> bot_program option" where
  "bot_session fl rnd [] bp = Some bp"
| "bot_session fl rnd (bq # bqs) bp = (case bot_round fl rnd bq bp of None \<Rightarrow> None | Some bp \<Rightarrow> bot_session fl rnd bqs bp)"

definition run_single_bot ::
  "float_lib \<Rightarrow> rounding \<Rightarrow> nat \<Rightarrow> connect_env \<Rightarrow> wait_outcome list \<Rightarrow> int \<Rightarrow> int \<Rightarrow> bot_program_input list \<Rightarrow> (int \<times> net_client) option" where
  "run_single_bot fl rnd bot_index env ws start start' bqs =
     (case connect_and_join env (name_bytes (''bot'' @ dec_nat bot_index)) ws NetClient of
        (False, net) \<Rightarrow> Some (1, net)
      | (True, net) \<Rightarrow>
          (case bot_session fl rnd bqs (bot_program start start' net) of
             None \<Rightarrow> None
           | Some bp \<Rightarrow> Some (0, disconnect (ca_net (bp_app bp)))))"

text \<open>The parent of several bots: what \<open>fork\<close> returns, and what \<open>waitpid\<close> reports of a child.\<close>

datatype fork_result = ForkFailed | ForkParent int
datatype wait_result = WaitError | WaitSignalled | WaitExited int

definition bot_children :: "nat \<Rightarrow> (nat \<Rightarrow> fork_result) \<Rightarrow> int list" where
  "bot_children n forks = fold (\<lambda>i children. case forks i of ForkFailed \<Rightarrow> children | ForkParent pid \<Rightarrow> children @ [pid]) [0..<n] []"

definition supervise :: "(int \<Rightarrow> wait_result) \<Rightarrow> int list \<Rightarrow> int" where
  "supervise waits children =
     fold (\<lambda>pid exit_code. case waits pid of WaitExited n \<Rightarrow> if n \<noteq> 0 then 1 else exit_code | _ \<Rightarrow> exit_code) children 0"

text \<open>
  The whole program: usage errors, a single bot in this process, or the parent of several. \<open>single\<close>
  is the outcome of \<open>run_single_bot\<close> for bot 0; \<open>None\<close> would be a program that does not end.
\<close>

definition bot_main :: "string list \<Rightarrow> (int \<times> net_client) option \<Rightarrow> (nat \<Rightarrow> fork_result) \<Rightarrow> (int \<Rightarrow> wait_result) \<Rightarrow> int option" where
  "bot_main argv single forks waits =
     (case parse_bot argv default_bot_args of
        Exit n \<Rightarrow> Some n
      | Run args \<Rightarrow>
          if bg_count args = 1 then map_option fst single
          else Some (supervise waits (bot_children (nat (bg_count args)) forks)))"

section \<open>The server program\<close>

record server_program =
  sp_net :: net_server
  sp_sim :: sim
  sp_poller_kind :: poller_kind

definition kServerSilenceMs :: int where
  "kServerSilenceMs = int kUdpSilenceTimeoutSec * 1000"

definition server_main :: "string list \<Rightarrow> start_env \<Rightarrow> int + server_program" where
  "server_main argv env =
     (case parse_server argv default_server_args of
        Exit n \<Rightarrow> Inl n
      | Run args \<Rightarrow>
          (case server_start env (NetServer InboundQueue OutboundQueue kServerSilenceMs) of
             (False, net) \<Rightarrow> Inl 1
           | (True, net) \<Rightarrow> Inr \<lparr>sp_net = net, sp_sim = configured_sim args (ns_event_fd net), sp_poller_kind = chosen_poller args\<rparr>))"

section \<open>Clock and shutdown\<close>

text \<open>
  The millisecond clocks of both sides: the server multiplies in \<open>long\<close> and then truncates to 32
  bits, the client truncates first and lets the product wrap.
\<close>

definition server_now_ms :: "timespec \<Rightarrow> u32" where
  "server_now_ms ts = word_of_int (tv_sec ts * 1000 + cdiv (tv_nsec ts) 1000000)"

definition client_now_ms :: "timespec \<Rightarrow> u32" where
  "client_now_ms ts = word_of_int (tv_sec ts) * 1000 + word_of_int (tv_nsec ts) div 1000000"

lemma clocks_agree:
  assumes "normalised ts"
  shows "server_now_ms ts = client_now_ms ts"
proof -
  have n: "0 \<le> tv_nsec ts" "tv_nsec ts < 2 ^ 32" using assms by (simp_all add: normalised_def)
  then have "word_of_int (tv_nsec ts) div 1000000 = (word_of_int (tv_nsec ts div 1000000) :: u32)"
    by (simp add: word_div_def uint_word_of_int_eq take_bit_int_eq_self)
  then show ?thesis using n by (simp add: server_now_ms_def client_now_ms_def cdiv_nonneg)
qed

text \<open>The descriptors that the destructor of the server closes, in its order.\<close>

definition server_closes :: "net_server \<Rightarrow> int list" where
  "server_closes ns = filter (\<lambda>fd. fd \<ge> 0) (map ce_tcp_fd (ns_registry ns) @ [ns_tcp_listen_fd ns, ns_udp_fd ns, ns_event_fd ns])"

text \<open>No connection is closed twice, and none that a client holds stays open.\<close>

lemma connections_closed_once:
  assumes "net_reachable ns"
  shows "distinct (filter (\<lambda>fd. fd \<ge> 0) (map ce_tcp_fd (ns_registry ns)))
    \<and> (\<forall>e \<in> set (ns_registry ns). 0 \<le> ce_tcp_fd e \<longrightarrow> ce_tcp_fd e \<in> set (server_closes ns))"
proof -
  have "inj_on (\<lambda>i. fst (reg_view (ns_registry ns) ! i)) (live (reg_view (ns_registry ns)))"
    using net_reachable_inv [OF assms] by (simp add: net_inv_def net_view_def view_inv_def slots_inv_def)
  then have "inj_on (\<lambda>i. ce_tcp_fd (ns_registry ns ! i)) {i. i < length (ns_registry ns) \<and> 0 \<le> ce_tcp_fd (ns_registry ns ! i)}"
    by (subst inj_on_cong [where g = "\<lambda>i. fst (reg_view (ns_registry ns) ! i)"]) (simp_all add: live_reg_view)
  then have "distinct (map (\<lambda>i. ce_tcp_fd (ns_registry ns ! i)) (filter (\<lambda>i. 0 \<le> ce_tcp_fd (ns_registry ns ! i)) [0..<length (ns_registry ns)]))"
    by (simp add: distinct_map)
  moreover have "filter (\<lambda>fd. fd \<ge> 0) (map ce_tcp_fd reg) =
      map (\<lambda>i. ce_tcp_fd (reg ! i)) (filter (\<lambda>i. 0 \<le> ce_tcp_fd (reg ! i)) [0..<length reg])" for reg :: client_registry
  proof -
    have "map ce_tcp_fd reg = map (\<lambda>i. ce_tcp_fd (reg ! i)) [0..<length reg]" by (rule nth_equalityI) simp_all
    from arg_cong [OF this, of "filter (\<lambda>fd. fd \<ge> 0)"] show ?thesis by (simp add: filter_map comp_def)
  qed
  ultimately have "distinct (filter (\<lambda>fd. fd \<ge> 0) (map ce_tcp_fd (ns_registry ns)))" by (simp only:)
  then show ?thesis by (auto simp: server_closes_def)
qed

section \<open>A session stays within the reachable states\<close>

text \<open>What a session keeps after at most \<open>n\<close> ticks: both components reachable, no more inputs than ticks.\<close>

definition sound_after :: "rounding \<Rightarrow> nat \<Rightarrow> client_app \<Rightarrow> bool" where
  "sound_after rnd n ca \<longleftrightarrow> pred_reachable (ca_prediction ca) \<and> unat (pd_seq (ca_prediction ca)) \<le> n
     \<and> interp_reachable rnd (ca_interpolation ca)"

lemma local_tick_seq: "pd_seq (on_local_tick cmd pd) = pd_seq pd + 1"
  by (simp add: on_local_tick_def Let_def)

lemma sound_tick:
  assumes "sound_after rnd n ca" "n + 1 < 2 ^ 32"
  shows "sound_after rnd (n + 1) (client_tick read_input ca)"
proof -
  let ?pd = "ca_prediction ca"
  have n: "unat (pd_seq ?pd) + 1 < 2 ^ 32" using assms by (simp add: sound_after_def)
  then have "unat (pd_seq ?pd + 1) = unat (pd_seq ?pd) + 1" by (simp add: unat_word_ariths(1))
  then have "sound_after rnd (n + 1) (ca\<lparr>ca_prediction := on_local_tick cmd ?pd\<rparr>)" for cmd
    using assms(1) pred_reachable.ticked [OF _ n] by (simp add: sound_after_def local_tick_seq)
  then show ?thesis using assms(1) by (simp add: client_tick_def Let_def sound_after_def)
qed

lemma sound_ticks: "sound_after rnd n ca \<Longrightarrow> n + (limit - i) < 2 ^ 32 \<Longrightarrow> sound_after rnd (n + (limit - i)) (client_ticks due limit read_input i ca)"
proof (induction "limit - i" arbitrary: i n ca)
  case 0
  then show ?case by (subst client_ticks.simps) simp
next
  case (Suc m)
  then have m: "m = limit - (i + 1)" "n + (limit - i) = (n + 1) + (limit - (i + 1))" by simp_all
  have "sound_after rnd (n + (limit - i)) (client_ticks due limit read_input (i + 1) (client_tick (read_input i) ca))"
    using Suc.hyps(1) [OF m(1) sound_tick [OF Suc.prems(1)], of "read_input i"] Suc.prems(2) m by simp
  moreover have "sound_after rnd (n + (limit - i)) ca" using Suc.prems(1) by (simp add: sound_after_def)
  ultimately show ?case by (subst client_ticks.simps) (simp only: if_split simp_thms)
qed

lemma snapshot_keeps_seq: "pd_seq (on_snapshot snap me pd) = pd_seq pd"
  by (simp add: on_snapshot_def Let_def case_prod_beta split: option.split)

lemma sound_snapshots: "sound_after rnd n ca \<Longrightarrow> sound_after rnd n (fold (client_snapshot rnd) snaps ca)"
proof (induction snaps arbitrary: ca)
  case (Cons snap snaps)
  have "sound_after rnd n (client_snapshot rnd snap ca)"
    using Cons.prems
    by (simp add: sound_after_def client_snapshot_def snapshot_keeps_seq pred_reachable.reconciled interp_reachable.pushed)
  then show ?case using Cons.IH by simp
qed simp

lemma sound_net: "sound_after rnd n (ca\<lparr>ca_net := net\<rparr>) = sound_after rnd n ca"
  by (simp add: sound_after_def)

lemma sound_frame:
  assumes "sound_after rnd n ca" "n + 10 < 2 ^ 32"
  shows "sound_after rnd (n + 10) (snd (client_frame rnd fr ca))"
proof -
  have "sound_after rnd (n + 10) (client_ticks due 10 read_input 0 ca')" if "sound_after rnd n ca'" for due read_input ca'
    using sound_ticks [OF that, where limit = 10 and i = 0] assms(2) by simp
  then have "sound_after rnd (n + 10) (client_ticks due 10 read_input 0 ((fold (client_snapshot rnd) snaps (ca\<lparr>ca_net := net\<rparr>))\<lparr>ca_net := net'\<rparr>))"
    for due read_input snaps net net'
    using sound_snapshots assms(1) by (simp add: sound_net)
  then show ?thesis
    by (simp add: client_frame_def Let_def take_snapshots_def take_events_def sound_after_def interp_reachable.advanced)
qed

text \<open>
  C28 (invariant): the components stay sound while the program runs. After any number of frames of
  the client program, up to \<open>2 ^ 32\<close> ticks in all, the prediction and the interpolation are in states
  that their own operations reach from the start, so their history is numbered consecutively up to
  the current sequence number, their snapshots are in order, and no sequence number has wrapped.
\<close>

theorem session_keeps_components_sound:
  assumes "10 * length pfs < 2 ^ 32" "client_session fl rnd pfs (client_program now now' net rr) = (screens, cp)"
  shows "length screens = length pfs \<and> pred_reachable (ca_prediction (cp_app cp)) \<and> pred_inv (ca_prediction (cp_app cp))
    \<and> unat (pd_seq (ca_prediction (cp_app cp))) \<le> 10 * length pfs
    \<and> interp_reachable rnd (ca_interpolation (cp_app cp)) \<and> interp_inv (ca_interpolation (cp_app cp))"
proof -
  have frame: "sound_after rnd (n + 10) (cp_app (snd (program_frame fl rnd pf cp)))"
    if "sound_after rnd n (cp_app cp)" "n + 10 < 2 ^ 32" for n pf cp
    using sound_frame [OF that] by (simp add: program_frame_def measure_rate_def Let_def case_prod_beta)
  have session: "sound_after rnd (n + 10 * length pfs) (cp_app (snd (client_session fl rnd pfs cp))) \<and> length (fst (client_session fl rnd pfs cp)) = length pfs"
    if "sound_after rnd n (cp_app cp)" "n + 10 * length pfs < 2 ^ 32" for n cp
    using that
  proof (induction pfs arbitrary: n cp)
    case (Cons pf pfs)
    have "sound_after rnd (n + 10) (cp_app (snd (program_frame fl rnd pf cp)))" using frame [OF Cons.prems(1), of pf] Cons.prems(2) by simp
    from Cons.IH [OF this] Cons.prems(2) show ?case by (simp add: case_prod_beta Let_def algebra_simps)
  qed simp
  have "sound_after rnd 0 (cp_app (client_program now now' net rr))"
    by (simp add: sound_after_def client_program_def client_start_def pred_reachable.start interp_reachable.start) (simp add: Prediction_def)
  then have "sound_after rnd (10 * length pfs) (cp_app cp)" "length screens = length pfs"
    using session [of 0 "client_program now now' net rr"] assms by simp_all
  then show ?thesis using pred_reachable_inv interp_reachable_inv unfolding sound_after_def by blast
qed

definition idle_input :: program_input where
  "idle_input = \<lparr>pf_now = 1 / 10, pf_frame = \<lparr>fr_tcp = [], fr_udp = [], fr_now1 = 0, fr_now2 = 0, fr_dt = 0, fr_enter = False,
     fr_due = (\<lambda>i. False), fr_sample = (\<lambda>i p. default_input)\<rparr>, pf_event_time = (\<lambda>i. 0), pf_time = 1 / 10, pf_display = sample_display\<rparr>"

theorem session_keeps_components_sound_witness:
  "case client_session plain_floats (\<lambda>x. x) [idle_input] (client_program 0 0 sample_client Renderer) of
     (screens, cp) \<Rightarrow> length screens = 1 \<and> pred_inv (ca_prediction (cp_app cp)) \<and> interp_inv (ca_interpolation (cp_app cp))"
  using session_keeps_components_sound [of "[idle_input]" plain_floats "\<lambda>x. x" 0 0 sample_client Renderer, OF _ prod.collapse [symmetric]]
  by (simp add: case_prod_beta)

section \<open>Exit codes\<close>

lemma bot_session_returns: "\<exists>bp'. bot_session fl rnd bqs bp = Some bp'"
proof (induction bqs arbitrary: bp)
  case (Cons bq bqs)
  have "\<exists>bp'. bot_round fl rnd bq bp = Some bp'"
    using bot_frame_returns [of fl _ "bp_app bp"] by (auto simp: bot_round_def Let_def split: option.split)
  then show ?case using Cons by auto
qed simp

text \<open>A bot that is told to stop exits: with 1 if it could not join, else with 0 and closed sockets.\<close>

lemma run_single_bot_exits:
  "\<exists>net. run_single_bot fl rnd k env ws t t' bqs = Some (if fst (connect_and_join env (name_bytes (''bot'' @ dec_nat k)) ws NetClient) then 0 else 1, net)"
  using bot_session_returns [of fl rnd bqs] by (auto simp: run_single_bot_def split: prod.split bool.split) (metis option.case(2))

lemma supervise_result: "supervise waits children = (if \<exists>pid \<in> set children. \<exists>n. waits pid = WaitExited n \<and> n \<noteq> 0 then 1 else 0)"
proof -
  have "fold (\<lambda>pid exit_code. case waits pid of WaitExited n \<Rightarrow> if n \<noteq> 0 then 1 else exit_code | _ \<Rightarrow> exit_code) children c
    = (if \<exists>pid \<in> set children. \<exists>n. waits pid = WaitExited n \<and> n \<noteq> 0 then 1 else c)" for c :: int
    by (induction children arbitrary: c) (auto split: wait_result.split)
  then show ?thesis by (simp add: supervise_def)
qed

text \<open>A server that started runs a configured simulation, wakes the network thread through its descriptor, and paces at a positive rate.\<close>

lemma server_main_started:
  assumes "server_main argv env = Inr sp"
  shows "sim_reachable dir (sp_sim sp) \<and> 0 < sm_tick_hz (sp_sim sp) \<and> sm_wake_fd (sp_sim sp) = ns_event_fd (sp_net sp)"
  using assms configured_reachable any_command_line_has_rates
  by (auto simp: server_main_def configured_sim_def set_delta_snapshots_def set_snapshot_rate_def set_tick_rate_def set_wake_fd_def
      split: parsed.splits prod.splits bool.splits)

end
