(* ===== verification/Server_System.thy ===== *)
theory Server_System
  imports Net_Server_Props Command_Line
begin

text \<open>
  The two threads of the server together. The network thread and the simulation thread share
  nothing but the two queues, whose operations are atomic. A step of the system is one unit of work
  of the network thread, one round of the loop that drains the command queue, or the rest of a tick.
  The rest of a tick may run whatever the queue holds and the network thread may find any content
  in the outbound queue, so every interleaving of the two threads at their queue operations is a
  sequence of such steps; a whole tick is one too (\<open>tick_is_steps\<close>).

  The lemmas show that both sides always agree about who plays: the active players of the
  simulation, once the commands that are still queued are applied, are the roster of the lobby.
\<close>

section \<open>Steps\<close>

inductive socket_step :: "net_server \<Rightarrow> net_server \<Rightarrow> bool" where
  udp: "socket_step ns (serve_event (UdpReady datagrams) ns)"
| accepted: "\<forall>fd \<in> set fds. 0 \<le> fd \<and> fd \<notin> dom (poll_watched (ns_poller ns)) \<Longrightarrow> socket_step ns (serve_event (AcceptReady fds) ns)"
| readable: "fd \<in> dom (poll_watched (ns_poller ns)) \<Longrightarrow> \<forall>xs. mset (re_shuffle env xs) = mset xs \<Longrightarrow>
    socket_step ns (serve_event (TcpReadable fd env rs) ns)"
| writable: "fd \<in> dom (poll_watched (ns_poller ns)) \<Longrightarrow> socket_step ns (serve_event (TcpWritable fd answers) ns)"
| interest: "socket_step ns (update_write_interest ns)"
| cap: "socket_step ns (enforce_pending_cap ns)"
| silence: "socket_step ns (check_silence_timeouts now ns)"

inductive net_step :: "net_server \<Rightarrow> net_server \<Rightarrow> bool" where
  wake: "net_step ns (serve_event WakeReady (ns\<lparr>ns_outbound := q\<rparr>))"
| socket: "socket_step ns ns' \<Longrightarrow> net_step ns ns'"

definition rest_of_tick :: "ray_direction \<Rightarrow> sim \<Rightarrow> sim" where
  "rest_of_tick dir s =
     (let s = publish (win_check (flags_phase (combat dir (move_players (pop_inputs s)))))
      in s\<lparr>sm_current_tick := sm_current_tick s + 1\<rparr>)"

inductive sys_reachable :: "ray_direction \<Rightarrow> net_server \<Rightarrow> sim \<Rightarrow> bool" for dir where
  started: "server_start (Started l lp u up e now) (NetServer InboundQueue OutboundQueue ms) = (True, ns) \<Longrightarrow>
    0 \<le> l \<Longrightarrow> 0 \<le> u \<Longrightarrow> 0 \<le> e \<Longrightarrow> sys_reachable dir ns (configured_sim args e)"
| net: "sys_reachable dir ns s \<Longrightarrow> net_step ns ns' \<Longrightarrow> sys_reachable dir ns' (s\<lparr>sm_inbound := ns_inbound ns'\<rparr>)"
| command: "sys_reachable dir ns s \<Longrightarrow> inbound_pop (ns_inbound ns) = Some (cmd, q) \<Longrightarrow>
    sys_reachable dir (ns\<lparr>ns_inbound := q\<rparr>) (apply_command cmd (s\<lparr>sm_inbound := q\<rparr>))"
| rest: "sys_reachable dir ns s \<Longrightarrow> sys_reachable dir ns (rest_of_tick dir s)"

lemma tick_split: "tick dir s = rest_of_tick dir (drain_inbound s)"
  by (simp add: tick_def rest_of_tick_def Let_def)

section \<open>Who plays\<close>

fun player_effect :: "inbound_command \<Rightarrow> u8 set \<Rightarrow> u8 set" where
  "player_effect cmd A =
     (case ic_type cmd of
        CmdPlayerJoined \<Rightarrow> (if unat (ic_player_id cmd) < kMaxPlayers then insert (ic_player_id cmd) A else A)
      | CmdPlayerLeft \<Rightarrow> A - {ic_player_id cmd}
      | CmdPlayerInput \<Rightarrow> A)"

definition players_after :: "inbound_command list \<Rightarrow> u8 set \<Rightarrow> u8 set" where
  "players_after cmds A = fold player_effect cmds A"

lemma players_after_simps [simp]:
  "players_after [] A = A" "players_after (c # cs) A = players_after cs (player_effect c A)"
  "players_after (cs @ cs') A = players_after cs' (players_after cs A)"
  by (simp_all add: players_after_def)

definition playing :: "sim \<Rightarrow> u8 set" where
  "playing s = {pid. unat pid < kMaxPlayers \<and> pl_active (sm_players s ! unat pid)}"

definition agree :: "u8 set \<Rightarrow> net_server \<Rightarrow> bool" where
  "agree A ns \<longleftrightarrow> players_after (in_items (ns_inbound ns)) A =
     (if lb_in_progress (ns_lobby ns) then set (lb_player_ids (ns_lobby ns)) else {})"

text \<open>A step of the network thread keeps the agreement, whoever plays.\<close>

definition keeps :: "net_server \<Rightarrow> net_server \<Rightarrow> bool" where
  "keeps ns ns' \<longleftrightarrow> (\<forall>A. agree A ns \<longrightarrow> agree A ns')"

lemma keeps_refl: "keeps ns ns"
  by (simp add: keeps_def)

lemma keeps_trans: "keeps a b \<Longrightarrow> keeps b c \<Longrightarrow> keeps a c"
  by (simp add: keeps_def)

lemma keeps_same: "ns_lobby ns' = ns_lobby ns \<Longrightarrow> in_items (ns_inbound ns') = in_items (ns_inbound ns) \<Longrightarrow> keeps ns ns'"
  by (simp add: keeps_def agree_def)

lemma keeps_inputs:
  assumes "ns_lobby ns' = ns_lobby ns" "in_items (ns_inbound ns') = in_items (ns_inbound ns) @ cmds" "\<forall>c \<in> set cmds. ic_type c = CmdPlayerInput"
  shows "keeps ns ns'"
proof -
  have "players_after cmds A = A" for A
    using assms(3) by (induction cmds arbitrary: A) simp_all
  then show ?thesis using assms(1,2) by (simp add: keeps_def agree_def)
qed

section \<open>The network thread\<close>

lemma inbound_broadcast [simp]: "ns_inbound (broadcast_lobby_state ns) = ns_inbound ns" "ns_lobby (broadcast_lobby_state ns) = ns_lobby ns"
  by (simp_all add: broadcast_lobby_state_def Let_def)

lemma in_progress_remove: "lb_in_progress (remove_player pid l) = lb_in_progress l"
  by (simp add: remove_player_def promote_host_def Let_def)

lemma keeps_disconnect:
  assumes "net_inv ns" "i \<in> live (reg_view (ns_registry ns))"
  shows "keeps ns (server_disconnect i True ns)"
proof -
  have inv: "lobby_inv (ns_lobby ns)" using assms(1) by (simp add: net_inv_def net_view_def view_inv_def)
  have "in_items (inbound_push c q) = in_items q @ [c]" for c q by (simp add: inbound_push_def)
  then show ?thesis
    using set_remove_player [OF inv, of "word_of_nat i"]
    by (auto simp: keeps_def agree_def disconnect_closed [OF assms] departed_def in_progress_remove left_command_def)
qed

lemma keeps_drop: "net_inv ns \<Longrightarrow> 0 \<le> fd \<Longrightarrow> keeps ns (drop_connection fd ns)"
  using keeps_disconnect find_by_fd_Some keeps_same [of "close_unregistered fd ns" ns]
  by (auto simp: drop_connection_def live_reg_view close_unregistered_def split: option.split)

lemma keeps_udp_packet: "keeps ns (on_udp_packet now src data ns)"
proof -
  have hello: "keeps ns (on_udp_hello now src m ns)" for m
    by (rule keeps_same) (simp_all add: on_udp_hello_def upd_entry_def split: option.split)
  have input: "keeps ns (on_player_input now src m ns)" for m
  proof (cases "auth_udp_sender src (pi_player_id m) (pi_session_token m) (ns_registry ns)")
    case None
    then show ?thesis by (simp add: on_player_input_def keeps_refl)
  next
    case (Some k)
    show ?thesis
      by (rule keeps_inputs [OF _ player_input_items [of now src m ns]])
        (auto simp: on_player_input_def upd_entry_def Some Let_def input_command_def)
  qed
  show ?thesis by (simp add: on_udp_packet_def Let_def hello input keeps_refl split: option.split)
qed

lemma keeps_udp: "keeps ns (handle_udp_readable rs ns)"
proof (induction rs arbitrary: ns)
  case (Cons r rs)
  then show ?case using keeps_trans [OF keeps_udp_packet Cons] by (simp add: keeps_refl split: udp_recv.split)
qed (simp add: keeps_refl)

lemma inbound_frames [simp]:
  "ns_inbound (send_frame_generic fd ty enc ns) = ns_inbound ns" "ns_lobby (send_frame_generic fd ty enc ns) = ns_lobby ns"
  "ns_inbound (set_accum accum bs ns) = ns_inbound ns" "ns_lobby (set_accum accum bs ns) = ns_lobby ns"
  by (simp_all add: send_frame_generic_def Let_def set_accum_def split: accum_ref.split)

lemma keeps_join:
  assumes "net_inv ns" "0 \<le> fd"
  shows "keeps ns (on_join_lobby env fd m ns)"
proof (cases "find_by_fd (ns_registry ns) fd")
  case (Some i)
  then show ?thesis by (simp add: on_join_lobby_def keeps_refl)
next
  case None
  from assms(1) None assms(2) show ?thesis
  proof (cases rule: join_cases [where env = env and m = m])
    case full
    then show ?thesis by (intro keeps_same) simp_all
  next
    case (refused e)
    then show ?thesis by (intro keeps_same) simp_all
  next
    case (joined lob e)
    have "\<not> lb_in_progress lob"
      using joined(2,3) by (auto simp: add_player_def Let_def promote_host_def split: if_splits)
    then show ?thesis using joined(2) by (simp add: keeps_def agree_def joined(5))
  qed
qed

lemma joins_effect: "\<forall>pid \<in> set ids. unat pid < kMaxPlayers \<Longrightarrow> players_after (side_commands team ids k) A = A \<union> set ids"
  by (induction ids arbitrary: k A) (simp_all add: side_commands_Cons join_command_def side_commands_def [of _ "[]"])

lemma keeps_start:
  assumes "net_inv ns" "\<forall>xs. mset (re_shuffle env xs) = mset xs"
  shows "keeps ns (on_start_request env fd ns)"
proof -
  let ?lob = "ns_lobby ns"
  have inv: "lobby_inv ?lob" "\<forall>pid \<in> set (lb_player_ids ?lob). unat pid < kMaxPlayers"
    using assms(1) live_lt [of "reg_view (ns_registry ns)"] slot_word
    by (auto simp: net_inv_def net_view_def view_inv_def)
  have "keeps ns (begin_match_and_notify (re_shuffle env) ns)"
  proof (cases "lb_in_progress ?lob \<or> length (lb_player_ids ?lob) < 2")
    case True
    then show ?thesis by (auto simp: begin_match_and_notify_def begin_match_def keeps_refl)
  next
    case False
    from begin_closed [of ns "re_shuffle env"] False inv(1) assms(2) obtain red blue where
      rb: "mset red + mset blue = mset (lb_player_ids ?lob)"
      and b: "begin_match_and_notify (re_shuffle env) ns = ns\<lparr>ns_lobby := ?lob\<lparr>lb_in_progress := True\<rparr>,
        ns_inbound := fold inbound_push (side_commands Red red 0 @ side_commands Blue blue 0) (ns_inbound ns),
        ns_registry := snd (broadcast_tcp_event
          (frame_image (message_type_byte GameStart) (wire_game_start (start_message red blue))) (ns_registry ns))\<rparr>"
      by (auto simp: lobby_inv_def)
    have ids: "set red \<union> set blue = set (lb_player_ids ?lob)" using arg_cong [OF rb, of set_mset] by simp
    then have "\<forall>pid \<in> set red. unat pid < kMaxPlayers" "\<forall>pid \<in> set blue. unat pid < kMaxPlayers" using inv(2) by auto
    note effect = joins_effect [OF this(1)] joins_effect [OF this(2)]
    have "in_items (fold inbound_push cs q) = in_items q @ cs" for cs q
      using push_all [of "\<lambda>c. c" cs q] by simp
    then show ?thesis using False ids by (simp add: keeps_def agree_def b effect)
  qed
  moreover have "keeps ns (send_frame_generic fd ty enc ns)" for ty enc by (rule keeps_same) simp_all
  ultimately show ?thesis by (simp add: on_start_request_def keeps_refl split: option.split)
qed

lemma keeps_serve_frame:
  assumes "net_inv ns" "0 \<le> fd" "\<forall>xs. mset (re_shuffle env xs) = mset xs"
  shows "keeps ns (serve_frame env fd ty payload ns)"
  by (simp add: serve_frame_def keeps_refl keeps_join [OF assms(1,2)] keeps_start [OF assms(1,3)] split: option.split)

lemma keeps_serve_frames:
  assumes "net_inv ns" "fd \<in> dom (poll_watched (ns_poller ns))" "\<forall>xs. mset (re_shuffle env xs) = mset xs"
    "serve_frames env fd accum pos ns = (pos', dead, ns')"
  shows "keeps ns ns'"
  using assms
proof (induction env fd accum pos ns arbitrary: pos' dead ns' rule: serve_frames.induct)
  case (1 env fd accum pos ns)
  show ?case
  proof (cases "length accum - pos \<ge> kTcpFrameHeaderBytes \<and> (\<exists>ty payload n. recv_framed (drop pos accum) = Frame ty payload n \<and> length payload \<le> kAccumCap)")
    case False
    then show ?thesis using "1.prems" keeps_refl
      by (auto simp: serve_frames.simps [of env fd accum pos] split: if_splits frame_result.splits)
  next
    case True
    then obtain ty payload n where f: "length accum - pos \<ge> kTcpFrameHeaderBytes" "recv_framed (drop pos accum) = Frame ty payload n"
      "\<not> length payload > kAccumCap" by auto
    let ?ns = "serve_frame env fd ty payload ns"
    have fd: "0 \<le> fd" using "1.prems"(1,2) by (simp add: net_inv_def net_view_def view_inv_def)
    have step: "net_inv ?ns" "grows ns ?ns" using inv_serve_frame [OF "1.prems"(1,2)] by auto
    then have "fd \<in> dom (poll_watched (ns_poller ?ns))" using "1.prems"(2) by (simp add: grows_def Let_def)
    moreover have "serve_frames env fd accum (pos + n) ?ns = (pos', dead, ns')"
      using "1.prems"(4) f by (simp add: serve_frames.simps [of env fd accum pos])
    ultimately have "keeps ?ns ns'" using "1.IH" [OF f step(1)] "1.prems"(3) by blast
    then show ?thesis using keeps_trans [OF keeps_serve_frame [OF "1.prems"(1) fd "1.prems"(3)]] by blast
  qed
qed

lemma keeps_tcp_readable:
  assumes "net_inv ns" "fd \<in> dom (poll_watched (ns_poller ns))" "\<forall>xs. mset (re_shuffle env xs) = mset xs"
  shows "keeps ns (handle_tcp_readable env fd rs ns)"
proof -
  obtain accum ns1 where a: "accum_for fd ns = (accum, ns1)" by fastforce
  have fd: "0 \<le> fd" using assms by (simp add: net_inv_def net_view_def view_inv_def)
  have ns1: "net_inv ns1" "ns_registry ns1 = ns_registry ns" "ns_poller ns1 = ns_poller ns" "keeps ns ns1"
    using a assms(1) keeps_same [of ns1 ns] by (auto simp: accum_for_def net_inv_def net_view_def split: option.splits if_splits)
  have slot: "accum_live accum ns1"
    using a find_by_fd_Some [of "ns_registry ns" fd] find_live(2) [OF net_inv_reg [OF assms(1)]] fd
    by (auto simp: accum_for_def accum_live_def live_reg_view split: option.splits if_splits)
  obtain going buf where r: "recv_chunks rs (get_accum accum ns1) = (going, buf)" by fastforce
  let ?ns = "set_accum accum buf ns1"
  have ns2: "net_inv ?ns" "keeps ns ?ns"
    using inv_set_accum [OF ns1(1) slot] keeps_trans [OF ns1(4) keeps_same [of ?ns ns1]] by simp_all
  obtain pos dead ns3 where s: "serve_frames env fd buf 0 ?ns = (pos, dead, ns3)" by (cases "serve_frames env fd buf 0 ?ns") auto
  have fd': "fd \<in> dom (poll_watched (ns_poller ?ns))" using assms(2) ns1(3) by simp
  have ns3: "net_inv ns3" "keeps ns ns3"
    using inv_serve_frames [OF ns2(1) fd' s] keeps_trans [OF ns2(2) keeps_serve_frames [OF ns2(1) fd' assms(3) s]] by simp_all
  have "keeps ns (drop_connection fd ?ns)" "keeps ns (drop_connection fd ns3)" "keeps ns (set_accum accum bs ns3)" for bs
    using keeps_trans [OF ns2(2) keeps_drop [OF ns2(1) fd]] keeps_trans [OF ns3(2) keeps_drop [OF ns3(1) fd]]
      keeps_trans [OF ns3(2) keeps_same [of "set_accum accum bs ns3"]] by simp_all
  then show ?thesis using ns3(2) by (simp add: handle_tcp_readable_def a r s Let_def)
qed

lemma keeps_flush_loop: "net_inv ns \<Longrightarrow> i \<in> live (reg_view (ns_registry ns)) \<Longrightarrow> keeps ns (flush_loop rs i ns)"
proof (induction rs arbitrary: ns)
  case Nil
  then show ?case by (simp add: keeps_refl)
next
  case (Cons r rs)
  let ?upd = "\<lambda>n x. upd_entry i (\<lambda>e. e\<lparr>ce_pending_out := drop n (ce_pending_out e)\<rparr>) (ns\<lparr>ns_tcp_flushed := x\<rparr>)"
  have view: "net_view (?upd n x) = net_view ns" for n x
    using view_upd_entry [of "\<lambda>e. e\<lparr>ce_pending_out := drop n (ce_pending_out e)\<rparr>" i "ns\<lparr>ns_tcp_flushed := x\<rparr>"]
    by (simp add: net_view_def)
  have "keeps ns (?upd n x)" for n x by (rule keeps_same) (simp_all add: upd_entry_def)
  moreover have "keeps (?upd n x) (flush_loop rs i (?upd n x))" for n x
    using Cons.IH net_inv_view [OF Cons.prems(1) view] view [of n x] Cons.prems(2) by (simp add: net_view_def)
  ultimately have "keeps ns (flush_loop rs i (?upd n x))" for n x using keeps_trans by blast
  then show ?case using Cons keeps_disconnect [OF Cons.prems] by (simp add: Let_def keeps_refl split: send_result.split)
qed

lemma keeps_flush:
  assumes "net_inv ns" "fd \<in> dom (poll_watched (ns_poller ns))"
  shows "keeps ns (flush_pending fd rs ns)"
proof -
  have "0 \<le> fd" using assms by (simp add: net_inv_def net_view_def view_inv_def)
  then show ?thesis using keeps_flush_loop [OF assms(1)] find_by_fd_Some keeps_refl
    by (fastforce simp: flush_pending_def live_reg_view split: option.split)
qed

lemma keeps_check:
  assumes "net_inv ns" "i < length (ns_registry ns)" "\<not> ce_tcp_fd (ns_registry ns ! i) < 0"
  shows "keeps ns (case find_by_id (ns_registry ns) (ce_player_id (ns_registry ns ! i)) of
      None \<Rightarrow> ns | Some j \<Rightarrow> server_disconnect j True ns)"
  using find_live(1) [OF net_inv_reg [OF assms(1)], of i] assms keeps_disconnect [OF assms(1), of i]
  by (simp add: live_reg_view)

lemma keeps_detectors:
  assumes "\<And>i ns. net_inv ns \<Longrightarrow> i < length (ns_registry ns) \<Longrightarrow> net_inv (f i ns) \<and> keeps ns (f i ns)"
    and "\<And>i ns. length (ns_registry (f i ns)) = length (ns_registry ns)"
  shows "net_inv ns \<Longrightarrow> \<forall>i \<in> set is. i < length (ns_registry ns) \<Longrightarrow> keeps ns (fold f is ns)"
proof (induction "is" arbitrary: ns)
  case (Cons i "is")
  have "keeps (f i ns) (fold f is (f i ns))" using Cons.prems assms by (intro Cons.IH) simp_all
  then show ?case using keeps_trans assms(1) [OF Cons.prems(1), of i] Cons.prems(2) by auto
qed (simp add: keeps_refl)

lemma keeps_cap: "net_inv ns \<Longrightarrow> keeps ns (enforce_pending_cap ns)"
  unfolding enforce_pending_cap_def
  by (rule keeps_detectors) (auto simp: cap_check_def Let_def inv_check keeps_check keeps_refl split: option.split)

lemma keeps_silence:
  assumes "net_inv ns"
  shows "keeps ns (check_silence_timeouts now ns)"
proof -
  let ?ns = "ns\<lparr>ns_last_silence_check_ms := now\<rparr>"
  have "net_inv ?ns" using net_inv_view [OF assms] by simp
  then have "keeps ?ns (fold silence_check [0..<length (ns_registry ?ns)] ?ns)"
    by (intro keeps_detectors) (auto simp: silence_check_def Let_def inv_check keeps_check keeps_refl split: option.split)
  moreover have "keeps ns ?ns" by (rule keeps_same) simp_all
  ultimately show ?thesis using keeps_trans by (simp add: check_silence_timeouts_def)
qed

lemma wake_frame: "ns_lobby (handle_wake ns) = ns_lobby ns \<and> ns_inbound (handle_wake ns) = ns_inbound ns"
proof (induction ns rule: handle_wake.induct)
  case (1 ns)
  have "ns_lobby (send_outbound ev ns) = ns_lobby ns \<and> ns_inbound (send_outbound ev ns) = ns_inbound ns" for ev ns
    by (simp add: send_outbound_def send_event_datagrams_frame split: outbound_event_type.split)
  then show ?case using 1 by (auto simp: handle_wake.simps [of ns] split: option.split)
qed

lemma socket_step_keeps:
  assumes "socket_step ns ns'" "net_reachable ns"
  shows "keeps ns ns' \<and> net_reachable ns'"
  using assms(1)
proof cases
  case (accepted fds)
  then show ?thesis using net_reachable.accepted [OF assms(2)] keeps_same [of ns' ns] by (simp add: accept_new_clients_def)
next
  case interest
  then show ?thesis using net_reachable.interest [OF assms(2)] keeps_same [of ns' ns] by (simp add: update_write_interest_def)
next
  case (readable fd env rs)
  then show ?thesis using net_reachable.readable [OF assms(2)] keeps_tcp_readable [OF net_reachable_inv [OF assms(2)]] by simp
next
  case (writable fd answers)
  then show ?thesis using net_reachable.writable [OF assms(2)] keeps_flush [OF net_reachable_inv [OF assms(2)]] by simp
next
  case (udp datagrams)
  then show ?thesis using net_reachable.udp [OF assms(2)] keeps_udp by simp
next
  case cap
  then show ?thesis using net_reachable.cap [OF assms(2)] keeps_cap [OF net_reachable_inv [OF assms(2)]] by simp
next
  case (silence now)
  then show ?thesis using net_reachable.silence [OF assms(2)] keeps_silence [OF net_reachable_inv [OF assms(2)]] by simp
qed

lemma net_step_keeps:
  assumes "net_step ns ns'" "net_reachable ns"
  shows "keeps ns ns' \<and> net_reachable ns'"
  using assms(1)
proof cases
  case (wake q)
  have "net_reachable (ns\<lparr>ns_inbound := ns_inbound ns, ns_outbound := q\<rparr>)" using net_reachable.simulation [OF assms(2)] .
  then have "net_reachable ns'" using net_reachable.wake wake by (simp del: serve_event.simps)
  then show ?thesis using wake wake_frame by (simp add: keeps_same)
next
  case socket
  then show ?thesis using socket_step_keeps assms(2) by blast
qed

section \<open>The simulation thread\<close>

lemma playing_roster: "roster s = roster s' \<Longrightarrow> length (sm_players s') = kMaxPlayers \<Longrightarrow> playing s = playing s'"
  using roster_active [of s s'] by (auto simp: playing_def)

lemma playing_upd:
  assumes "length (sm_players s) = kMaxPlayers" "i < kMaxPlayers"
  shows "playing (upd_player i f s) =
    (if pl_active (f (sm_players s ! i)) then insert (word_of_nat i) (playing s) else playing s - {word_of_nat i})"
proof (rule set_eqI)
  fix pid :: u8
  show "pid \<in> playing (upd_player i f s) \<longleftrightarrow>
      pid \<in> (if pl_active (f (sm_players s ! i)) then insert (word_of_nat i) (playing s) else playing s - {word_of_nat i})"
  proof (cases "pid = word_of_nat i")
    case True
    then have "unat pid = i" using slot_word [OF assms(2)] by simp
    then show ?thesis using assms True by (simp add: playing_def upd_player_def)
  next
    case False
    then have "unat pid \<noteq> i" by (metis of_nat_unat ucast_id)
    then show ?thesis using False by (auto simp: playing_def upd_player_def)
  qed
qed

lemma playing_frame [simp]:
  "playing (s\<lparr>sm_player_count := n\<rparr>) = playing s" "playing (s\<lparr>sm_inbound := q\<rparr>) = playing s" "playing (drop_flag fi pos s) = playing s"
  by (simp_all add: playing_def drop_flag_def upd_flag_def)

lemma queue_input_active: "pl_active (queue_input seq cmd p) = pl_active p"
  by (simp add: queue_input_def ring_push_def ring_drop_def Let_def)

lemma command_effect:
  assumes "length (sm_players s) = kMaxPlayers" "\<not> sm_match_over s"
  shows "playing (apply_command cmd s) = player_effect cmd (playing s)"
proof -
  let ?pid = "ic_player_id cmd"
  have drop: "sm_players (drop_flag fi pos t) = sm_players t" for fi pos t by (simp add: drop_flag_def upd_flag_def)
  have wrap: "word_of_nat (unat ?pid) = ?pid" by simp
  have in_play: "?pid \<in> playing s \<longleftrightarrow> unat ?pid < kMaxPlayers \<and> pl_active (sm_players s ! unat ?pid)" by (simp add: playing_def)
  show ?thesis
  proof (cases "ic_type cmd")
    case CmdPlayerJoined
    show ?thesis
    proof (cases "find_player s ?pid = None \<and> unat ?pid < kMaxPlayers")
      case True
      then show ?thesis using CmdPlayerJoined assms playing_upd [OF assms(1), of "unat ?pid"]
        by (simp add: apply_command_def apply_join_def Let_def wrap)
    next
      case False
      then show ?thesis using CmdPlayerJoined assms in_play
        by (auto simp: apply_command_def apply_join_def find_player_def insert_absorb split: if_splits)
    qed
  next
    case CmdPlayerLeft
    show ?thesis
    proof (cases "find_player s ?pid")
      case None
      then have "?pid \<notin> playing s" using in_play by (auto simp: find_player_def split: if_splits)
      then show ?thesis using CmdPlayerLeft assms None by (simp add: apply_command_def apply_leave_def)
    next
      case (Some i)
      then have i: "i = unat ?pid" "i < kMaxPlayers" by (auto simp: find_player_def split: if_splits)
      have "playing (upd_player i (\<lambda>_. default_player) t) = playing s - {?pid}" if "playing t = playing s" "sm_players t = sm_players s" for t
        using playing_upd [of t i] assms(1) that i by (simp add: default_player_def wrap)
      then show ?thesis using CmdPlayerLeft assms Some drop by (simp add: apply_command_def apply_leave_def Let_def)
    qed
  next
    case CmdPlayerInput
    show ?thesis
    proof (cases "find_player s ?pid")
      case None
      then show ?thesis using CmdPlayerInput assms by (simp add: apply_command_def)
    next
      case (Some i)
      then have "i = unat ?pid" "i < kMaxPlayers" "pl_active (sm_players s ! i)" by (auto simp: find_player_def split: if_splits)
      then show ?thesis using CmdPlayerInput assms Some playing_upd [OF assms(1), of i "queue_input (ic_seq cmd) (ic_input cmd)"] in_play
        by (simp add: apply_command_def queue_input_active wrap insert_absorb)
    qed
  qed
qed

text \<open>The rest of a tick changes neither who plays nor the command queue.\<close>

lemma rest_roster: "roster (rest_of_tick dir s) = roster s"
  by (simp add: rest_of_tick_def Let_def roster_phases)

lemma inbound_basic [simp]:
  "sm_inbound (upd_player i f s) = sm_inbound s" "sm_inbound (upd_flag fi g s) = sm_inbound s"
  "sm_inbound (send_event c ty w s) = sm_inbound s" "sm_inbound (drop_flag fi v s) = sm_inbound s"
  "sm_inbound (reset_flag fi s) = sm_inbound s" "sm_inbound (emit ev s) = sm_inbound s"
  by (simp_all add: upd_player_def upd_flag_def send_event_def emit_def drop_flag_def reset_flag_def)

lemma inbound_fold: "(\<And>i s. sm_inbound (step i s) = sm_inbound s) \<Longrightarrow> sm_inbound (fold step is s) = sm_inbound s"
  by (induction "is" arbitrary: s) simp_all

lemma rest_inbound: "sm_inbound (rest_of_tick dir s) = sm_inbound s"
proof -
  have "sm_inbound (handle_death i s) = sm_inbound s" for i s by (simp add: handle_death_def Let_def)
  moreover have "sm_inbound s' = sm_inbound s" if "cast_ray dir c a t s = (hit, s')" for c a t s hit s'
    using cast_ray_frame(1) [OF that] by auto
  ultimately have combat: "sm_inbound (combat_player dir i s) = sm_inbound s" for i s
    by (simp add: combat_player_def Let_def split: prod.split option.split)
  have "sm_inbound (pop_inputs s) = sm_inbound s" "sm_inbound (move_players s) = sm_inbound s" "sm_inbound (combat dir s) = sm_inbound s" for s
    unfolding pop_inputs_def move_players_def combat_def
    by (rule inbound_fold; simp add: pop_input_def move_player_def Let_def combat)+
  moreover have "sm_inbound (flag_follow i s) = sm_inbound s" "sm_inbound (flag_player i s) = sm_inbound s"
    "sm_inbound (respawn_player i s) = sm_inbound s" for i s
    by (simp_all add: flag_follow_def flag_player_def respawn_player_def Let_def flag_return_def
        flag_pickup_def flag_capture_def split: option.split)
  ultimately show ?thesis
    by (simp add: rest_of_tick_def flags_phase_def Let_def inbound_fold win_check_def publish_def)
qed

lemma rest_over: "sm_match_over s \<Longrightarrow> sm_match_over (rest_of_tick dir s)"
  using clockwork_after_drain [of dir s]
  by (simp add: rest_of_tick_def Let_def clockwork_publish win_check_over) (simp add: clockwork_def)

lemma command_frame:
  "length (sm_players (apply_command cmd s)) = length (sm_players s)" "sm_match_over (apply_command cmd s) = sm_match_over s"
  by (simp_all add: apply_command_def apply_join_def apply_leave_def upd_player_def drop_flag_def upd_flag_def Let_def
      split: inbound_command_type.split option.split)

section \<open>The whole server\<close>

definition sys_inv :: "net_server \<Rightarrow> sim \<Rightarrow> bool" where
  "sys_inv ns s \<longleftrightarrow> net_reachable ns \<and> sm_inbound s = ns_inbound ns \<and> length (sm_players s) = kMaxPlayers
     \<and> (\<not> sm_match_over s \<longrightarrow> agree (playing s) ns)"

lemma sys_reachable_inv: "sys_reachable dir ns s \<Longrightarrow> sys_inv ns s"
proof (induction rule: sys_reachable.induct)
  case (started l lp u up e now ms ns args)
  have "ns_inbound ns = InboundQueue" "ns_lobby ns = Lobby" using started(1) by (auto simp: NetServer_def)
  moreover have "playing (configured_sim args e) = {}" "sm_inbound (configured_sim args e) = InboundQueue"
      "length (sm_players (configured_sim args e)) = kMaxPlayers"
    by (auto simp: playing_def configured_sim_def set_delta_snapshots_def set_snapshot_rate_def set_tick_rate_def set_wake_fd_def
        Sim_def default_player_def)
  moreover have "net_reachable ns" by (rule net_reachable.started [OF started])
  ultimately show ?case by (simp add: sys_inv_def agree_def InboundQueue_def Lobby_def)
next
  case (net ns s ns')
  then have "keeps ns ns'" "net_reachable ns'" using net_step_keeps by (auto simp: sys_inv_def)
  then show ?case using net.IH by (simp add: sys_inv_def keeps_def)
next
  case (command ns s cmd q)
  have items: "in_items (ns_inbound ns) = cmd # in_items q" using inq.pop_items [OF command(2)] .
  have "net_reachable ns" using command.IH by (simp add: sys_inv_def)
  from net_reachable.simulation [OF this, of "ns_outbound ns" q] have "net_reachable (ns\<lparr>ns_inbound := q\<rparr>)" by simp
  moreover have "playing (apply_command cmd (s\<lparr>sm_inbound := q\<rparr>)) = player_effect cmd (playing s)" if "\<not> sm_match_over s"
    using command_effect [of "s\<lparr>sm_inbound := q\<rparr>" cmd] command.IH that by (simp add: sys_inv_def)
  ultimately show ?case using command.IH items by (simp add: sys_inv_def agree_def command_frame)
next
  case (rest ns s)
  then have "playing (rest_of_tick dir s) = playing s" using playing_roster [OF rest_roster] by (simp add: sys_inv_def)
  moreover have "length (sm_players (rest_of_tick dir s)) = length (sm_players s)"
    using arg_cong [OF rest_roster, of length dir s] by (simp add: roster_def)
  ultimately show ?case using rest rest_over [of s dir] by (auto simp: sys_inv_def rest_inbound)
qed

text \<open>A whole tick is a sequence of steps: the drained commands one by one, then the rest.\<close>

lemma drain_is_steps:
  "sys_reachable dir ns s \<Longrightarrow> sm_inbound s = ns_inbound ns \<Longrightarrow>
    sys_reachable dir (ns\<lparr>ns_inbound := sm_inbound (drain_inbound s)\<rparr>) (drain_inbound s)"
proof (induction s arbitrary: ns rule: drain_inbound.induct)
  case (1 s)
  show ?case
  proof (cases "inbound_pop (sm_inbound s)")
    case None
    then show ?thesis using "1.prems" by (simp add: drain_inbound.simps [of s])
  next
    case (Some cq)
    obtain cmd q where cq: "cq = (cmd, q)" by fastforce
    let ?s = "apply_command cmd (s\<lparr>sm_inbound := q\<rparr>)"
    have "sys_reachable dir (ns\<lparr>ns_inbound := q\<rparr>) ?s"
      using sys_reachable.command [OF "1.prems"(1), of cmd q] Some cq "1.prems"(2) by simp
    from "1.IH" [OF Some cq [symmetric] this] show ?thesis by (simp add: drain_inbound.simps [of s] Some cq)
  qed
qed

lemma tick_is_steps:
  assumes "sys_reachable dir ns s"
  shows "sys_reachable dir (ns\<lparr>ns_inbound := sm_inbound (tick dir s)\<rparr>) (tick dir s)"
  using sys_reachable.rest [OF drain_is_steps [OF assms]] sys_reachable_inv [OF assms]
  by (simp add: tick_split rest_inbound sys_inv_def)

section \<open>A match that has just begun\<close>

text \<open>
  Two clients have joined, the host 0 on descriptor 6 sends its start request, and the simulation
  thread, which has not run yet, drains the queue.
\<close>

definition match_begun :: net_server where
  "match_begun = serve_event (TcpReadable 6 sample_env [RecvBytes (frame_image (message_type_byte StartRequest) [])]) two_joined"

definition first_drain :: sim where
  "first_drain = drain_inbound ((configured_sim default_server_args 5)\<lparr>sm_inbound := ns_inbound match_begun\<rparr>)"

lemma match_begun_lobby: "lb_in_progress (ns_lobby match_begun)" "lb_player_ids (ns_lobby match_begun) = [0, 1]"
proof -
  let ?frame = "frame_image (message_type_byte StartRequest) []"
  obtain t t' where "reg_view (ns_registry two_joined) = [(6, 0, t), (7, 1, t')]" using two_joined_view(1) by blast
  then have found: "find_by_fd (ns_registry two_joined) 6 = Some 0" "ce_player_id (ns_registry two_joined ! 0) = 0"
    by (auto simp: reg_view_def find_by_fd_def find_Some_iff nth_Cons' intro!: exI [of _ 0])
  have "received decode_start_request [] = Some ()"
    using start_request.decode_wire [where rest = "[]"] by (simp add: received_def)
  then have frames: "serve_frames sample_env 6 ?frame 0 ns = (3, False, on_start_request sample_env 6 ns)" for ns
    using serve_one_frame [of "[]" sample_env 6 "message_type_byte StartRequest" ns] by (simp add: serve_frame_def)
  have len: "length ?frame = 3" by (simp add: frame_image_def)
  let ?ns = "set_accum (TcpIn 0) ?frame two_joined"
  have "ns_lobby match_begun = ns_lobby (on_start_request sample_env 6 ?ns)"
    using found len two_joined_view(5)
    by (simp add: match_begun_def handle_tcp_readable_def accum_for_def get_accum_def frames kAccumCap_def kChunkBytes_def
      kMaxPlayers_def kTcpFrameCapBytes_def Let_def del: message_type_byte.simps)
  also have "\<dots> = (ns_lobby two_joined)\<lparr>lb_in_progress := True\<rparr>"
    using found two_joined_view(2-4)
    by (simp add: set_accum_def on_start_request_def can_issue_start_def begin_match_and_notify_def begin_match_def Let_def split: prod.split)
  finally show "lb_in_progress (ns_lobby match_begun)" "lb_player_ids (ns_lobby match_begun) = [0, 1]"
    using two_joined_view(2) by simp_all
qed

lemma sys_net: "sys_reachable dir ns s \<Longrightarrow> net_step ns ns' \<Longrightarrow> s' = s\<lparr>sm_inbound := ns_inbound ns'\<rparr> \<Longrightarrow> sys_reachable dir ns' s'"
  using sys_reachable.net by simp

lemma match_begun_reachable: "sys_reachable dir match_begun ((configured_sim default_server_args 5)\<lparr>sm_inbound := ns_inbound match_begun\<rparr>)"
proof -
  let ?started = "snd (server_start (Started 3 7777 4 7777 5 0) (NetServer InboundQueue OutboundQueue 3000))"
  let ?s = "\<lambda>ns. (configured_sim default_server_args 5)\<lparr>sm_inbound := ns_inbound ns\<rparr>"
  have perm: "\<forall>xs. mset (re_shuffle sample_env xs) = mset xs" by (simp add: sample_env_def)
  have "sys_reachable dir ?started (configured_sim default_server_args 5)"
    by (rule sys_reachable.started [of 3 7777 4 7777 5 0 3000]) simp_all
  then have "sys_reachable dir listening (?s listening)"
    unfolding listening_def by (rule sys_net [OF _ net_step.socket [OF socket_step.accepted]]) (simp_all add: sample_dom)
  then have "sys_reachable dir one_joined (?s one_joined)"
    unfolding one_joined_def join_event_def
    by (rule sys_net [OF _ net_step.socket [OF socket_step.readable [OF _ perm]]]) (use listening_view(1) in \<open>simp_all add: net_view_def\<close>)
  then have "sys_reachable dir two_joined (?s two_joined)"
    unfolding two_joined_def join_event_def
    by (rule sys_net [OF _ net_step.socket [OF socket_step.readable [OF _ perm]]]) (use one_joined_view(1) in \<open>auto simp: net_view_def\<close>)
  then show ?thesis
    unfolding match_begun_def
    by (rule sys_net [OF _ net_step.socket [OF socket_step.readable [OF _ perm]]]) (use two_joined_view(6) in simp_all)
qed

lemma drain_empty: "in_items (sm_inbound (drain_inbound s)) = []"
proof (induction s rule: drain_inbound.induct)
  case (1 s)
  then show ?case by (auto simp: drain_inbound.simps [of s] inq.pop_empty split: option.split)
qed

lemma first_drain_running: "\<not> sm_match_over first_drain"
proof -
  have "sm_match_over (drain_inbound s) = sm_match_over s" for s
    using clockwork_drain [of s] by (simp add: clockwork_def)
  then show ?thesis
    by (simp add: first_drain_def configured_sim_def set_delta_snapshots_def set_snapshot_rate_def set_tick_rate_def set_wake_fd_def Sim_def)
qed

section \<open>Properties\<close>

text \<open>
  C12 (refinement): the two threads agree about who plays. Whatever interleaving of the network
  thread and the simulation thread, as long as the match is not over, the active players of the
  simulation, after the commands that are still in the queue, are exactly the roster of the lobby
  (nobody before the match starts): no player is lost and no departed player stays in the game. Once
  the queue is empty, they are the connected clients themselves.
\<close>

theorem no_ghost_players:
  assumes "sys_reachable dir ns s" "\<not> sm_match_over s"
  shows "players_after (in_items (ns_inbound ns)) (playing s) =
      (if lb_in_progress (ns_lobby ns) then set (lb_player_ids (ns_lobby ns)) else {})
    \<and> (lb_in_progress (ns_lobby ns) \<and> in_items (ns_inbound ns) = [] \<longrightarrow>
        playing s = {pid. \<exists>i < length (ns_registry ns). 0 \<le> ce_tcp_fd (ns_registry ns ! i) \<and> ce_player_id (ns_registry ns ! i) = pid})"
proof -
  have inv: "sys_inv ns s" using sys_reachable_inv [OF assms(1)] .
  then have a: "agree (playing s) ns" and n: "net_inv ns" using assms(2) net_reachable_inv by (auto simp: sys_inv_def)
  let ?v = "reg_view (ns_registry ns)"
  have v: "slots_inv ?v" "set (lb_player_ids (ns_lobby ns)) = word_of_nat ` live ?v"
    using n by (simp_all add: net_inv_def net_view_def view_inv_def)
  have "ce_player_id (ns_registry ns ! i) = word_of_nat i" if "i \<in> live ?v" for i
    using live_lt [OF v(1) that] by auto
  then have "set (lb_player_ids (ns_lobby ns)) =
      {pid. \<exists>i < length (ns_registry ns). 0 \<le> ce_tcp_fd (ns_registry ns ! i) \<and> ce_player_id (ns_registry ns ! i) = pid}"
    unfolding v(2) by (force simp: live_reg_view)
  then show ?thesis using a by (auto simp: agree_def)
qed

theorem no_ghost_players_witness:
  "\<not> sm_match_over first_drain \<and> lb_in_progress (ns_lobby match_begun) \<and> playing first_drain = {0, 1}"
proof -
  let ?ns = "match_begun\<lparr>ns_inbound := sm_inbound first_drain\<rparr>"
  have "sys_reachable (\<lambda>_. (1, 0)) ?ns first_drain"
    unfolding first_drain_def by (rule drain_is_steps [OF match_begun_reachable]) simp
  from no_ghost_players [OF this first_drain_running] show ?thesis
    using first_drain_running match_begun_lobby by (simp add: first_drain_def drain_empty)
qed

end
