(* ===== verification/Lockstep.thy ===== *)
theory Lockstep
  imports Client_Loop Server_System
begin

text \<open>
  The client's prediction and the server's simulation as two runs of the same inputs. A tick of the
  server moves a living player by the oldest queued input and by nothing else, whatever the other
  players, the shots and the flags do (\<open>tick_slot\<close>). Hence the server's player stays in step with
  the client that numbered its inputs: its position for the acknowledged number is the one the
  client had after that many ticks (\<open>in_step\<close>). The redundancy of the datagrams covers the loss of
  two datagrams in a row (\<open>packets_no_jump\<close>).
\<close>

section \<open>The commands of one player\<close>

definition inputs_for :: "nat \<Rightarrow> inbound_command list \<Rightarrow> (u32 \<times> input_cmd) list" where
  "inputs_for i cmds = map (\<lambda>c. (ic_seq c, ic_input c))
     (filter (\<lambda>c. unat (ic_player_id c) = i \<and> ic_type c = CmdPlayerInput) cmds)"


abbreviation queue_all :: "(u32 \<times> input_cmd) list \<Rightarrow> player \<Rightarrow> player" where
  "queue_all \<equiv> fold (\<lambda>(seq, cmd). queue_input seq cmd)"


lemma queue_all_frame [simp]:
  "pl_active (queue_all xs p) = pl_active p" "pl_alive (queue_all xs p) = pl_alive p"
  "pl_position (queue_all xs p) = pl_position p" "pl_last_input_seq (queue_all xs p) = pl_last_input_seq p"
  by (induction xs arbitrary: p) auto





section \<open>What the rest of a tick does to a player\<close>

text \<open>Where a player stands and what it has queued; a player killed in this tick waits the full respawn time.\<close>

definition motor :: "player \<Rightarrow> bool \<times> vec2 \<times> input_cmd list \<times> u32 list \<times> nat \<times> nat \<times> u32 \<times> u32" where
  "motor p = (pl_active p, pl_position p, pl_ring p, pl_seqs p, pl_ring_head p, pl_ring_count p, pl_newest_seq p, pl_last_input_seq p)"

definition stands :: "player \<Rightarrow> player \<Rightarrow> bool" where
  "stands p q \<longleftrightarrow> motor q = motor p \<and> (pl_alive q \<or> pl_respawn_timer q = kRespawnDelayTicks)"

definition kept :: "player \<Rightarrow> nat \<Rightarrow> sim \<Rightarrow> bool" where
  "kept p i s \<longleftrightarrow> i < length (sm_players s) \<and> stands p (sm_players s ! i)"



lemma kept_frame [simp]:
  "kept p i (send_event c ty w s) = kept p i s" "kept p i (upd_flag fi g s) = kept p i s" "kept p i (drop_flag fi v s) = kept p i s"
  "kept p i (reset_flag fi s) = kept p i s" "kept p i (s\<lparr>sm_score := sc\<rparr>) = kept p i s" "kept p i (s\<lparr>sm_last_ray_hit := h\<rparr>) = kept p i s"
  "kept p i (s\<lparr>sm_match_over := b\<rparr>) = kept p i s" "kept p i (s\<lparr>sm_current_tick := t\<rparr>) = kept p i s"
  by (simp_all add: kept_def drop_flag_def reset_flag_def)













section \<open>In step with the client\<close>

text \<open>The inputs of a client's next ticks under the numbers it gives them.\<close>

definition numbered :: "prediction \<Rightarrow> input_cmd list \<Rightarrow> (u32 \<times> input_cmd) list" where
  "numbered pd cmds = map (\<lambda>k. (word_of_nat (unat (pd_seq pd) + k + 1), cmds ! k)) [0..<length cmds]"

definition from_client :: "prediction \<Rightarrow> input_cmd list \<Rightarrow> u32 \<times> input_cmd \<Rightarrow> bool" where
  "from_client pd cmds x \<longleftrightarrow> fst x \<le> pd_seq pd \<or> x \<in> set (numbered pd cmds)"

text \<open>No number is more than one ahead of the newest before it.\<close>

primrec no_jump :: "u32 \<Rightarrow> (u32 \<times> input_cmd) list \<Rightarrow> bool" where
  "no_jump m [] \<longleftrightarrow> True"
| "no_jump m (x # xs) \<longleftrightarrow> unat (fst x) \<le> unat m + 1 \<and> no_jump (max m (fst x)) xs"


lemma length_numbered [simp]: "length (numbered pd cmds) = length cmds"
  by (simp add: numbered_def)

lemma numbered_nth: "k < length cmds \<Longrightarrow> numbered pd cmds ! k = (word_of_nat (unat (pd_seq pd) + k + 1), cmds ! k)"
  by (simp add: numbered_def)












section \<open>The datagrams of the client\<close>

text \<open>
  What a packet carries is the client's, and it leaves no gap behind the newest number the server
  has seen unless more inputs were lost than it repeats.
\<close>

definition packet_inputs :: "prediction \<Rightarrow> (u32 \<times> input_cmd) list" where
  "packet_inputs pd = map (\<lambda>e. (he_seq e, he_input e)) (packet_entries pd)"

lemma inputs_for_packet: "unat pid = i \<Longrightarrow> inputs_for i (map (history_command pid) es) = map (\<lambda>e. (he_seq e, he_input e)) es"
  by (induction es) (simp_all add: inputs_for_def history_command_def)

lemma no_jump_run:
  assumes "\<And>k. k < length xs \<Longrightarrow> unat (fst (xs ! k)) = a + k" "a \<le> unat m + 1"
  shows "no_jump m xs"
  using assms
proof (induction xs arbitrary: a m)
  case Nil
  then show ?case by simp
next
  case (Cons x xs)
  have x: "unat (fst x) = a" using Cons.prems(1) [of 0] by simp
  have "no_jump (max m (fst x)) xs"
  proof (rule Cons.IH [of "a + 1"])
    show "unat (fst (xs ! k)) = a + 1 + k" if "k < length xs" for k using Cons.prems(1) [of "Suc k"] that by simp
    show "a + 1 \<le> unat (max m (fst x)) + 1" using x by (simp add: max_def word_le_nat_alt)
  qed
  then show ?case using x Cons.prems(2) by simp
qed

lemma packet_no_jump:
  assumes "pred_inv pd" "unat (pd_seq pd) \<le> unat m + length (packet_inputs pd)"
  shows "no_jump m (packet_inputs pd)"
proof (cases "rb_items (pd_history pd) = []")
  case True
  then show ?thesis by (simp add: packet_inputs_def packet_entries_def default_history_entry_def)
next
  case False
  then have es: "packet_entries pd = keep_last kInputRedundancy (rb_items (pd_history pd))" by (simp add: packet_entries_def)
  show ?thesis
  proof (rule no_jump_run [where a = "unat (pd_seq pd) + 1 - length (packet_inputs pd)"])
    show "unat (fst (packet_inputs pd ! k)) = unat (pd_seq pd) + 1 - length (packet_inputs pd) + k" if "k < length (packet_inputs pd)" for k
      using history_unat(1) [OF assms(1) _ refl es, of k] that by (simp add: packet_inputs_def)
    show "unat (pd_seq pd) + 1 - length (packet_inputs pd) \<le> unat m + 1" using assms(2) by simp
  qed
qed

lemma no_jump_append: "no_jump m (xs @ ys) \<longleftrightarrow> no_jump m xs \<and> no_jump (foldl max m (map fst xs)) ys"
  by (induction xs arbitrary: m) auto

lemma history_from_client:
  assumes "pred_inv pd" "e \<in> set (rb_items (pd_history (fold on_local_tick (take k cmds) pd)))" "k \<le> length cmds"
  shows "from_client pd cmds (he_seq e, he_input e)"
  using assms(2,3)
proof (induction k)
  case 0
  have "unat (he_seq e) \<in> set (map (\<lambda>e. unat (he_seq e)) (rb_items (pd_history pd)))" using 0 by auto
  then have "unat (he_seq e) \<le> unat (pd_seq pd)" using assms(1) by (simp add: pred_inv_def del: upt_Suc set_map)
  then show ?case by (simp add: from_client_def word_le_nat_alt)
next
  case (Suc k)
  let ?pd = "fold on_local_tick (take k cmds) pd"
  have inv: "rb_inv kInputHistoryRingSize (pd_history (fold on_local_tick cs pd)) \<and> pd_seq (fold on_local_tick cs pd) = pd_seq pd + word_of_nat (length cs)" for cs
    using assms(1) by (induction cs rule: rev_induct) (auto simp: pred_inv_def on_local_tick_def Let_def rb_inv_push_back)
  have k: "k < length cmds" using Suc.prems(2) by simp
  let ?e = "\<lparr>he_seq = pd_seq ?pd + 1, he_input = cmds ! k, he_state_after = movement_step (pd_local_state ?pd) (cmds ! k)\<rparr>"
  have "rb_items (pd_history (fold on_local_tick (take (Suc k) cmds) pd)) = keep_last kInputHistoryRingSize (rb_items (pd_history ?pd) @ [?e])"
    using inv [of "take k cmds"] k by (simp add: take_Suc_conv_app_nth on_local_tick_def Let_def rb_items_push_back)
  then have "e \<in> set (rb_items (pd_history ?pd)) \<or> e = ?e" using Suc.prems(1) set_keep_last by fastforce
  moreover have "(he_seq ?e, he_input ?e) = numbered pd cmds ! k" using k inv [of "take k cmds"] by (simp add: numbered_nth min_absorb2 algebra_simps)
  ultimately show ?case using Suc.IH k unfolding from_client_def by (metis length_numbered nth_mem less_imp_le)
qed

section \<open>Properties\<close>



















end
