(* ===== verification/World_System.thy ===== *)
theory World_System
  imports Server_System Snapshot_Stream
begin

text \<open>
  The whole system: both threads of the server with the real contents of their queues, a network
  that delivers whatever was ever sent in any order and number, and a client. A step takes one event
  off the outbound queue, serves one event of a socket, applies one command or runs the rest of a
  tick. The rest of a tick only appends to the outbound queue and reads neither queue, and the
  network thread reads nothing of the simulation, so a run in which events are taken while the tick
  is under way differs from one of these only in the moment of the push.

  The lemmas follow a snapshot through all of it: every datagram ever sent is the one of a
  publication of the simulation, or a shot.
\<close>

section \<open>Only the outbound queue leads to datagrams\<close>

definition wire :: "net_server \<Rightarrow> outbound_queue \<times> (udp_addr \<times> u8 list) list \<times> int" where
  "wire ns = (ns_outbound ns, ns_udp_sent ns, ns_udp_fd ns)"

lemma wire_basic [simp]:
  "wire (ns\<lparr>ns_inbound := q\<rparr>) = wire ns" "wire (ns\<lparr>ns_registry := r\<rparr>) = wire ns" "wire (ns\<lparr>ns_lobby := l\<rparr>) = wire ns"
  "wire (ns\<lparr>ns_poller := p\<rparr>) = wire ns" "wire (ns\<lparr>ns_pre_join := b\<rparr>) = wire ns" "wire (ns\<lparr>ns_tcp_in := t\<rparr>) = wire ns"
  "wire (ns\<lparr>ns_tcp_sent := ts\<rparr>) = wire ns" "wire (ns\<lparr>ns_tcp_flushed := tf\<rparr>) = wire ns" "wire (ns\<lparr>ns_token_counter := c\<rparr>) = wire ns"
  "wire (ns\<lparr>ns_last_silence_check_ms := now\<rparr>) = wire ns" "wire (upd_entry i f ns) = wire ns"
  by (simp_all add: wire_def upd_entry_def)

lemma wire_fold: "(\<And>i ns. wire (step i ns) = wire ns) \<Longrightarrow> wire (fold step is ns) = wire ns"
  by (induction "is" arbitrary: ns) simp_all

lemma wire_leaving [simp]:
  "wire (broadcast_lobby_state ns) = wire ns" "wire (server_disconnect i notify ns) = wire ns" "wire (drop_connection fd ns) = wire ns"
proof -
  show lobby: "wire (broadcast_lobby_state ns) = wire ns" for ns by (simp add: broadcast_lobby_state_def Let_def)
  show disconnect: "wire (server_disconnect i notify ns) = wire ns" for i notify
    unfolding server_disconnect_def Let_def lobby by simp
  show "wire (drop_connection fd ns) = wire ns"
    by (simp add: drop_connection_def close_unregistered_def disconnect split: option.split)
qed

lemma wire_frames [simp]:
  "wire (send_frame_generic fd ty enc ns) = wire ns" "wire (on_join_lobby env fd m ns) = wire ns"
  "wire (on_start_request env fd ns) = wire ns" "wire (serve_frame env fd b payload ns) = wire ns"
proof -
  show send: "wire (send_frame_generic fd ty enc ns) = wire ns" for fd ty enc ns by (simp add: send_frame_generic_def Let_def)
  have token: "wire (snd (make_token r ns)) = wire ns" for r ns by (simp add: make_token_def Let_def case_prod_beta)
  show join: "wire (on_join_lobby env fd m ns) = wire ns" for m
    by (simp add: on_join_lobby_def Let_def send token case_prod_beta split: option.split)
  have "wire (begin_match_and_notify sh ns) = wire ns" for sh by (simp add: begin_match_and_notify_def Let_def case_prod_beta)
  then show start: "wire (on_start_request env fd ns) = wire ns" by (simp add: on_start_request_def send split: option.split)
  show "wire (serve_frame env fd b payload ns) = wire ns" by (simp add: serve_frame_def join start split: option.split)
qed

lemma wire_serve_frames: "wire (snd (snd (serve_frames env fd accum pos ns))) = wire ns"
proof (induction env fd accum pos ns rule: serve_frames.induct)
  case (1 env fd accum pos ns)
  then show ?case by (subst serve_frames.simps) (simp split: frame_result.split)
qed

lemma wire_tcp_readable: "wire (handle_tcp_readable env fd rs ns) = wire ns"
proof -
  have "wire (snd (accum_for fd ns)) = wire ns" by (simp add: accum_for_def split: option.split)
  moreover have "wire (set_accum a bs ns') = wire ns'" for a bs ns' by (simp add: set_accum_def split: accum_ref.split)
  ultimately show ?thesis by (simp add: handle_tcp_readable_def Let_def case_prod_beta wire_serve_frames)
qed

lemma wire_flush: "wire (flush_pending fd rs ns) = wire ns"
proof -
  have "wire (flush_loop rs i ns) = wire ns" for i ns
    by (induction rs arbitrary: ns) (simp_all add: Let_def split: send_result.split)
  then show ?thesis by (simp add: flush_pending_def split: option.split)
qed

lemma wire_udp_readable: "wire (handle_udp_readable rs ns) = wire ns"
proof -
  have "wire (on_udp_packet now src data ns) = wire ns" for now src data ns
    by (simp add: on_udp_packet_def on_udp_hello_def on_player_input_def Let_def split: option.split)
  then show ?thesis by (induction rs arbitrary: ns) (simp_all split: udp_recv.split)
qed

lemma wire_detectors: "wire (enforce_pending_cap ns) = wire ns" "wire (check_silence_timeouts now ns) = wire ns"
  unfolding enforce_pending_cap_def check_silence_timeouts_def
  by (subst wire_fold; simp add: cap_check_def silence_check_def Let_def split: option.split)+

lemma wire_socket_step: "socket_step ns ns' \<Longrightarrow> wire ns' = wire ns"
  by (induction rule: socket_step.induct)
    (simp_all add: wire_udp_readable wire_tcp_readable wire_flush wire_detectors accept_new_clients_def update_write_interest_def)

section \<open>What the simulation queues\<close>

text \<open>Events of the game go over TCP, except shots; everything else is a published snapshot.\<close>

definition plain :: "outbound_event \<Rightarrow> bool" where
  "plain ev \<longleftrightarrow> oe_type ev = TcpBroadcast \<or> oe_type ev = UdpEvent \<and> payload_data ev ! 0 = message_type_byte ShotFired"

definition announces :: "publication list \<Rightarrow> outbound_event \<Rightarrow> bool" where
  "announces ps ev \<longleftrightarrow> (\<exists>t. publication_of t \<in> set ps \<and> ev = snapshot_event (with_acks t) (make_snapshot t))"

definition queue_ok :: "publication list \<Rightarrow> outbound_queue \<Rightarrow> bool" where
  "queue_ok ps q \<longleftrightarrow> (\<forall>ev \<in> set (out_items q). plain ev \<or> announces ps ev)"

lemma announces_more: "announces ps ev \<Longrightarrow> announces (ps @ ps') ev"
  by (auto simp: announces_def)

lemma queue_ok_push: "queue_ok ps (outbound_push ev q) \<longleftrightarrow> queue_ok ps q \<and> (plain ev \<or> announces ps ev)"
  by (auto simp: queue_ok_def outq.items_push)

lemma plain_ser:
  "plain (ser_event (default_outbound_event\<lparr>oe_type := TcpBroadcast\<rparr>) ty w)"
  "plain (ser_event (default_outbound_event\<lparr>oe_type := UdpEvent\<rparr>) ShotFired w)"
  by (simp_all add: plain_def ser_event_def Let_def default_outbound_event_def config_defs nth_append)

abbreviation tidy :: "publication list \<Rightarrow> sim \<Rightarrow> bool" where
  "tidy ps s \<equiv> queue_ok ps (sm_outbound s)"

lemma tidy_basic [simp]:
  "tidy ps (send_event TcpBroadcast ty w s) = tidy ps s" "tidy ps (send_event UdpEvent ShotFired w s) = tidy ps s"
  "sm_outbound (upd_player i f s) = sm_outbound s" "sm_outbound (upd_flag fi g s) = sm_outbound s"
  "sm_outbound (drop_flag fi v s) = sm_outbound s" "sm_outbound (reset_flag fi s) = sm_outbound s"
  by (simp_all add: send_event_def emit_def queue_ok_push plain_ser upd_player_def upd_flag_def drop_flag_def reset_flag_def)

lemma tidy_fold: "(\<And>i s. tidy ps (step i s) = tidy ps s) \<Longrightarrow> tidy ps (fold step is s) = tidy ps s"
  by (induction "is" arbitrary: s) simp_all

lemma tidy_combat: "tidy ps (combat_player dir i s) = tidy ps s"
proof -
  have "tidy ps (handle_death e s) = tidy ps s" for e s by (simp add: handle_death_def Let_def)
  moreover have "sm_outbound s' = sm_outbound s" if "cast_ray dir c a t s = (hit, s')" for c a t hit s'
    using cast_ray_frame(1) [OF that] by auto
  ultimately show ?thesis by (simp add: combat_player_def Let_def split: prod.split option.split)
qed

definition phases :: "ray_direction \<Rightarrow> sim \<Rightarrow> sim" where
  "phases dir s = win_check (flags_phase (combat dir (move_players (pop_inputs s))))"

lemma tidy_phases: "tidy ps (phases dir s) = tidy ps s"
proof -
  have "tidy ps (pop_inputs s) = tidy ps s" "tidy ps (move_players s) = tidy ps s" "tidy ps (combat dir s) = tidy ps s" for s
    unfolding pop_inputs_def move_players_def combat_def
    by (rule tidy_fold; simp add: pop_input_def move_player_def Let_def tidy_combat)+
  moreover have "tidy ps (flag_follow i s) = tidy ps s" "tidy ps (flag_player i s) = tidy ps s" "tidy ps (respawn_player i s) = tidy ps s" for i s
    by (simp_all add: flag_follow_def flag_player_def respawn_player_def Let_def flag_return_def
        flag_pickup_def flag_capture_def split: option.split)
  moreover have "tidy ps (win_check s) = tidy ps s" for s by (simp add: win_check_def Let_def)
  ultimately show ?thesis by (simp add: phases_def flags_phase_def Let_def tidy_fold)
qed

lemma tidy_end:
  assumes "tidy ps s"
  shows "tidy (if publish_due (with_acks s) then ps @ [publication_of s] else ps) (end_tick s)"
proof -
  let ?ev = "snapshot_event (with_acks s) (make_snapshot s)"
  have "announces (ps @ [publication_of s]) ?ev" by (auto simp: announces_def)
  moreover have "queue_ok (ps @ [publication_of s]) (sm_outbound s)" using assms announces_more by (auto simp: queue_ok_def)
  moreover have "sm_outbound (end_tick s) = (if publish_due (with_acks s) then outbound_push ?ev (sm_outbound s) else sm_outbound s)"
    by (simp add: end_tick_def publish_def Let_def with_acks_def emit_def)
  ultimately show ?thesis using assms by (simp add: queue_ok_push)
qed

section \<open>What the network thread sends\<close>

definition snapshot_types :: "u8 set" where
  "snapshot_types = {message_type_byte WorldSnapshot, message_type_byte DeltaSnapshot}"

definition known_datagram :: "publication list \<Rightarrow> u8 list \<Rightarrow> bool" where
  "known_datagram ps d \<longleftrightarrow> (\<exists>i < kMaxPlayers. \<exists>p \<in> set ps. d = datagram_to i p) \<or> (\<exists>ty body. ty \<notin> snapshot_types \<and> d = snapshot_header 0 ty @ body)"

definition sent_ok :: "publication list \<Rightarrow> net_server \<Rightarrow> bool" where
  "sent_ok ps ns \<longleftrightarrow> (\<forall>(a, d) \<in> set (ns_udp_sent ns). known_datagram ps d)"

lemma known_more: "known_datagram ps d \<Longrightarrow> known_datagram (ps @ ps') d"
  by (auto simp: known_datagram_def)

lemma event_datagram_known: "payload_data ev ! 0 = message_type_byte ShotFired \<Longrightarrow> known_datagram ps (event_datagram ev)"
proof -
  assume shot: "payload_data ev ! 0 = message_type_byte ShotFired"
  let ?ty = "if payload_size ev = 0 then 0 else payload_data ev ! 0"
  have "?ty \<notin> snapshot_types" using shot by (simp add: snapshot_types_def)
  moreover have "\<exists>body. event_datagram ev = snapshot_header 0 ?ty @ body" by (simp add: event_datagram_def snapshot_header_def Let_def)
  ultimately show ?thesis unfolding known_datagram_def by blast
qed

lemma event_datagrams_sent:
  "set (ns_udp_sent (fold (send_event_datagram ev) is ns)) \<subseteq> set (ns_udp_sent ns) \<union> {(a, event_datagram ev) | a. True}"
proof (induction "is" arbitrary: ns)
  case (Cons i "is")
  have "set (ns_udp_sent (send_event_datagram ev i ns)) \<subseteq> set (ns_udp_sent ns) \<union> {(a, event_datagram ev) | a. True}"
    by (auto simp: send_event_datagram_def Let_def split: option.splits)
  then show ?case using Cons [of "send_event_datagram ev i ns"] by auto
qed simp

lemma send_outbound_sent:
  assumes "net_inv ns" "plain ev \<or> announces ps ev" "sent_ok ps ns"
  shows "sent_ok ps (send_outbound ev ns)"
proof (cases "plain ev")
  case True
  then consider "oe_type ev = TcpBroadcast" | "oe_type ev = UdpEvent" "payload_data ev ! 0 = message_type_byte ShotFired"
    by (auto simp: plain_def)
  then show ?thesis
  proof cases
    case 1
    then show ?thesis using assms(3) by (simp add: send_outbound_def sent_ok_def)
  next
    case 2
    then show ?thesis using assms(3) event_datagrams_sent [of ev "live_slots (ns_registry ns)" ns] event_datagram_known [OF 2(2)]
      by (fastforce simp: send_outbound_def sent_ok_def)
  qed
next
  case False
  then obtain t where t: "publication_of t \<in> set ps" "ev = snapshot_event (with_acks t) (make_snapshot t)"
    using assms(2) by (auto simp: announces_def)
  show ?thesis
  proof (cases "0 \<le> ns_udp_fd ns")
    case True
    have "i < kMaxPlayers" if "i \<in> set (live_slots (ns_registry ns))" for i
      using net_inv_reg [OF assms(1)] that by (auto simp: live_slots_props(1) reg_inv_def)
    then have "known_datagram ps (datagram_to i (publication_of t))" if "i \<in> set (live_slots (ns_registry ns))" for i
      using t(1) that unfolding known_datagram_def by blast
    then show ?thesis unfolding t(2) sent_ok_def publication_datagrams [OF assms(1) True]
      using assms(3) by (auto simp: sent_ok_def)
  next
    case no: False
    then have "ns_udp_sent (send_outbound ev ns) = ns_udp_sent ns"
      using False by (simp add: send_outbound_def send_udp_snapshots_def t(2) snapshot_event_def Let_def)
    then show ?thesis using assms(3) by (simp add: sent_ok_def)
  qed
qed

text \<open>One event at a time or all of them: the states are the same.\<close>

lemma send_outbound_other_queue: "send_outbound ev (ns\<lparr>ns_outbound := q\<rparr>) = (send_outbound ev ns)\<lparr>ns_outbound := q\<rparr>"
proof -
  have "send_event_datagram ev i (ns\<lparr>ns_outbound := q\<rparr>) = (send_event_datagram ev i ns)\<lparr>ns_outbound := q\<rparr>" for i ns
    by (simp add: send_event_datagram_def Let_def split: option.split)
  then have "fold (send_event_datagram ev) is (ns\<lparr>ns_outbound := q\<rparr>) = (fold (send_event_datagram ev) is ns)\<lparr>ns_outbound := q\<rparr>" for "is"
    by (induction "is" arbitrary: ns) simp_all
  then show ?thesis by (simp add: send_outbound_def split: outbound_event_type.split)
qed

lemma send_reachable:
  assumes "net_reachable ns"
  shows "net_reachable (send_outbound ev (ns\<lparr>ns_outbound := q\<rparr>))"
proof -
  let ?one = "outbound_push ev OutboundQueue"
  have "outbound_pop ?one = Some (ev, OutboundQueue)" "outbound_pop OutboundQueue = None"
    by (simp_all add: outbound_pop_def outbound_push_def OutboundQueue_def)
  then have wake: "handle_wake (ns\<lparr>ns_outbound := ?one\<rparr>) = (send_outbound ev ns)\<lparr>ns_outbound := OutboundQueue\<rparr>"
    using handle_wake.simps [of "(send_outbound ev ns)\<lparr>ns_outbound := OutboundQueue\<rparr>"]
    by (simp add: handle_wake.simps [of "ns\<lparr>ns_outbound := ?one\<rparr>"] send_outbound_other_queue)
  have "net_reachable (ns\<lparr>ns_outbound := ?one\<rparr>)"
    using net_reachable.simulation [OF assms, where q = "ns_inbound ns" and q' = ?one] by simp
  from net_reachable.wake [OF this] have "net_reachable ((send_outbound ev ns)\<lparr>ns_outbound := OutboundQueue\<rparr>)" by (simp add: wake)
  from net_reachable.simulation [OF this, where q = "ns_inbound (send_outbound ev ns)" and q' = q] show ?thesis
    by (simp add: send_outbound_other_queue)
qed

section \<open>The whole system\<close>

inductive world :: "ray_direction \<Rightarrow> publication list \<Rightarrow> net_server \<Rightarrow> sim \<Rightarrow> bool" for dir where
  started: "server_start (Started l lp u up e now) (NetServer InboundQueue OutboundQueue ms) = (True, ns) \<Longrightarrow>
    0 \<le> l \<Longrightarrow> 0 \<le> u \<Longrightarrow> 0 \<le> e \<Longrightarrow> world dir [] ns (configured_sim args e)"
| socket: "world dir ps ns s \<Longrightarrow> socket_step ns ns' \<Longrightarrow> world dir ps ns' (s\<lparr>sm_inbound := ns_inbound ns'\<rparr>)"
| send: "world dir ps ns s \<Longrightarrow> outbound_pop (ns_outbound ns) = Some (ev, q) \<Longrightarrow>
    world dir ps (send_outbound ev (ns\<lparr>ns_outbound := q\<rparr>)) (s\<lparr>sm_outbound := q\<rparr>)"
| command: "world dir ps ns s \<Longrightarrow> inbound_pop (ns_inbound ns) = Some (cmd, q) \<Longrightarrow>
    world dir ps (ns\<lparr>ns_inbound := q\<rparr>) (apply_command cmd (s\<lparr>sm_inbound := q\<rparr>))"
| rest: "world dir ps ns s \<Longrightarrow> unat (sm_current_tick s) + 1 < 2 ^ 32 \<Longrightarrow>
    world dir (if publish_due (with_acks (phases dir s)) then ps @ [publication_of (phases dir s)] else ps)
      (ns\<lparr>ns_outbound := sm_outbound (rest_of_tick dir s)\<rparr>) (rest_of_tick dir s)"

lemma rest_end: "rest_of_tick dir s = end_tick (phases dir s)"
  by (simp add: rest_of_tick_def end_tick_def phases_def Let_def)

lemma phases_clock:
  "sm_current_tick (phases dir s) = sm_current_tick s" "remembers ps (phases dir s) = remembers ps s" "stride (phases dir s) = stride s"
  using clockwork_after_drain [of dir s]
  by (simp_all add: phases_def clockwork_def win_check_frame win_check_clock stride_def remembers_def)

lemma command_outbound: "sm_outbound (apply_command cmd s) = sm_outbound s"
  by (simp add: apply_command_def apply_join_def apply_leave_def Let_def split: inbound_command_type.split option.split)

lemma command_remembers: "remembers ps (apply_command cmd s) = remembers ps s" "stride (apply_command cmd s) = stride s"
proof -
  have "clockwork (apply_command cmd s) = clockwork s"
    by (simp add: apply_command_def apply_join_def apply_leave_def Let_def split: inbound_command_type.split option.split)
  then show "remembers ps (apply_command cmd s) = remembers ps s" "stride (apply_command cmd s) = stride s"
    by (simp_all add: clockwork_def stride_def remembers_def)
qed

lemma queues_remember: "remembers ps (s\<lparr>sm_inbound := q\<rparr>) = remembers ps s" "remembers ps (s\<lparr>sm_outbound := q'\<rparr>) = remembers ps s"
  "stride (s\<lparr>sm_inbound := q\<rparr>) = stride s" "stride (s\<lparr>sm_outbound := q'\<rparr>) = stride s"
  by (simp_all add: remembers_def stride_def)

definition world_inv :: "publication list \<Rightarrow> net_server \<Rightarrow> sim \<Rightarrow> bool" where
  "world_inv ps ns s \<longleftrightarrow> net_reachable ns \<and> sm_outbound s = ns_outbound ns \<and> queue_ok ps (ns_outbound ns) \<and> sent_ok ps ns
     \<and> remembers ps s \<and> stream_ok ps"

lemma world_inv: "world dir ps ns s \<Longrightarrow> stride s \<le> 255 \<Longrightarrow> world_inv ps ns s"
proof (induction rule: world.induct)
  case (started l lp u up e now ms ns args)
  have "ns_udp_sent ns = []" "ns_outbound ns = OutboundQueue" using started(1) by (auto simp: NetServer_def)
  moreover have "remembers [] (configured_sim args e)" "sm_outbound (configured_sim args e) = OutboundQueue"
    by (simp_all add: configured_sim_def set_delta_snapshots_def set_snapshot_rate_def set_tick_rate_def set_wake_fd_def Sim_def remembers_def)
  ultimately show ?case using net_reachable.started [OF started(1-4)]
    by (simp add: world_inv_def queue_ok_def sent_ok_def stream_ok_def OutboundQueue_def)
next
  case (socket ps ns s ns')
  have "net_reachable ns'" using socket socket_step_keeps by (auto simp: world_inv_def queues_remember)
  then show ?case using socket wire_socket_step [OF socket.hyps(2)]
    by (simp add: world_inv_def queues_remember wire_def sent_ok_def)
next
  case (send ps ns s ev q)
  let ?ns = "ns\<lparr>ns_outbound := q\<rparr>"
  have ih: "world_inv ps ns s" using send by (simp add: queues_remember)
  have items: "out_items (ns_outbound ns) = ev # out_items q" using outq.pop_items [OF send.hyps(2)] .
  have "net_reachable ?ns" using net_reachable.simulation [where q = "ns_inbound ns" and q' = q and ns = ns] ih by (simp add: world_inv_def)
  moreover from this have "net_inv ?ns" by (rule net_reachable_inv)
  moreover have "sent_ok ps ?ns" "plain ev \<or> announces ps ev" "queue_ok ps q"
    using ih items by (auto simp: world_inv_def sent_ok_def queue_ok_def)
  ultimately show ?case using ih send_outbound_sent [of ?ns ev ps] send_reachable [of ns ev q]
    by (simp add: world_inv_def queues_remember send_outbound_queue)
next
  case (command ps ns s cmd q)
  have ih: "world_inv ps ns s" using command by (simp add: command_remembers queues_remember)
  have "net_reachable (ns\<lparr>ns_inbound := q\<rparr>)" using net_reachable.simulation [where q = q and q' = "ns_outbound ns" and ns = ns] ih by (simp add: world_inv_def)
  then show ?case using ih by (simp add: world_inv_def command_outbound command_remembers queues_remember sent_ok_def)
next
  case (rest ps ns s)
  let ?t = "phases dir s" and ?q = "sm_outbound (rest_of_tick dir s)"
  let ?ps = "if publish_due (with_acks ?t) then ps @ [publication_of ?t] else ps"
  have stride: "stride ?t \<le> 255" "stride s \<le> 255" using rest.prems by (simp_all add: rest_end end_publish(2) phases_clock)
  then have ih: "world_inv ps ns s" using rest.IH by simp
  have "net_reachable (ns\<lparr>ns_outbound := ?q\<rparr>)" using net_reachable.simulation [where q = "ns_inbound ns" and q' = ?q and ns = ns] ih by (simp add: world_inv_def)
  moreover have "queue_ok ?ps ?q" using ih tidy_end [of ps ?t] tidy_phases [of ps dir s] by (simp add: world_inv_def rest_end)
  moreover have "sent_ok ?ps (ns\<lparr>ns_outbound := ?q\<rparr>)" using ih known_more by (auto simp: world_inv_def sent_ok_def)
  moreover have "remembers ps ?t" using ih by (simp add: world_inv_def phases_clock)
  then have "remembers ?ps (rest_of_tick dir s)" "stream_ok ?ps"
    using remembers_end [of ps ?t] stream_end [of ps ?t] stride(1) rest.hyps(2) ih by (auto simp: rest_end phases_clock world_inv_def)
  ultimately show ?case by (simp add: world_inv_def)
qed

text \<open>Serving the event descriptor is a sequence of steps, one for each event it finds.\<close>

lemma wake_is_steps:
  "world dir ps ns s \<Longrightarrow> world dir ps (handle_wake ns) (s\<lparr>sm_outbound := ns_outbound (handle_wake ns)\<rparr>) \<or> out_items (ns_outbound ns) = []"
proof (induction ns arbitrary: s rule: handle_wake.induct)
  case (1 ns)
  show ?case
  proof (cases "outbound_pop (ns_outbound ns)")
    case None
    then show ?thesis using outq.pop_empty by blast
  next
    case (Some x)
    obtain ev q where x: "x = (ev, q)" by fastforce
    let ?ns = "send_outbound ev (ns\<lparr>ns_outbound := q\<rparr>)"
    have step: "world dir ps ?ns (s\<lparr>sm_outbound := q\<rparr>)" using world.send [OF 1(2)] Some x by simp
    have wake: "handle_wake ns = handle_wake ?ns" using Some x by (simp add: handle_wake.simps [of ns])
    have "outbound_pop q = None \<Longrightarrow> handle_wake ?ns = ?ns" by (simp add: handle_wake.simps [of ?ns] send_outbound_queue)
    then show ?thesis using "1.IH" [OF Some x [symmetric] step] step outq.pop_empty [of q] unfolding wake
      by (auto simp: send_outbound_queue)
  qed
qed

section \<open>A client that has said hello\<close>

definition hello_datagram :: "u8 \<Rightarrow> u32 \<Rightarrow> u8 list" where
  "hello_datagram pid token = wire_udp_header \<lparr>uh_magic = kMagic, uh_version = kProtocolVersion, uh_type = message_type_byte UdpHello, uh_tick = 0\<rparr>
     @ wire_udp_hello \<lparr>hello_player_id = pid, hello_session_token = token\<rparr>"

definition greeted :: net_server where
  "greeted = serve_event (UdpReady [UdpData (1, 2) (hello_datagram 0 (ce_session_token (ns_registry one_joined ! 0))) 60]) one_joined"

definition waiting_sim :: sim where
  "waiting_sim = (configured_sim default_server_args 5)\<lparr>sm_inbound := ns_inbound greeted\<rparr>"

lemma hello_served: "on_udp_packet now src (hello_datagram pid token) ns = on_udp_hello now src \<lparr>hello_player_id = pid, hello_session_token = token\<rparr> ns"
proof -
  let ?hdr = "\<lparr>uh_magic = kMagic, uh_version = kProtocolVersion, uh_type = message_type_byte UdpHello, uh_tick = 0\<rparr>"
  let ?msg = "\<lparr>hello_player_id = pid, hello_session_token = token\<rparr>"
  have "received decode_udp_header (hello_datagram pid token) = Some ?hdr"
    using udp_header.decode_wire [of ?hdr "wire_udp_hello ?msg"] by (simp add: received_def hello_datagram_def valid_udp_header_def)
  moreover have "received decode_udp_hello (wire_udp_hello ?msg) = Some ?msg"
    using udp_hello.decode_wire [where rest = "[]" and m = ?msg] by (simp add: received_def)
  moreover have "drop kUdpHeaderBytes (hello_datagram pid token) = wire_udp_hello ?msg"
    by (simp add: hello_datagram_def wire_udp_header_def config_defs)
  ultimately show ?thesis by (simp add: on_udp_packet_def)
qed

lemma greeted_slot: "live_slots (ns_registry greeted) = [0]" "ce_has_udp_addr (ns_registry greeted ! 0)" "wire greeted = (OutboundQueue, [], 4)"
proof -
  obtain t where v: "net_view one_joined = ([(6, 0, t)], snd (add_player 0 Lobby), replicate kMaxPlayers [], {3, 4, 5, 6, 7})"
    using one_joined_view(1) by blast
  then obtain e where e: "ns_registry one_joined = [e]" "ce_tcp_fd e = 6" "ce_player_id e = 0" by (auto simp: net_view_def reg_view_def)
  have hello: "greeted = on_udp_hello 60 (1, 2) \<lparr>hello_player_id = 0, hello_session_token = ce_session_token e\<rparr> one_joined"
    by (simp add: greeted_def e hello_served) (simp add: hello_datagram_def wire_udp_header_def)
  have "find_by_id [e] 0 = Some 0" by (simp add: find_by_id_def e kFreeFd_def)
  then show "live_slots (ns_registry greeted) = [0]" "ce_has_udp_addr (ns_registry greeted ! 0)"
    by (simp_all add: hello on_udp_hello_def auth_udp_sender_def upd_entry_def e live_slots_def)
  have "wire greeted = wire one_joined" using wire_socket_step [OF socket_step.udp] unfolding greeted_def .
  also have "\<dots> = wire listening" by (simp add: one_joined_def join_event_def wire_tcp_readable)
  also have "\<dots> = (OutboundQueue, [], 4)" by (simp add: listening_def accept_new_clients_def) (simp add: wire_def NetServer_def)
  finally show "wire greeted = (OutboundQueue, [], 4)" .
qed

lemma world_socket: "world dir ps ns s \<Longrightarrow> socket_step ns ns' \<Longrightarrow> s' = s\<lparr>sm_inbound := ns_inbound ns'\<rparr> \<Longrightarrow> world dir ps ns' s'"
  using world.socket by simp

lemma greeted_world: "world dir [] greeted waiting_sim"
proof -
  let ?started = "snd (server_start (Started 3 7777 4 7777 5 0) (NetServer InboundQueue OutboundQueue 3000))"
  let ?s = "\<lambda>ns. (configured_sim default_server_args 5)\<lparr>sm_inbound := ns_inbound ns\<rparr>"
  have perm: "\<forall>xs. mset (re_shuffle sample_env xs) = mset xs" by (simp add: sample_env_def)
  have "world dir [] ?started (configured_sim default_server_args 5)" by (rule world.started [of 3 7777 4 7777 5 0 3000]) simp_all
  then have "world dir [] listening (?s listening)"
    unfolding listening_def by (rule world_socket [OF _ socket_step.accepted]) (simp_all add: sample_dom)
  then have "world dir [] one_joined (?s one_joined)" unfolding one_joined_def join_event_def
    by (rule world_socket [OF _ socket_step.readable [OF _ perm]]) (use listening_view(1) in \<open>simp_all add: net_view_def\<close>)
  then show ?thesis unfolding waiting_sim_def greeted_def by (rule world_socket [OF _ socket_step.udp]) simp
qed

lemma fold_id: "(\<And>x. x \<in> set xs \<Longrightarrow> f x s = s) \<Longrightarrow> fold f xs s = s"
  by (induction xs) simp_all

text \<open>Without players and before the end of the match the phases of a tick do nothing.\<close>

lemma idle_phases:
  assumes "\<forall>i < kMaxPlayers. \<not> pl_active (sm_players s ! i)" "fl_state (sm_flags s ! 0) = AtBase" "fl_state (sm_flags s ! 1) = AtBase"
    and "sm_score s = [0, 0]" "sm_current_tick s < match_limit_ticks"
  shows "phases dir s = s"
proof -
  have "pop_inputs s = s" "move_players s = s" "combat dir s = s" "fold flag_player [0..<kMaxPlayers] s = s" "fold respawn_player [0..<kMaxPlayers] s = s"
    unfolding pop_inputs_def move_players_def combat_def
    by (rule fold_id; use assms(1) in \<open>simp add: pop_input_def move_player_def combat_player_def flag_player_def respawn_player_def Let_def\<close>)+
  moreover have "fold flag_follow [0..<2] s = s"
    by (rule fold_id) (use assms(2,3) in \<open>auto simp: flag_follow_def Let_def less_2_cases_iff\<close>)
  moreover have "win_check s = s" using assms(4,5) by (simp add: win_check_def config_defs)
  ultimately show ?thesis by (simp add: phases_def flags_phase_def Let_def)
qed

section \<open>Properties\<close>

lemma other_datagram:
  assumes "ty \<notin> snapshot_types"
  shows "nc_pending_snapshots (handle_datagram (snapshot_header t ty @ body) nc) = nc_pending_snapshots nc"
    "nc_last_snapshot_cache (handle_datagram (snapshot_header t ty @ body) nc) = nc_last_snapshot_cache nc"
    "nc_have_last_snapshot (handle_datagram (snapshot_header t ty @ body) nc) = nc_have_last_snapshot nc"
proof -
  let ?hdr = "\<lparr>uh_magic = kMagic, uh_version = kProtocolVersion, uh_type = ty, uh_tick = t\<rparr>"
  have "decoded decode_udp_header (wire_udp_header ?hdr @ body) = Some ?hdr"
    using udp_header.decode_wire [of ?hdr body] by (simp add: decoded_def valid_udp_header_def)
  moreover have "drop kUdpHeaderBytes (wire_udp_header ?hdr @ body) = body" "\<not> length (wire_udp_header ?hdr @ body) < kUdpHeaderBytes"
    by (simp_all add: wire_udp_header_def config_defs)
  ultimately have "handle_datagram (snapshot_header t ty @ body) nc = dispatch_udp_payload ty t body nc"
    by (simp add: handle_datagram_def header_image)
  then show "nc_pending_snapshots (handle_datagram (snapshot_header t ty @ body) nc) = nc_pending_snapshots nc"
    "nc_last_snapshot_cache (handle_datagram (snapshot_header t ty @ body) nc) = nc_last_snapshot_cache nc"
    "nc_have_last_snapshot (handle_datagram (snapshot_header t ty @ body) nc) = nc_have_last_snapshot nc"
    using assms by (simp_all add: dispatch_udp_payload_def snapshot_types_def push_decoded_def push_event_def split: option.split)
qed

lemma known_delivery:
  assumes "stream_ok ps" "known_datagram ps d" "faithful ps nc"
    and "set (nc_pending_snapshots nc) \<subseteq> {snap. \<exists>i < kMaxPlayers. \<exists>k. shows_publication i ps snap k}"
  shows "faithful ps (handle_datagram d nc)
    \<and> set (nc_pending_snapshots (handle_datagram d nc)) \<subseteq> {snap. \<exists>i < kMaxPlayers. \<exists>k. shows_publication i ps snap k}"
proof (cases "\<exists>i < kMaxPlayers. \<exists>p \<in> set ps. d = datagram_to i p")
  case True
  then obtain i k where "i < kMaxPlayers" "k < length ps" "d = datagram_to i (ps ! k)" by (auto simp: in_set_conv_nth)
  then show ?thesis using delivery_step [OF assms(1) _ assms(3), of k i] assms(4) by fastforce
next
  case False
  then obtain ty body where "ty \<notin> snapshot_types" "d = snapshot_header 0 ty @ body" using assms(2) by (auto simp: known_datagram_def)
  then show ?thesis using other_datagram [of ty 0 body nc] assms(3,4) by (simp add: faithful_def)
qed

text \<open>
  C4 (safety): in the whole system a client shows only worlds of the simulation. Whatever the two
  threads of the server do and however they interleave, and whichever of the datagrams that were
  ever sent the network delivers, to whom, in what order and how often: every snapshot that the
  client queues agrees field by field with one that the simulation published, with the
  acknowledgement of one of its players.
\<close>

theorem clients_show_the_simulation:
  assumes "world dir ps ns s" "stride s \<le> 255" "set ds \<subseteq> snd ` set (ns_udp_sent ns)"
    and "\<not> nc_have_last_snapshot nc" "nc_pending_snapshots nc = []"
  shows "\<forall>snap \<in> set (nc_pending_snapshots (fold handle_datagram ds nc)).
    \<exists>k < length ps. \<exists>i < kMaxPlayers. cache_agrees snap (pub_current (ps ! k)) \<and> last_input_seq snap = pub_acks (ps ! k) ! i"
proof -
  have inv: "stream_ok ps" "sent_ok ps ns" using world_inv [OF assms(1,2)] by (simp_all add: world_inv_def)
  have "faithful ps (fold handle_datagram ds nc)
      \<and> set (nc_pending_snapshots (fold handle_datagram ds nc)) \<subseteq> {snap. \<exists>i < kMaxPlayers. \<exists>k. shows_publication i ps snap k}"
    using assms(3)
  proof (induction ds rule: rev_induct)
    case Nil
    then show ?case using assms(4,5) by (simp add: faithful_def)
  next
    case (snoc d ds)
    have "known_datagram ps d" using snoc.prems inv(2) by (auto simp: sent_ok_def)
    then show ?case using snoc known_delivery [OF inv(1)] by simp
  qed
  then have "\<exists>i < kMaxPlayers. \<exists>k. shows_publication i ps snap k" if "snap \<in> set (nc_pending_snapshots (fold handle_datagram ds nc))" for snap
    using that by blast
  then show ?thesis unfolding shows_publication_def by blast
qed

theorem clients_show_the_simulation_witness:
  "\<exists>ps ns s d. world (\<lambda>_. (1024, 0)) ps ns s \<and> d \<in> snd ` set (ns_udp_sent ns)
     \<and> nc_pending_snapshots (fold handle_datagram [d, d] NetClient) \<noteq> []
     \<and> list_all (\<lambda>snap. list_ex (\<lambda>p. cache_agrees snap (pub_current p)) ps) (nc_pending_snapshots (fold handle_datagram [d, d] NetClient))"
proof -
  let ?dir = "\<lambda>_. (1024, 0)" and ?s = waiting_sim and ?p = "publication_of waiting_sim"
  let ?ev = "snapshot_event (with_acks waiting_sim) (make_snapshot waiting_sim)"
  let ?q = "outbound_push ?ev OutboundQueue"
  have sim: "sm_players ?s = replicate kMaxPlayers default_player" "sm_flags ?s ! 0 = default_flag_info\<lparr>fl_position := kRedBasePosition\<rparr>"
    "sm_flags ?s ! 1 = default_flag_info\<lparr>fl_position := kBlueBasePosition\<rparr>" "sm_score ?s = [0, 0]" "sm_current_tick ?s = 0"
    "sm_outbound ?s = OutboundQueue" "\<not> sm_have_published ?s" "stride ?s = 1"
    by (simp_all add: waiting_sim_def configured_sim_def set_delta_snapshots_def set_snapshot_rate_def set_tick_rate_def set_wake_fd_def
        Sim_def stride_def default_server_args_def config_defs cdiv_def)
  have idle: "phases ?dir ?s = ?s" by (rule idle_phases) (use sim(3) in \<open>simp_all add: sim default_player_def default_flag_info_def match_limit_ticks_def config_defs\<close>)
  have due: "publish_due (with_acks ?s)" using due_iff [of "with_acks ?s"] sim(8) by simp
  have out: "sm_outbound (rest_of_tick ?dir ?s) = ?q" using due
    by (simp add: rest_end idle end_tick_def publish_def Let_def with_acks_def emit_def sim(6))
  have w1: "world ?dir [?p] (greeted\<lparr>ns_outbound := ?q\<rparr>) (rest_of_tick ?dir ?s)"
    using world.rest [OF greeted_world, of ?dir] idle due out by (simp add: sim(5))
  have "outbound_pop (ns_outbound (greeted\<lparr>ns_outbound := ?q\<rparr>)) = Some (?ev, OutboundQueue)"
    by (simp add: outbound_pop_def outbound_push_def OutboundQueue_def)
  note w2 = world.send [OF w1 this]
  let ?ns = "send_outbound ?ev (greeted\<lparr>ns_outbound := OutboundQueue\<rparr>)" and ?t = "(rest_of_tick ?dir ?s)\<lparr>sm_outbound := OutboundQueue\<rparr>"
  have w: "world ?dir [?p] ?ns ?t" using w2 by simp
  have stride: "stride ?t \<le> 255" by (simp add: queues_remember rest_end end_publish(2) idle sim(8))
  have "net_inv greeted" using world_inv [OF greeted_world] sim(8) by (simp add: world_inv_def net_reachable_inv)
  then have net: "net_inv (greeted\<lparr>ns_outbound := OutboundQueue\<rparr>)" using net_inv_view by (simp add: net_inv_def)
  have "ns_udp_fd greeted = 4" "ns_udp_sent greeted = []" using greeted_slot(3) by (simp_all add: wire_def)
  then have sent: "snd ` set (ns_udp_sent ?ns) = {datagram_to 0 ?p}"
    using publication_datagrams [OF net, of ?s] greeted_slot(1,2) by simp
  have key: "pub_keyframe ?p" "wf_snapshot (pub_current ?p)"
    by (simp_all add: publication_of_def publish_keyframe_def with_acks_def sim(7) wf_make_snapshot)
  let ?d = "datagram_to 0 ?p"
  have "nc_pending_snapshots (fold handle_datagram [?d, ?d] NetClient) \<noteq> []"
    using keyframe_received [OF key, of 0 "handle_datagram ?d NetClient"] by auto
  moreover have "list_all (\<lambda>snap. list_ex (\<lambda>p. cache_agrees snap (pub_current p)) [?p]) (nc_pending_snapshots (fold handle_datagram [?d, ?d] NetClient))"
    using clients_show_the_simulation [OF w stride, of "[?d, ?d]" NetClient] sent by (auto simp: NetClient_def list_all_iff)
  moreover have "?d \<in> snd ` set (ns_udp_sent ?ns)" unfolding sent by simp
  ultimately show ?thesis using w by (intro exI [of _ "[?p]"] exI [of _ ?ns] exI [of _ ?t] exI [of _ ?d] conjI)
qed

end
