(* ===== verification/Spec2Isabelle.thy ===== *)
theory Spec2Isabelle
  imports Sim_Ray Snapshot_Stream Client_Types Programs Lockstep World_System
begin

text \<open>
  A networked game of capture the flag for up to ten players: an authoritative server
  (\<open>src/server\<close>), a predicting graphical client (\<open>src/client\<close>), bots (\<open>src/bot\<close>) and the code they
  share (\<open>src/shared\<close>). This development models the C++ sources of all four directories and proves
  what makes them correct.

  \<^bold>\<open>The program.\<close> The server has two threads. The network thread (\<open>NetServer\<close>) accepts connections,
  frames and decodes what clients send, authenticates datagrams, and keeps registry, lobby and poll
  set. The simulation thread (\<open>Sim\<close>) runs a fixed tick: drain commands, pop one input per player,
  move, shoot, handle flags, check for the end, publish. They share two queues and an event
  descriptor and nothing else. A snapshot is published in full or as a difference to the previous
  one and goes to every client as a datagram that carries the client's own acknowledgement; game
  events go over TCP. A client predicts its own player with the physics step of the server, corrects
  the prediction with every snapshot by replaying the inputs that are not yet acknowledged, and
  shows the other players in the past, interpolated between two snapshots. A bot is a client whose
  inputs come from a distance field over the map instead of a keyboard.

  \<^bold>\<open>Theories and sources.\<close>

  \<^item> Shared code. \<open>Ctf_Prelude\<close>: integer types, truncating division, lists updated by index.
    \<open>Game_Types\<close>: \<open>game_config.h\<close>, \<open>game_types.h\<close>. \<open>Byte_Buffer\<close>: \<open>bytebuffer.cpp\<close>. \<open>Codec\<close>,
    \<open>Protocol\<close>, \<open>Protocol_Codecs\<close>, \<open>Delta_Snapshot\<close>: \<open>protocol.cpp\<close>, one pair of state-monad programs
    per message, its wire image, and the contract \<open>message_codec\<close> interpreted for each of them.
    \<open>Game_Map\<close>: \<open>map.cpp\<close>. \<open>Movement\<close>: \<open>movement.cpp\<close>. \<open>Ring_Buffer\<close>: \<open>ring_buffer.h\<close> with the contract
    \<open>bounded_queue\<close>, which the input ring of the simulation fulfils as well. \<open>Net_Util\<close>:
    \<open>net_util.cpp\<close>; \<open>send\<close> is a parameter with the contract \<open>stream_socket\<close>.
  \<^item> Server. \<open>Queues\<close> (contract \<open>fifo_queue\<close>), \<open>Lobby\<close>, \<open>Client_Registry\<close>, \<open>Broadcast\<close>: the files of
    these names. \<open>Poller\<close>: both implementations of \<open>IPoller\<close> against the contract \<open>poller\<close>.
    \<open>Net_Server\<close>: every handler of \<open>net_server.cpp\<close> and the body of its event loop; \<open>Net_Server_Inv\<close>:
    its invariant; \<open>Net_Server_Props\<close>: what it promises to clients and simulation. \<open>Sim\<close>: the state
    and the phases of \<open>sim.cpp\<close>; \<open>Sim_Inputs\<close>: the input rings; \<open>Sim_Invariant\<close>: players and flags;
    \<open>Sim_Publish\<close>: snapshots, events and the end of the match; \<open>Sim_Ray\<close>: the shot; \<open>Sim_Run\<close>: the
    paced loop. \<open>Server_System\<close>: both threads together. \<open>Lockstep\<close>: the simulation against the
    prediction of a client. \<open>World_System\<close>: both threads with the contents of their queues, the
    datagrams and a client.
  \<^item> Client. \<open>Net_Client\<close>, \<open>Prediction\<close>, \<open>Interpolation\<close>, \<open>Render_Policy\<close>, \<open>Render\<close>: the files of these
    names. \<open>Client_Loop\<close>: the loop of \<open>main.cpp\<close>. \<open>Client_Types\<close>: what any bytes can do to the client.
    \<open>Snapshot_Stream\<close>: the way of a snapshot from \<open>Sim::publish\<close> to the client's queue. \<open>Float_Model\<close>:
    floating point.
  \<^item> Bots. \<open>Flow_Field\<close>, \<open>Bot_AI\<close>, \<open>Bot_Loop\<close>: \<open>flow_field.cpp\<close>, \<open>bot_ai.cpp\<close> and the loop of \<open>main.cpp\<close>.
  \<^item> Programs. \<open>Command_Line\<close>: the three parsers and the wiring of the server. \<open>Programs\<close>: the three
    \<open>main\<close> functions from the command line to the exit code, clocks and the destructor of the server.

  \<^bold>\<open>How code becomes definitions.\<close> A class is a record, a method a function on it that returns the new
  state; a pointer to a registry or player entry is its index. An early return, a refused message or
  a failed call is a branch. Unsigned integers are words of their width; signed ones are \<open>int\<close>, with
  the bounds proved where the code relies on them. Loops are recursions. What comes from outside is
  an argument: results of \<open>recv\<close>, \<open>send\<close>, \<open>poll\<close> and \<open>accept\<close> are lists of outcomes, and so are clock
  readings, keys, \<open>rand\<close>, \<open>fork\<close> and \<open>waitpid\<close>. What goes out (frames, datagrams, drawing calls) is
  data. \<open>std::shuffle\<close>, \<open>cos\<close> and \<open>sin\<close> of the shot, the functions of the mathematical library and the
  rounding of floating point are parameters, constrained by what their documentation promises: a
  shuffle permutes, \<open>cos\<close> and \<open>sin\<close> are accurate to 1/4096, rounding is monotonic, exact on small
  integers and close on others.

  \<^bold>\<open>What is shown.\<close>

  \<^item> Wire format: round trips of every message; truncated datagrams are refused, and no encoded input
    or snapshot is a proper prefix of another; the frames that the client takes from its server, and
    the server from a joined client, do not depend on how the stream is cut; and no bytes whatsoever
    give the client a message that is not well formed.
  \<^item> Snapshots: a difference brings the cache up to date; under loss, repetition and reordering a
    client shows only published worlds, whatever the threads of the server do meanwhile; a keyframe
    recovers the stream.
  \<^item> Simulation: no player is ever in a wall or beyond the map, no step tunnels through a wall or
    overflows; flags and carriers fit together; vital values stay in range; input rings
    deduplicate, and one input is consumed per tick; a shot stops at the first contact and hits the
    lowest id there; the published snapshot is the state at the end of its tick; the match ends in
    time; the loop keeps its pace, without bursts and without losing time to small delays.
  \<^item> Network thread: connections, registry, lobby and poll set agree in every reachable state; only
    authenticated inputs reach the simulation; the first join request of a connection is answered
    exactly once (a repeated one is ignored), starts and departures are announced exactly once; the
    silence detector removes exactly the silent clients.
  \<^item> Both threads: for every interleaving the simulation plays, until the match is over and after the
    queued commands, exactly the roster of the lobby.
  \<^item> Server and client: the simulation runs the inputs of a client in order, one per tick, and
    publishes its player exactly where the client predicted it for the acknowledged input; every
    input that waits is run within eight ticks, whatever arrives meanwhile, as long as the player
    lives, the match is on and the inputs leave no gap and do not overflow the ring.
  \<^item> Client: reconciliation is the replay of the unacknowledged inputs, a confirmed prediction is
    kept, inputs arrive with the numbers they were predicted with, a remote player is shown at the
    linear interpolation between two snapshots up to rounding, every tick sends, every player is drawn
    exactly once, and the components stay within their reachable states for a whole session.
  \<^item> Bots: the field is the shortest distance, steering takes only steps that move, and a decision
    never presses opposite keys.
  \<^item> Errors of the code that the model exhibits: a correct prediction is counted as a misprediction
    exactly when its position is not a multiple of 1/16 pixel, and
    a dropped flag that is drawn in the wrong place because its event names the other team.

  \<^bold>\<open>Bounds and loops that may not end.\<close> \<open>Flow_Field.bfs\<close> and \<open>Sim_Run.run_loop\<close> are partial functions
  into \<open>option\<close>; \<open>build\<close> is proved to return for every target, and the loop to return after exactly the
  ticks until it is stopped. The march of a shot has the step bound of the code, proved sufficient to
  leave the map. \<open>send_all\<close> is partial too: it returns unless from some call on every
  \<open>send\<close> is interrupted. Deltas count their
  distance to the baseline in one byte, so the stream properties assume at most 255 ticks between
  publications; tick and sequence numbers have 32 bits, and the properties that order them assume
  that they have not wrapped, which takes more than four years of play at 30 ticks per second.

  \<^bold>\<open>Not modelled.\<close> The graphics library and the operating system behind their results; the memory
  model below the mutex-protected queue operations, which are atomic steps here; text written to the
  terminal and \<open>NetClient::log\<close>; the signal handlers, whose only effect is that a session ends; the
  constructor reservations of vector capacity; iterator classes of the ring buffer, which appear as
  index loops; the test hook \<open>debug_pre_tick\<close>; and the bits that a conversion outside the range of
  its type leaves in C++, which are those of the usual truncation here and are recorded as findings.
\<close>

end
